(* ===== verification/Prelude.thy ===== *)
theory Prelude
  imports Main "HOL-Library.Word" "HOL-Library.List_Lexorder" "HOL-Library.Char_ord"
    "HOL-Library.Multiset"
begin

text \<open>
  Shared vocabulary of the development: the widths of the Rust integers the crate uses, the
  functions of Rust's \<^verbatim>\<open>str\<close>, slice and \<^verbatim>\<open>Vec\<close> that the sources call, and the
  generic facts on them that the component theories use.

  A Rust string is its UTF-8 byte sequence; it is modelled as a HOL \<open>string\<close> whose characters
  are those bytes, so the lexicographic order of \<open>List_Lexorder\<close> and \<open>Char_ord\<close> is the order
  of Rust's \<^verbatim>\<open>str\<close>.
\<close>

section \<open>Machine integers\<close>

type_synonym u8 = "8 word"
type_synonym u16 = "16 word"
type_synonym u32 = "32 word"
type_synonym u64 = "64 word"
type_synonym u128 = "128 word"
type_synonym usize = "64 word"
type_synonym bytes = "8 word list"

section \<open>Collections of facts\<close>

named_theorems str_simps \<open>equations of the string functions\<close>
named_theorems inv_intros \<open>preservation lemmas of the component invariants\<close>

section \<open>Strings\<close>

definition string_bytes :: "string \<Rightarrow> bytes" where
  "string_bytes s = map (\<lambda>c. of_nat (of_char c)) s"

fun split_on :: "char \<Rightarrow> string \<Rightarrow> string list" where
  "split_on d [] = [[]]"
| "split_on d (c # cs) =
     (if c = d then [] # split_on d cs
      else (case split_on d cs of [] \<Rightarrow> [[c]] | w # ws \<Rightarrow> (c # w) # ws))"

fun split_once :: "char \<Rightarrow> string \<Rightarrow> (string \<times> string) option" where
  "split_once d [] = None"
| "split_once d (c # cs) =
     (if c = d then Some ([], cs)
      else map_option (\<lambda>(a, b). (c # a, b)) (split_once d cs))"

fun strip_prefix :: "string \<Rightarrow> string \<Rightarrow> string option" where
  "strip_prefix [] s = Some s"
| "strip_prefix (p # ps) [] = None"
| "strip_prefix (p # ps) (c # cs) = (if p = c then strip_prefix ps cs else None)"

definition strip_suffix :: "string \<Rightarrow> string \<Rightarrow> string option" where
  "strip_suffix p s = map_option rev (strip_prefix (rev p) (rev s))"

fun join :: "string \<Rightarrow> string list \<Rightarrow> string" where
  "join sep [] = []"
| "join sep [x] = x"
| "join sep (x # y # ys) = x @ sep @ join sep (y # ys)"

definition is_ascii_uppercase :: "char \<Rightarrow> bool" where
  "is_ascii_uppercase c \<longleftrightarrow> 65 \<le> (of_char c :: nat) \<and> (of_char c :: nat) \<le> 90"

definition is_ascii_lowercase :: "char \<Rightarrow> bool" where
  "is_ascii_lowercase c \<longleftrightarrow> 97 \<le> (of_char c :: nat) \<and> (of_char c :: nat) \<le> 122"

definition is_ascii_digit :: "char \<Rightarrow> bool" where
  "is_ascii_digit c \<longleftrightarrow> 48 \<le> (of_char c :: nat) \<and> (of_char c :: nat) \<le> 57"

definition is_ascii_alphabetic :: "char \<Rightarrow> bool" where
  "is_ascii_alphabetic c \<longleftrightarrow> is_ascii_uppercase c \<or> is_ascii_lowercase c"

definition is_ascii_alphanumeric :: "char \<Rightarrow> bool" where
  "is_ascii_alphanumeric c \<longleftrightarrow> is_ascii_alphabetic c \<or> is_ascii_digit c"

text \<open>\<^verbatim>\<open>u8::is_ascii_whitespace\<close>: tab, line feed, form feed, carriage return, space.\<close>

definition is_ascii_whitespace :: "char \<Rightarrow> bool" where
  "is_ascii_whitespace c \<longleftrightarrow> (of_char c :: nat) \<in> {9, 10, 12, 13, 32}"

definition ascii_lower :: "char \<Rightarrow> char" where
  "ascii_lower c = (if is_ascii_uppercase c then char_of (of_char c + 32 :: nat) else c)"

definition to_ascii_lowercase :: "string \<Rightarrow> string" where
  "to_ascii_lowercase s = map ascii_lower s"

definition eq_ignore_ascii_case :: "string \<Rightarrow> string \<Rightarrow> bool" where
  "eq_ignore_ascii_case a b \<longleftrightarrow> to_ascii_lowercase a = to_ascii_lowercase b"

text \<open>
  \<^verbatim>\<open>str::trim\<close> removes the characters with the Unicode property White\_Space at both ends.
  \<open>unicode_whitespace\<close> lists their UTF-8 encodings; in a valid UTF-8 string such an encoding
  can only start and end at a character boundary.
\<close>

definition unicode_whitespace :: "nat list list" where
  "unicode_whitespace =
     [[9], [10], [11], [12], [13], [32], [194, 133], [194, 160], [225, 154, 128],
      [226, 128, 128], [226, 128, 129], [226, 128, 130], [226, 128, 131], [226, 128, 132],
      [226, 128, 133], [226, 128, 134], [226, 128, 135], [226, 128, 136], [226, 128, 137],
      [226, 128, 138], [226, 128, 168], [226, 128, 169], [226, 128, 175], [226, 129, 159],
      [227, 128, 128]]"

definition ws_prefix :: "nat list list \<Rightarrow> string \<Rightarrow> nat" where
  "ws_prefix ws s =
     (case filter (\<lambda>w. take (length w) (map of_char s) = w) ws of [] \<Rightarrow> 0 | w # _ \<Rightarrow> length w)"

function trim_ws :: "nat list list \<Rightarrow> string \<Rightarrow> string" where
  "trim_ws ws s =
     (if s \<noteq> [] \<and> 0 < ws_prefix ws s then trim_ws ws (drop (ws_prefix ws s) s) else s)"
  by pat_completeness auto
termination
  by (relation "measure (\<lambda>(ws, s). length s)") auto

declare trim_ws.simps [simp del]

definition trim_start :: "string \<Rightarrow> string" where
  "trim_start s = trim_ws unicode_whitespace s"

definition trim_end :: "string \<Rightarrow> string" where
  "trim_end s = rev (trim_ws (map rev unicode_whitespace) (rev s))"

definition trim :: "string \<Rightarrow> string" where
  "trim s = trim_end (trim_start s)"

subsection \<open>Facts on strings\<close>

lemma split_on_ne [simp]: "split_on d s \<noteq> []"
  by (induction s) (auto split: list.splits)

lemma split_on_no_sep: "d \<notin> set s \<Longrightarrow> split_on d s = [s]"
  by (induction s) auto

lemma split_on_append: "d \<notin> set a \<Longrightarrow> split_on d (a @ d # s) = a # split_on d s"
  by (induction a) auto

lemma split_on_pieces: "w \<in> set (split_on d s) \<Longrightarrow> d \<notin> set w"
proof (induction s arbitrary: w)
  case (Cons c s)
  then show ?case by (cases "split_on d s") (auto split: if_splits)
qed simp

lemma join_split_on [simp]: "join [d] (split_on d s) = s"
proof (induction s)
  case (Cons c s)
  obtain w ws where ws: "split_on d s = w # ws" by (meson neq_Nil_conv split_on_ne)
  with Cons show ?case by (cases ws) auto
qed simp

text \<open>Splitting inverts joining when no piece holds the separator.\<close>

lemma split_on_join:
  "ws \<noteq> [] \<Longrightarrow> \<forall>w \<in> set ws. d \<notin> set w \<Longrightarrow> split_on d (join [d] ws) = ws"
  by (induction "[d]" ws rule: join.induct) (auto simp: split_on_no_sep split_on_append)

lemma split_once_Some:
  "split_once d s = Some (a, b) \<longleftrightarrow> s = a @ d # b \<and> d \<notin> set a"
proof (induction s arbitrary: a)
  case (Cons c s)
  then show ?case by (cases a) auto
qed simp

lemma split_once_None: "split_once d s = None \<longleftrightarrow> d \<notin> set s"
  by (induction s) auto

lemma split_once_append [simp]: "d \<notin> set a \<Longrightarrow> split_once d (a @ d # b) = Some (a, b)"
  by (simp add: split_once_Some)

lemma strip_prefix_Some: "strip_prefix p s = Some r \<longleftrightarrow> s = p @ r"
  by (induction p s rule: strip_prefix.induct) auto

lemma strip_suffix_Some: "strip_suffix p s = Some r \<longleftrightarrow> s = r @ p"
proof -
  have "strip_suffix p s = Some r \<longleftrightarrow> strip_prefix (rev p) (rev s) = Some (rev r)"
    by (auto simp: strip_suffix_def)
  also have "\<dots> \<longleftrightarrow> s = r @ p"
    by (simp add: strip_prefix_Some) (metis rev_append rev_rev_ident)
  finally show ?thesis .
qed

lemma strip_suffix_append [simp]: "strip_suffix p (r @ p) = Some r"
  by (simp add: strip_suffix_Some)

lemma strip_suffix_None: "strip_suffix p s = None \<longleftrightarrow> (\<forall>r. s \<noteq> r @ p)"
  by (metis not_None_eq strip_suffix_Some)

lemma ascii_lower_idem [simp]: "ascii_lower (ascii_lower c) = ascii_lower c"
  by (auto simp: ascii_lower_def is_ascii_uppercase_def)

lemma to_ascii_lowercase_idem [simp]:
  "to_ascii_lowercase (to_ascii_lowercase s) = to_ascii_lowercase s"
  by (simp add: to_ascii_lowercase_def)

lemma eq_ignore_ascii_case_refl [simp]: "eq_ignore_ascii_case s s"
  by (simp add: eq_ignore_ascii_case_def)

lemma ws_prefix_le: "ws_prefix ws s \<le> length s"
proof (cases "filter (\<lambda>w. take (length w) (map of_char s) = w) ws")
  case (Cons w r)
  then have "w \<in> set (filter (\<lambda>w. take (length w) (map of_char s) = w) ws)" by simp
  then have "take (length w) (map of_char s) = w" by simp
  then have "length w \<le> length s"
    by (metis length_map length_take min.cobounded1)
  with Cons show ?thesis by (simp add: ws_prefix_def)
qed (simp add: ws_prefix_def)

lemma trim_ws_suffix: "\<exists>p. s = p @ trim_ws ws s"
proof (induction ws s rule: trim_ws.induct)
  case (1 ws s)
  show ?case
  proof (cases "s \<noteq> [] \<and> 0 < ws_prefix ws s")
    case True
    with 1 obtain p where "drop (ws_prefix ws s) s = p @ trim_ws ws (drop (ws_prefix ws s) s)"
      by blast
    then have "s = (take (ws_prefix ws s) s @ p) @ trim_ws ws (drop (ws_prefix ws s) s)"
      by (metis append.assoc append_take_drop_id)
    moreover have "trim_ws ws s = trim_ws ws (drop (ws_prefix ws s) s)"
      using True by (subst trim_ws.simps) simp
    ultimately show ?thesis by metis
  next
    case False
    then have "trim_ws ws s = s" by (subst trim_ws.simps) auto
    then show ?thesis by simp
  qed
qed

lemma trim_ws_id: "ws_prefix ws s = 0 \<Longrightarrow> trim_ws ws s = s"
  by (subst trim_ws.simps) simp

lemma trim_ws_done: "trim_ws ws s = [] \<or> ws_prefix ws (trim_ws ws s) = 0"
proof (induction ws s rule: trim_ws.induct)
  case (1 ws s)
  then show ?case by (subst (1 2) trim_ws.simps) auto
qed

lemma trim_infix: "\<exists>p q. s = p @ trim s @ q"
proof -
  obtain p where p: "s = p @ trim_start s"
    using trim_ws_suffix unfolding trim_start_def by blast
  obtain q where "rev (trim_start s) = q @ trim_ws (map rev unicode_whitespace) (rev (trim_start s))"
    using trim_ws_suffix by blast
  then have "trim_start s = trim s @ rev q"
    by (metis trim_def trim_end_def rev_append rev_rev_ident)
  with p show ?thesis by metis
qed

lemma set_trim: "set (trim s) \<subseteq> set s"
  using trim_infix [of s] by (metis set_append sup_ge1 sup_ge2 order_trans)

text \<open>Printable ASCII other than the space is never whitespace.\<close>

definition visible :: "char \<Rightarrow> bool" where
  "visible c \<longleftrightarrow> 33 \<le> (of_char c :: nat) \<and> (of_char c :: nat) \<le> 126"

lemma ws_prefix_visible:
  assumes "\<forall>w \<in> set ws. w \<noteq> [] \<and> (\<forall>b \<in> set w. b < 33 \<or> 126 < b)" and "s = [] \<or> visible (hd s)"
  shows "ws_prefix ws s = 0"
proof -
  have "take (length w) (map of_char s) \<noteq> w" if "w \<in> set ws" for w
  proof
    assume eq: "take (length w) (map of_char s) = w"
    obtain b bs where w: "w = b # bs" using assms(1) \<open>w \<in> set ws\<close> by (cases w) auto
    with eq obtain c cs where "s = c # cs" "of_char c = b" by (cases s) auto
    with assms that w show False by (auto simp: visible_def)
  qed
  then have "filter (\<lambda>w. take (length w) (map of_char s) = w) ws = []"
    by (auto simp: filter_empty_conv)
  then show ?thesis by (simp add: ws_prefix_def)
qed

lemma unicode_whitespace_bytes:
  "\<forall>w \<in> set unicode_whitespace. w \<noteq> [] \<and> (\<forall>b \<in> set w. b < 33 \<or> 126 < b)"
  "\<forall>w \<in> set (map rev unicode_whitespace). w \<noteq> [] \<and> (\<forall>b \<in> set w. b < 33 \<or> 126 < b)"
  by (simp_all add: unicode_whitespace_def)

lemma trim_visible:
  assumes "list_all visible s"
  shows "trim s = s"
proof -
  have "s = [] \<or> visible (hd s)" using assms by (cases s) auto
  moreover have "rev s = [] \<or> visible (hd (rev s))" using assms by (cases s rule: rev_cases) auto
  ultimately have "s = [] \<or> visible (hd s)" "rev s = [] \<or> visible (hd (rev s))" by blast+
  then show ?thesis
    using ws_prefix_visible [OF unicode_whitespace_bytes(1)] ws_prefix_visible [OF unicode_whitespace_bytes(2)]
    by (simp add: trim_def trim_start_def trim_end_def trim_ws_id)
qed

lemma trim_start_space: "trim_start (CHR 0x20 # s) = trim_start s"
proof -
  have "ws_prefix unicode_whitespace (CHR 0x20 # s) = 1"
    by (simp add: ws_prefix_def unicode_whitespace_def)
  then show ?thesis unfolding trim_start_def by (subst trim_ws.simps) simp
qed

lemma trim_space: "trim (CHR 0x20 # s) = trim s"
  by (simp add: trim_def trim_start_space)

section \<open>Lists\<close>

text \<open>\<^verbatim>\<open>Vec::swap_remove\<close>: take element \<open>i\<close> out, moving the last element into its place.\<close>

definition swap_remove :: "'a list \<Rightarrow> nat \<Rightarrow> 'a \<times> 'a list" where
  "swap_remove xs i = (xs ! i, butlast (xs[i := last xs]))"

text \<open>\<^verbatim>\<open>Iterator::position\<close>.\<close>

fun position :: "('a \<Rightarrow> bool) \<Rightarrow> 'a list \<Rightarrow> nat option" where
  "position P [] = None"
| "position P (x # xs) = (if P x then Some 0 else map_option Suc (position P xs))"

text \<open>\<^verbatim>\<open>Vec::remove\<close>: take element \<open>i\<close> out and shift the rest left.\<close>

definition vec_remove :: "'a list \<Rightarrow> nat \<Rightarrow> 'a \<times> 'a list" where
  "vec_remove xs i = (xs ! i, take i xs @ drop (Suc i) xs)"

text \<open>\<^verbatim>\<open>Vec::dedup_by\<close> on equality of a key: of a run of equal keys the first stays.\<close>

fun dedup_key :: "('a \<Rightarrow> 'k) \<Rightarrow> 'a list \<Rightarrow> 'a list" where
  "dedup_key f [] = []"
| "dedup_key f [x] = [x]"
| "dedup_key f (x # y # ys) =
     (if f x = f y then dedup_key f (x # ys) else x # dedup_key f (y # ys))"

text \<open>The pair \<^verbatim>\<open>sort_by(key)\<close>, \<^verbatim>\<open>dedup_by(key)\<close> the node lists are normalised with.\<close>

definition sort_dedup :: "('a \<Rightarrow> 'k::linorder) \<Rightarrow> 'a list \<Rightarrow> 'a list" where
  "sort_dedup f xs = dedup_key f (sort_key f xs)"

lemma mset_rotate [simp]: "mset (rotate n xs) = mset xs"
proof (induction n)
  case (Suc n)
  then show ?case by (cases "rotate n xs") auto
qed simp

lemma unat_inc: "w \<noteq> - 1 \<Longrightarrow> unat (w + 1) = Suc (unat w)"
  using unatSuc [of w] by (metis add.commute add_eq_0_iff)

lemma inc_greater: "(w :: 'a::len word) \<noteq> - 1 \<Longrightarrow> w < w + 1"
  by (simp add: word_less_nat_alt unat_inc)

lemma mset_swap_remove:
  assumes "i < length xs"
  shows "add_mset (fst (swap_remove xs i)) (mset (snd (swap_remove xs i))) = mset xs"
proof -
  from assms have ne: "xs \<noteq> []" by auto
  let ?ys = "xs[i := last xs]"
  have "?ys \<noteq> []" using ne by simp
  then have "?ys = butlast ?ys @ [last ?ys]" by simp
  moreover have "last ?ys = last xs"
    using assms ne by (simp add: last_conv_nth nth_list_update)
  ultimately have "mset ?ys = add_mset (last xs) (mset (butlast ?ys))"
    by (metis mset_append mset_single_iff_right add_mset_add_single mset.simps)
  moreover have "mset ?ys = add_mset (last xs) (mset xs - {#xs ! i#})"
    using assms by (simp add: mset_update)
  ultimately have "mset (butlast ?ys) = mset xs - {#xs ! i#}" by simp
  with assms show ?thesis by (simp add: swap_remove_def)
qed

lemma length_swap_remove [simp]: "length (snd (swap_remove xs i)) = length xs - 1"
  by (simp add: swap_remove_def)

lemma position_None: "position P xs = None \<longleftrightarrow> (\<forall>x \<in> set xs. \<not> P x)"
  by (induction xs) auto

lemma position_Some:
  "position P xs = Some i \<Longrightarrow> i < length xs \<and> P (xs ! i) \<and> (\<forall>j < i. \<not> P (xs ! j))"
proof (induction xs arbitrary: i)
  case (Cons x xs)
  then show ?case by (auto split: if_splits simp: nth_Cons' less_Suc_eq_0_disj)
qed simp

lemma mset_vec_remove:
  "i < length xs \<Longrightarrow> add_mset (fst (vec_remove xs i)) (mset (snd (vec_remove xs i))) = mset xs"
  by (simp add: vec_remove_def) (metis id_take_nth_drop mset_append mset.simps(2) union_mset_add_mset_right)

lemma set_dedup_key: "f ` set (dedup_key f xs) = f ` set xs"
  by (induction f xs rule: dedup_key.induct) auto

lemma dedup_key_subset: "set (dedup_key f xs) \<subseteq> set xs"
  by (induction f xs rule: dedup_key.induct) auto

lemma dedup_key_Nil [simp]: "dedup_key f xs = [] \<longleftrightarrow> xs = []"
  by (induction f xs rule: dedup_key.induct) auto

lemma map_dedup_key: "map f (dedup_key f xs) = remdups_adj (map f xs)"
  by (induction f xs rule: dedup_key.induct) auto

lemma distinct_remdups_adj_sorted:
  "sorted (xs :: 'k::linorder list) \<Longrightarrow> distinct (remdups_adj xs)"
  by (induction xs rule: remdups_adj.induct) (auto simp: less_le_not_le)

lemma sorted_strict_sort_dedup: "sorted_wrt (<) (map f (sort_dedup f xs))"
proof -
  have "sorted (map f (sort_dedup f xs))"
    by (simp add: sort_dedup_def map_dedup_key)
  moreover have "distinct (map f (sort_dedup f xs))"
    by (simp add: sort_dedup_def map_dedup_key distinct_remdups_adj_sorted)
  ultimately show ?thesis by (simp add: strict_sorted_iff)
qed

lemma set_sort_dedup: "inj f \<Longrightarrow> set (sort_dedup f xs) = set xs"
  using set_dedup_key [of f "sort_key f xs"]
  by (simp add: sort_dedup_def inj_image_eq_iff)

lemma sort_dedup_subset: "set (sort_dedup f xs) \<subseteq> set xs"
  using dedup_key_subset [of f "sort_key f xs"] by (simp add: sort_dedup_def)

lemma sort_dedup_Nil [simp]: "sort_dedup f xs = [] \<longleftrightarrow> xs = []"
  by (simp add: sort_dedup_def) (metis set_empty set_sort)

lemma distinct_sort_dedup: "distinct (sort_dedup f xs)"
  using sorted_strict_sort_dedup [of f xs] by (simp add: distinct_map strict_sorted_iff)

text \<open>A list with a strictly increasing key is a function of its set.\<close>

lemma sort_dedup_unique:
  assumes "inj f" and "set xs = set ys"
  shows "sort_dedup f xs = sort_dedup f ys"
proof -
  let ?a = "sort_dedup f xs" and ?b = "sort_dedup f ys"
  have "set (map f ?a) = set (map f ?b)"
    using assms by (simp add: set_sort_dedup)
  then have "map f ?a = map f ?b"
    using sorted_strict_sort_dedup [of f xs] sorted_strict_sort_dedup [of f ys]
    by (metis strict_sorted_equal)
  then show ?thesis using assms(1) by (simp add: inj_map_eq_map)
qed

text \<open>Sorting by an injective key forgets the order of the input.\<close>

lemma sort_key_mset_unique:
  assumes "inj f" and "mset xs = mset ys"
  shows "sort_key f xs = sort_key f ys"
proof -
  have "mset (map f (sort_key f xs)) = mset (map f (sort_key f ys))"
    using assms(2) by simp
  then have "map f (sort_key f xs) = map f (sort_key f ys)"
    by (metis properties_for_sort sorted_sort_key)
  then show ?thesis using assms(1) by (simp add: inj_map_eq_map)
qed

text \<open>First occurrences of a list, in order.\<close>

fun first_occurrences :: "'a set \<Rightarrow> 'a list \<Rightarrow> 'a list" where
  "first_occurrences seen [] = []"
| "first_occurrences seen (x # xs) =
     (if x \<in> seen then first_occurrences seen xs
      else x # first_occurrences (insert x seen) xs)"

lemma first_occurrences_set: "set (first_occurrences seen xs) = set xs - seen"
  by (induction seen xs rule: first_occurrences.induct) auto

lemma first_occurrences_distinct: "distinct (first_occurrences seen xs)"
  by (induction seen xs rule: first_occurrences.induct) (auto simp: first_occurrences_set)

lemma first_occurrences_id:
  "distinct xs \<Longrightarrow> set xs \<inter> seen = {} \<Longrightarrow> first_occurrences seen xs = xs"
  by (induction seen xs rule: first_occurrences.induct) auto

text \<open>Collecting the unseen elements with \<^verbatim>\<open>contains\<close> and \<^verbatim>\<open>push\<close>.\<close>

lemma foldl_first_occurrences:
  "foldl (\<lambda>seen a. if a \<notin> set seen then seen @ [a] else seen) acc xs = acc @ first_occurrences (set acc) xs"
proof (induction xs arbitrary: acc)
  case (Cons x xs)
  then show ?case by (cases "x \<in> set acc") simp_all
qed simp

end
