(* ===== verification/Routing_Scope.thy ===== *)
theory Routing_Scope
  imports Prelude
begin

text \<open>
  \<^verbatim>\<open>src/src/routing_scope.rs\<close>: the preferred scope of nodes with its chain of fallbacks, the
  discovery query a scope stands for, and the rack-widened chain used by key-route affinity.
\<close>

section \<open>Data\<close>

datatype routing_scope =
  RoutingScope (scope_dc: "string option") (scope_rack: "string option")
    (scope_fallback: "routing_scope option")

datatype discovery_op =
    Cluster
  | Datacenter string
  | Rack string string

section \<open>Operations\<close>

definition from_cluster :: routing_scope where
  "from_cluster = RoutingScope None None None"

definition from_datacenter :: "string \<Rightarrow> routing_scope" where
  "from_datacenter d = (if d = [] then from_cluster else RoutingScope (Some d) None None)"

definition from_rack :: "string \<Rightarrow> string \<Rightarrow> routing_scope" where
  "from_rack d r =
     (if d = [] then from_cluster
      else if r = [] then from_datacenter d
      else RoutingScope (Some d) (Some r) None)"

fun with_fallback :: "routing_scope \<Rightarrow> routing_scope \<Rightarrow> routing_scope" where
  "with_fallback (RoutingScope d r None) n = RoutingScope d r (Some n)"
| "with_fallback (RoutingScope d r (Some f)) n = RoutingScope d r (Some (with_fallback f n))"

definition is_cluster :: "routing_scope \<Rightarrow> bool" where
  "is_cluster s \<longleftrightarrow> scope_dc s = None \<and> scope_rack s = None"

fun discovery_operation :: "routing_scope \<Rightarrow> discovery_op" where
  "discovery_operation (RoutingScope (Some d) (Some r) _) = Rack d r"
| "discovery_operation (RoutingScope (Some d) None _) = Datacenter d"
| "discovery_operation (RoutingScope None _ _) = Cluster"

text \<open>
  \<^verbatim>\<open>DiscoveryOperation::build_localnodes_url\<close>. A URL belongs to the \<^verbatim>\<open>url\<close> crate: its
  \<^verbatim>\<open>set_path\<close> and its \<^verbatim>\<open>query_pairs_mut().append_pair\<close> are arguments.
\<close>

fun operation_localnodes_url ::
  "(string \<Rightarrow> 'u \<Rightarrow> 'u) \<Rightarrow> (string \<Rightarrow> string \<Rightarrow> 'u \<Rightarrow> 'u) \<Rightarrow> discovery_op \<Rightarrow> 'u \<Rightarrow> 'u" where
  "operation_localnodes_url set_path append_pair Cluster u = set_path ''/localnodes'' u"
| "operation_localnodes_url set_path append_pair (Datacenter d) u =
     append_pair ''dc'' d (set_path ''/localnodes'' u)"
| "operation_localnodes_url set_path append_pair (Rack d r) u =
     append_pair ''rack'' r (append_pair ''dc'' d (set_path ''/localnodes'' u))"

definition build_localnodes_url ::
  "(string \<Rightarrow> 'u \<Rightarrow> 'u) \<Rightarrow> (string \<Rightarrow> string \<Rightarrow> 'u \<Rightarrow> 'u) \<Rightarrow> routing_scope \<Rightarrow> 'u \<Rightarrow> 'u" where
  "build_localnodes_url set_path append_pair s u =
     operation_localnodes_url set_path append_pair (discovery_operation s) u"

text \<open>
  \<^verbatim>\<open>std::iter::successors(Some(self), |scope| scope.fallback())\<close>: the scopes of the chain,
  preferred first.
\<close>

fun scopes :: "routing_scope \<Rightarrow> routing_scope list" where
  "scopes (RoutingScope d r None) = [RoutingScope d r None]"
| "scopes (RoutingScope d r (Some f)) = RoutingScope d r (Some f) # scopes f"

definition has_rack_restriction :: "routing_scope \<Rightarrow> bool" where
  "has_rack_restriction s = list_ex (\<lambda>c. scope_rack c \<noteq> None) (scopes s)"

text \<open>
  The loop of \<^verbatim>\<open>without_rack\<close>: \<open>seen\<close> is the hash set of operations; the list that is built
  behind \<^verbatim>\<open>tail\<close> is the resolved chain.
\<close>

definition widen :: "routing_scope \<Rightarrow> routing_scope" where
  "widen c = RoutingScope (scope_dc c) None None"

fun widen_loop :: "discovery_op set \<Rightarrow> routing_scope list \<Rightarrow> routing_scope option" where
  "widen_loop seen [] = None"
| "widen_loop seen (c # cs) =
     (let op = discovery_operation (widen c)
      in if op \<in> seen then widen_loop seen cs
         else Some (RoutingScope (scope_dc c) None (widen_loop (insert op seen) cs)))"

definition without_rack :: "routing_scope \<Rightarrow> routing_scope" where
  "without_rack s = the (widen_loop {} (scopes s))"

section \<open>The chain as a list\<close>

text \<open>
  The contract of the component is stated on the list of discovery queries of a chain, the view
  its clients have of it: discovery asks them in order and takes the first answer with nodes.
\<close>

definition chain_ops :: "routing_scope \<Rightarrow> discovery_op list" where
  "chain_ops s = map discovery_operation (scopes s)"

fun op_widen :: "discovery_op \<Rightarrow> discovery_op" where
  "op_widen Cluster = Cluster"
| "op_widen (Datacenter d) = Datacenter d"
| "op_widen (Rack d r) = Datacenter d"

lemma scopes_ne [simp]: "scopes s \<noteq> []"
  by (cases s rule: scopes.cases) auto

lemma scopes_hd [simp]: "hd (scopes s) = s"
  by (cases s rule: scopes.cases) auto

lemma scopes_Cons:
  "scopes s = s # (case scope_fallback s of None \<Rightarrow> [] | Some f \<Rightarrow> scopes f)"
  by (cases s rule: scopes.cases) auto

lemma chain_ops_ne [simp]: "chain_ops s \<noteq> []"
  by (simp add: chain_ops_def)

lemma chain_ops_Cons:
  "chain_ops s = discovery_operation s #
     (case scope_fallback s of None \<Rightarrow> [] | Some f \<Rightarrow> chain_ops f)"
  by (subst chain_ops_def, subst scopes_Cons) (auto simp: chain_ops_def split: option.splits)

lemma discovery_operation_eq:
  "discovery_operation (RoutingScope d r f) =
     (case d of None \<Rightarrow> Cluster
      | Some d' \<Rightarrow> (case r of None \<Rightarrow> Datacenter d' | Some r' \<Rightarrow> Rack d' r'))"
  by (cases d; cases r) auto

lemma scopes_with_fallback_ops: "chain_ops (with_fallback s n) = chain_ops s @ chain_ops n"
proof (induction s n rule: with_fallback.induct)
  case (1 d r n)
  then show ?case by (simp add: chain_ops_def discovery_operation_eq)
next
  case (2 d r f n)
  then show ?case by (simp add: chain_ops_def discovery_operation_eq)
qed

lemma discovery_operation_widen:
  "discovery_operation (widen c) = op_widen (discovery_operation c)"
  by (cases c rule: discovery_operation.cases) (auto simp: widen_def)

lemma widen_loop_ops:
  "(case widen_loop seen cs of None \<Rightarrow> [] | Some s \<Rightarrow> chain_ops s)
     = first_occurrences seen (map (op_widen \<circ> discovery_operation) cs)"
proof (induction seen cs rule: widen_loop.induct)
  case (2 seen c cs)
  have "discovery_operation (RoutingScope (scope_dc c) None t) = discovery_operation (widen c)" for t
    by (cases "scope_dc c") (auto simp: widen_def)
  with 2 show ?case
    by (auto simp: Let_def discovery_operation_widen chain_ops_Cons split: option.splits)
qed simp

lemma widen_loop_first: "widen_loop {} (scopes s) \<noteq> None"
  by (subst scopes_Cons) (simp add: Let_def)

lemma chain_ops_without_rack:
  "chain_ops (without_rack s) = first_occurrences {} (map op_widen (chain_ops s))"
  using widen_loop_ops [of "{}" "scopes s"] widen_loop_first [of s]
  by (auto simp: without_rack_def chain_ops_def)

lemma op_widen_idem [simp]: "op_widen (op_widen op) = op_widen op"
  by (cases op) auto

lemma op_widen_not_rack [simp]: "op_widen op \<noteq> Rack d r"
  by (cases op) auto

lemma widen_loop_no_rack:
  "widen_loop seen cs = Some s \<Longrightarrow> list_all (\<lambda>c. scope_rack c = None) (scopes s)"
proof (induction seen cs arbitrary: s rule: widen_loop.induct)
  case (2 seen c cs)
  then show ?case
    by (cases "widen_loop (insert (discovery_operation (widen c)) seen) cs")
      (auto simp: Let_def split: if_splits)
qed simp

lemma without_rack_scopes: "list_all (\<lambda>c. scope_rack c = None) (scopes (without_rack s))"
  using widen_loop_first [of s] by (auto simp: without_rack_def intro: widen_loop_no_rack)

lemma op_widen_chain:
  "\<not> has_rack_restriction s \<Longrightarrow> map op_widen (chain_ops s) = chain_ops s"
proof (induction s rule: scopes.induct)
  case (1 d r)
  then show ?case by (cases d; cases r) (auto simp: has_rack_restriction_def chain_ops_def)
next
  case (2 d r f)
  then show ?case by (cases d; cases r) (auto simp: has_rack_restriction_def chain_ops_def)
qed

section \<open>Correctness\<close>

text \<open>
  \<^verbatim>\<open>with_fallback\<close> appends its argument, with the argument's own fallbacks, at the end
  of the chain: the queries of the old chain keep their order and come first.
\<close>

theorem with_fallback_appends: "chain_ops (with_fallback s n) = chain_ops s @ chain_ops n"
  by (rule scopes_with_fallback_ops)

lemma without_rack_unrestricted [simp]: "\<not> has_rack_restriction (without_rack s)"
  using without_rack_scopes [of s]
  by (auto simp: has_rack_restriction_def list_ex_iff list_all_iff)

text \<open>
  C37: \<^verbatim>\<open>without_rack\<close> yields the chain of the rack-widened queries reduced to first
  occurrences: no scope of it restricts a rack, no query is asked twice, the same datacenters
  (or the cluster) are covered, the order of preference is kept, and widening once is enough.
\<close>

theorem without_rack_chain:
  "chain_ops (without_rack s) = first_occurrences {} (map op_widen (chain_ops s))
   \<and> set (chain_ops (without_rack s)) = op_widen ` set (chain_ops s)
   \<and> distinct (chain_ops (without_rack s))
   \<and> \<not> has_rack_restriction (without_rack s)
   \<and> chain_ops (without_rack (without_rack s)) = chain_ops (without_rack s)"
proof -
  note ops = chain_ops_without_rack [of s]
  have no_rack: "\<not> has_rack_restriction (without_rack s)" by simp
  have dist: "distinct (chain_ops (without_rack s))"
    by (simp add: ops first_occurrences_distinct)
  have "chain_ops (without_rack (without_rack s)) = first_occurrences {} (chain_ops (without_rack s))"
    by (simp add: chain_ops_without_rack [of "without_rack s"] op_widen_chain [OF no_rack])
  with dist have "chain_ops (without_rack (without_rack s)) = chain_ops (without_rack s)"
    by (simp add: first_occurrences_id)
  with ops no_rack dist show ?thesis by (simp add: first_occurrences_set)
qed

end
