(* ===== verification/Node_Url.thy ===== *)
theory Node_Url
  imports Prelude
begin

text \<open>
  The URL functions of \<^verbatim>\<open>src/src/live_nodes.rs\<close>: how a seed host or a discovered address
  becomes a node URL. The \<^verbatim>\<open>url\<close> crate is a parameter, a record of the functions the sources
  call; \<^verbatim>\<open>std::net::Ipv6Addr\<close>'s parser is modelled.
\<close>

section \<open>The \<^verbatim>\<open>url\<close> crate\<close>

datatype url_error = RelativeUrlWithoutBase | InvalidPort | OtherUrlError string

record 'u url_api =
  as_str :: "'u \<Rightarrow> string"
  url_scheme :: "'u \<Rightarrow> string"
  host_str :: "'u \<Rightarrow> string option"
  url_port :: "'u \<Rightarrow> u16 option"
  port_or_known_default :: "'u \<Rightarrow> u16 option"
  host_parse :: "string \<Rightarrow> url_error option"
  url_parse :: "string \<Rightarrow> url_error + 'u"
  set_port_of :: "u16 option \<Rightarrow> 'u \<Rightarrow> 'u option"
  set_scheme_of :: "string \<Rightarrow> 'u \<Rightarrow> 'u option"
  set_host_of :: "string option \<Rightarrow> 'u \<Rightarrow> 'u option"
  set_path_of :: "string \<Rightarrow> 'u \<Rightarrow> 'u"
  append_query_pair :: "string \<Rightarrow> string \<Rightarrow> 'u \<Rightarrow> 'u"

text \<open>
  What the crate documents of \<^verbatim>\<open>Url\<close> and the sources rely on: two URLs are equal when their
  serialisations are (\<^verbatim>\<open>Url\<close>'s \<^verbatim>\<open>Eq\<close> compares \<^verbatim>\<open>as_str\<close>).
\<close>

definition url_eq_law :: "('u, 'x) url_api_scheme \<Rightarrow> bool" where
  "url_eq_law U \<longleftrightarrow> inj (as_str U)"

section \<open>\<^verbatim>\<open>std::net::Ipv6Addr::from_str\<close>\<close>

text \<open>
  The recursive-descent parser of the standard library, as a recogniser: each reader returns the
  rest of the input, or \<open>None\<close> where it fails and the caller keeps its position.
\<close>

definition hex_digit :: "char \<Rightarrow> bool" where
  "hex_digit c \<longleftrightarrow> is_ascii_digit c
     \<or> (97 \<le> (of_char c :: nat) \<and> (of_char c :: nat) \<le> 102)
     \<or> (65 \<le> (of_char c :: nat) \<and> (of_char c :: nat) \<le> 70)"

definition read_hex_group :: "string \<Rightarrow> string option" where
  "read_hex_group s =
     (let n = length (takeWhile hex_digit s)
      in if n = 0 \<or> 4 < n then None else Some (drop n s))"

fun decimal_value :: "nat \<Rightarrow> string \<Rightarrow> nat" where
  "decimal_value acc [] = acc"
| "decimal_value acc (c # cs) = decimal_value (10 * acc + (of_char c - 48)) cs"

definition read_octet :: "string \<Rightarrow> string option" where
  "read_octet s =
     (let ds = takeWhile is_ascii_digit s; n = length ds
      in if n = 0 \<or> 3 < n \<or> (hd s = CHR ''0'' \<and> 1 < n) \<or> 255 < decimal_value 0 ds then None
         else Some (drop n s))"

definition read_given_char :: "char \<Rightarrow> string \<Rightarrow> string option" where
  "read_given_char d s = (case s of [] \<Rightarrow> None | c # cs \<Rightarrow> if c = d then Some cs else None)"

definition read_separator ::
  "char \<Rightarrow> nat \<Rightarrow> (string \<Rightarrow> string option) \<Rightarrow> string \<Rightarrow> string option" where
  "read_separator sep i inner s =
     (if 0 < i then Option.bind (read_given_char sep s) inner else inner s)"

fun read_octets :: "nat \<Rightarrow> nat \<Rightarrow> string \<Rightarrow> string option" where
  "read_octets i 0 s = Some s"
| "read_octets i (Suc n) s =
     Option.bind (read_separator CHR ''.'' i read_octet s) (read_octets (Suc i) n)"

definition read_ipv4_addr :: "string \<Rightarrow> string option" where
  "read_ipv4_addr s = read_octets 0 4 s"

text \<open>\<open>read_groups i limit s\<close>: groups read, whether an embedded IPv4 address ended them, the rest.\<close>

function read_groups :: "nat \<Rightarrow> nat \<Rightarrow> string \<Rightarrow> nat \<times> bool \<times> string" where
  "read_groups i limit s =
     (if limit \<le> i then (limit, False, s)
      else case (if i < limit - 1 then read_separator CHR '':'' i read_ipv4_addr s else None) of
        Some r \<Rightarrow> (i + 2, True, r)
      | None \<Rightarrow>
          (case read_separator CHR '':'' i read_hex_group s of
             None \<Rightarrow> (i, False, s)
           | Some r \<Rightarrow> read_groups (Suc i) limit r))"
  by pat_completeness auto
termination
  by (relation "measure (\<lambda>(i, limit, s). limit - i)") auto

declare read_groups.simps [simp del]

definition is_ipv6 :: "string \<Rightarrow> bool" where
  "is_ipv6 s =
     (let (head_size, head_ipv4, r) = read_groups 0 8 s
      in if head_size = 8 then r = []
         else if head_ipv4 then False
         else case Option.bind (read_given_char CHR '':'' r) (read_given_char CHR '':'') of
             None \<Rightarrow> False
           | Some r' \<Rightarrow> snd (snd (read_groups 0 (8 - (head_size + 1)) r')) = [])"

section \<open>Node URLs\<close>

definition is_valid_uri_scheme :: "string \<Rightarrow> bool" where
  "is_valid_uri_scheme s =
     (case s of [] \<Rightarrow> False
      | first # rest \<Rightarrow>
          is_ascii_alphabetic first
          \<and> list_all (\<lambda>c. is_ascii_alphanumeric c \<or> c \<in> {CHR ''+'', CHR ''-'', CHR ''.''}) rest)"

definition build_node_url ::
  "('u, 'x) url_api_scheme \<Rightarrow> string \<Rightarrow> string \<Rightarrow> u16 option \<Rightarrow> url_error + 'u" where
  "build_node_url U scheme addr port =
     (if \<not> is_valid_uri_scheme scheme then Inl RelativeUrlWithoutBase
      else let authority = (if is_ipv6 addr then ''['' @ addr @ '']'' else addr)
           in case url_parse U (scheme @ ''://'' @ authority) of
                Inl e \<Rightarrow> Inl e
              | Inr url \<Rightarrow>
                  (case set_port_of U port url of None \<Rightarrow> Inl InvalidPort | Some url' \<Rightarrow> Inr url'))"

definition unbracket :: "string \<Rightarrow> string" where
  "unbracket addr =
     (case Option.bind (strip_prefix ''['' addr) (strip_suffix '']'') of
        None \<Rightarrow> addr | Some a \<Rightarrow> a)"

definition build_seed_url ::
  "('u, 'x) url_api_scheme \<Rightarrow> string \<Rightarrow> string \<Rightarrow> u16 option \<Rightarrow> url_error + 'u" where
  "build_seed_url U scheme addr port =
     (let unbracketed = unbracket addr
      in if is_ipv6 unbracketed then build_node_url U scheme unbracketed port
         else case host_parse U addr of
             Some e \<Rightarrow> Inl e
           | None \<Rightarrow> build_node_url U scheme unbracketed port)"

definition node_is_in_list :: "('u, 'x) url_api_scheme \<Rightarrow> 'u \<Rightarrow> 'u list \<Rightarrow> bool" where
  "node_is_in_list U node nodes =
     list_ex (\<lambda>known. host_str U known = host_str U node
                    \<and> port_or_known_default U known = port_or_known_default U node) nodes"

section \<open>Facts\<close>

lemma read_hex_group_first: "read_hex_group s = Some r \<Longrightarrow> s \<noteq> [] \<and> hex_digit (hd s)"
  by (cases s) (auto simp: read_hex_group_def Let_def split: if_splits)

lemma read_ipv4_first: "read_ipv4_addr s = Some r \<Longrightarrow> s \<noteq> [] \<and> hex_digit (hd s)"
proof -
  assume "read_ipv4_addr s = Some r"
  then obtain r' where "read_octet s = Some r'"
    by (auto simp: read_ipv4_addr_def read_separator_def numeral_eq_Suc bind_eq_Some_conv)
  then show ?thesis
    by (cases s) (auto simp: read_octet_def Let_def hex_digit_def split: if_splits)
qed

text \<open>An IPv6 literal starts with a hexadecimal digit or a colon, never with a bracket.\<close>

lemma is_ipv6_first:
  assumes "is_ipv6 s"
  shows "s \<noteq> [] \<and> (hex_digit (hd s) \<or> hd s = CHR '':'')"
proof (cases "s \<noteq> [] \<and> hex_digit (hd s)")
  case False
  then have "read_hex_group s = None" "read_ipv4_addr s = None"
    using read_hex_group_first [of s] read_ipv4_first [of s] by (metis option.exhaust)+
  then have "read_groups 0 8 s = (0, False, s)"
    by (subst read_groups.simps) (simp add: read_separator_def)
  with assms show ?thesis
    by (cases s) (auto simp: is_ipv6_def read_given_char_def split: option.splits if_splits)
qed auto

lemma is_ipv6_not_bracket: "\<not> is_ipv6 (CHR ''['' # s)"
  using is_ipv6_first [of "CHR ''['' # s"] by (auto simp: hex_digit_def is_ascii_digit_def)

lemma unbracket_bracketed [simp]: "unbracket (CHR ''['' # a @ '']'') = a"
  by (simp add: unbracket_def)

lemma unbracket_plain: "hd a \<noteq> CHR ''['' \<Longrightarrow> a \<noteq> [] \<Longrightarrow> unbracket a = a"
  by (cases a) (auto simp: unbracket_def)

lemma unbracket_ipv6: "is_ipv6 a \<Longrightarrow> unbracket a = a"
  using is_ipv6_first [of a] is_ipv6_not_bracket [of "tl a"]
  by (intro unbracket_plain) (auto simp: hex_digit_def is_ascii_digit_def)

section \<open>Correctness\<close>

text \<open>
  an IPv6 seed host means the same node whether it is written bare or in brackets, and its
  authority is bracketed exactly once before the URL is parsed.
\<close>

theorem seed_url_ipv6:
  assumes "is_ipv6 a" and "is_valid_uri_scheme scheme"
  shows "build_seed_url U scheme (''['' @ a @ '']'') port = build_seed_url U scheme a port
    \<and> build_seed_url U scheme a port =
        (case url_parse U (scheme @ ''://['' @ a @ '']'') of
           Inl e \<Rightarrow> Inl e
         | Inr url \<Rightarrow> (case set_port_of U port url of None \<Rightarrow> Inl InvalidPort | Some u \<Rightarrow> Inr u))"
  using assms by (simp add: build_seed_url_def build_node_url_def unbracket_ipv6)

text \<open>A small instance of the parameter for closed examples: a URL is its text, ports append.\<close>

definition text_url :: "string url_api" where
  "text_url =
     \<lparr>as_str = (\<lambda>u. u), url_scheme = (\<lambda>u. ''http''), host_str = Some, url_port = (\<lambda>u. None),
      port_or_known_default = (\<lambda>u. Some 80), host_parse = (\<lambda>s. None), url_parse = Inr,
      set_port_of = (\<lambda>p u. if p = None then Some u else None),
      set_scheme_of = (\<lambda>s u. if s = ''http'' then Some u else None), set_host_of = (\<lambda>h u. h),
      set_path_of = (\<lambda>p u. u @ p),
      append_query_pair = (\<lambda>k v u. u @ ''?'' @ k @ ''='' @ v)\<rparr>"

lemma text_url_eq_law: "url_eq_law text_url"
  by (simp add: url_eq_law_def text_url_def)

theorem seed_url_ipv6_witness:
  "is_ipv6 ''::1'' \<and> build_seed_url text_url ''http'' ''[::1]'' None = Inr ''http://[::1]''
   \<and> build_seed_url text_url ''http'' ''::1'' None = Inr ''http://[::1]''"
proof -
  have v6: "is_ipv6 ''::1''" by code_simp
  have sch: "is_valid_uri_scheme ''http''" by code_simp
  from seed_url_ipv6 [OF v6 sch, of text_url None] v6 show ?thesis
    by (simp add: text_url_def)
qed

text \<open>
  a URL is only built from a syntactically valid bare scheme (a letter, then letters, digits,
  plus, minus or dot); otherwise the URL parser, which would strip control characters from a
  malformed scheme, is never consulted.
\<close>

theorem node_url_needs_valid_scheme:
  assumes "build_node_url U scheme addr port = Inr u"
  shows "is_valid_uri_scheme scheme \<and> scheme \<noteq> []
    \<and> (\<forall>c \<in> set scheme. \<not> is_ascii_whitespace c \<and> c \<noteq> CHR '':'' \<and> c \<noteq> CHR ''/'')"
proof -
  from assms have v: "is_valid_uri_scheme scheme"
    by (auto simp: build_node_url_def split: if_splits)
  then obtain f r where s: "scheme = f # r" by (cases scheme) (auto simp: is_valid_uri_scheme_def)
  have ok: "\<not> is_ascii_whitespace c \<and> c \<noteq> CHR '':'' \<and> c \<noteq> CHR ''/''"
    if "is_ascii_alphanumeric c \<or> c \<in> {CHR ''+'', CHR ''-'', CHR ''.''}" for c
    using that by (auto simp: is_ascii_alphanumeric_def is_ascii_alphabetic_def is_ascii_whitespace_def
        is_ascii_uppercase_def is_ascii_lowercase_def is_ascii_digit_def)
  from v s have "\<forall>c \<in> set scheme. is_ascii_alphanumeric c \<or> c \<in> {CHR ''+'', CHR ''-'', CHR ''.''}"
    by (auto simp: is_valid_uri_scheme_def list_all_iff is_ascii_alphanumeric_def)
  with v s ok show ?thesis by blast
qed

theorem node_url_needs_valid_scheme_witness:
  "build_node_url text_url ''http'' ''node1'' None = Inr ''http://node1'' \<and> is_valid_uri_scheme ''http''"
proof -
  have b: "build_node_url text_url ''http'' ''node1'' None = Inr ''http://node1''" by code_simp
  from node_url_needs_valid_scheme [OF b] b show ?thesis by blast
qed

end
