(* ===== verification/Discovery_Tasks.thy ===== *)
theory Discovery_Tasks
  imports Prelude
begin

text \<open>
  \<^verbatim>\<open>src/src/discovery.rs\<close>: the registry that owns the cancellable discovery tasks of a client.
  A \<^verbatim>\<open>CancellationToken\<close> is its flag; a \<^verbatim>\<open>TaskTracker\<close> is its closed flag and the set of
  futures it tracks. \<^verbatim>\<open>spawn\<close> and \<^verbatim>\<open>stop\<close> hold the registration lock for their whole body,
  so each is one step. The registry remembers on which Tokio runtime it spawned a task
  (\<^verbatim>\<open>spawn_on(.., runtime)\<close>): that is where the task's body runs.
\<close>

section \<open>State and operations\<close>

type_synonym task_id = nat
type_synonym runtime_id = nat

record discovery_tasks =
  cancelled :: bool
  closed :: bool
  tracked :: "task_id set"
  next_task :: task_id
  spawned_on :: "task_id \<rightharpoonup> runtime_id"

definition new_tasks :: discovery_tasks where
  "new_tasks = \<lparr>cancelled = False, closed = False, tracked = {}, next_task = 0, spawned_on = Map.empty\<rparr>"

definition is_stopped :: "discovery_tasks \<Rightarrow> bool" where
  "is_stopped d = closed d"

text \<open>\<open>runtime\<close> is the handle that \<^verbatim>\<open>spawn\<close> is given.\<close>

definition spawn :: "runtime_id \<Rightarrow> discovery_tasks \<Rightarrow> task_id option \<times> discovery_tasks" where
  "spawn runtime d =
     (if is_stopped d then (None, d)
      else (Some (next_task d),
            d\<lparr>tracked := insert (next_task d) (tracked d), next_task := Suc (next_task d),
              spawned_on := (spawned_on d)(next_task d \<mapsto> runtime)\<rparr>))"

definition stop :: "discovery_tasks \<Rightarrow> discovery_tasks" where
  "stop d = d\<lparr>cancelled := True, closed := True\<rparr>"

text \<open>
  One poll of a tracked future, the \<^verbatim>\<open>biased\<close> \<^verbatim>\<open>select!\<close> around the spawned body: the token
  is looked at first, then the body (\<open>ready\<close>: the body completes at this poll). A future that is
  done leaves the tracker.
\<close>

definition poll_task :: "task_id \<Rightarrow> bool \<Rightarrow> discovery_tasks \<Rightarrow> discovery_tasks" where
  "poll_task t ready d =
     (if cancelled d \<or> ready then d\<lparr>tracked := tracked d - {t}\<rparr> else d)"

text \<open>An aborted or dropped future leaves the tracker without a poll of its body.\<close>

definition drop_task :: "task_id \<Rightarrow> discovery_tasks \<Rightarrow> discovery_tasks" where
  "drop_task t d = d\<lparr>tracked := tracked d - {t}\<rparr>"

text \<open>\<^verbatim>\<open>shutdown\<close> stops and then waits; the wait is over when the tracker is closed and empty.\<close>

definition wait_ready :: "discovery_tasks \<Rightarrow> bool" where
  "wait_ready d \<longleftrightarrow> closed d \<and> tracked d = {}"

definition shutdown :: "discovery_tasks \<Rightarrow> discovery_tasks \<times> bool" where
  "shutdown d = (let d' = stop d in (d', wait_ready d'))"

section \<open>The registry as a contract\<close>

text \<open>What the discovery components rely on: stopping is permanent and admits no task.\<close>

locale task_registry =
  fixes stopped :: "'r \<Rightarrow> bool"
    and register :: "runtime_id \<Rightarrow> 'r \<Rightarrow> task_id option \<times> 'r"
    and halt :: "'r \<Rightarrow> 'r"
    and live :: "'r \<Rightarrow> task_id set"
    and runs_on :: "'r \<Rightarrow> task_id \<rightharpoonup> runtime_id"
  assumes halt_stops: "stopped (halt r)"
    and halt_live: "live (halt r) = live r"
    and register_stopped: "stopped r \<Longrightarrow> register w r = (None, r)"
    and register_open:
      "\<not> stopped r \<Longrightarrow> register w r = (Some t, r') \<Longrightarrow>
        \<not> stopped r' \<and> live r' = insert t (live r) \<and> runs_on r' = (runs_on r)(t \<mapsto> w)"
begin

lemma register_after_halt: "register w (halt r) = (None, halt r)"
  by (simp add: register_stopped halt_stops)

text \<open>Any sequence of registrations after a halt is refused as a whole.\<close>

fun registers :: "runtime_id list \<Rightarrow> 'r \<Rightarrow> task_id option list \<times> 'r" where
  "registers [] r = ([], r)"
| "registers (w # ws) r =
     (let (t, r') = register w r; (ts, r'') = registers ws r' in (t # ts, r''))"

lemma registers_after_halt: "registers ws (halt r) = (replicate (length ws) None, halt r)"
  by (induction ws) (simp_all add: register_after_halt)

end

interpretation tasks_registry: task_registry is_stopped spawn stop tracked spawned_on
  by unfold_locales (auto simp: is_stopped_def spawn_def stop_def)

section \<open>Interleavings\<close>

datatype task_event = Spawn runtime_id | Stop | Poll task_id bool | Dropped task_id

fun task_step :: "discovery_tasks \<Rightarrow> task_event \<Rightarrow> discovery_tasks" where
  "task_step d (Spawn w) = snd (spawn w d)"
| "task_step d Stop = stop d"
| "task_step d (Poll t ready) = poll_task t ready d"
| "task_step d (Dropped t) = drop_task t d"

definition tasks_inv :: "discovery_tasks \<Rightarrow> bool" where
  "tasks_inv d \<longleftrightarrow> cancelled d = closed d \<and> tracked d \<subseteq> {..<next_task d}"

lemma tasks_inv_new: "tasks_inv new_tasks"
  by (simp add: tasks_inv_def new_tasks_def)

lemma tasks_inv_step [inv_intros]: "tasks_inv d \<Longrightarrow> tasks_inv (task_step d e)"
  by (cases e) (auto simp: tasks_inv_def spawn_def is_stopped_def stop_def poll_task_def drop_task_def)

lemma tasks_inv_run: "tasks_inv d \<Longrightarrow> tasks_inv (foldl task_step d es)"
  by (induction es arbitrary: d) (auto intro: inv_intros)

lemma stopped_step:
  assumes "tasks_inv d" and "is_stopped d"
  shows "is_stopped (task_step d e) \<and> tracked (task_step d e) \<subseteq> tracked d"
  using assms by (cases e) (auto simp: spawn_def is_stopped_def stop_def poll_task_def drop_task_def)

lemma stopped_run:
  assumes "tasks_inv d" and "is_stopped d"
  shows "is_stopped (foldl task_step d es) \<and> tracked (foldl task_step d es) \<subseteq> tracked d"
  using assms
proof (induction es arbitrary: d)
  case (Cons e es)
  from Cons.prems have "is_stopped (task_step d e)" "tracked (task_step d e) \<subseteq> tracked d"
    "tasks_inv (task_step d e)"
    using stopped_step tasks_inv_step by blast+
  with Cons.IH [of "task_step d e"] show ?case by auto
qed simp

lemma poll_stopped_removes:
  "tasks_inv d \<Longrightarrow> is_stopped d \<Longrightarrow> tracked (task_step d (Poll t r)) = tracked d - {t}"
  by (auto simp: tasks_inv_def is_stopped_def poll_task_def)

definition touches :: "task_event \<Rightarrow> task_id \<Rightarrow> bool" where
  "touches e t \<longleftrightarrow> e = Dropped t \<or> (\<exists>r. e = Poll t r)"

lemma stopped_run_touched:
  assumes "tasks_inv d" and "is_stopped d" and "e \<in> set es" and "touches e t"
  shows "t \<notin> tracked (foldl task_step d es)"
  using assms
proof (induction es arbitrary: d)
  case (Cons x es)
  have inv: "tasks_inv (task_step d x)" and st: "is_stopped (task_step d x)"
    using Cons.prems tasks_inv_step stopped_step by blast+
  show ?case
  proof (cases "x = e")
    case True
    with Cons.prems have "t \<notin> tracked (task_step d x)"
      using poll_stopped_removes [of d] by (auto simp: touches_def drop_task_def)
    then show ?thesis using stopped_run [OF inv st, of es] by auto
  next
    case False
    with Cons.prems have "e \<in> set es" by simp
    from Cons.IH [OF inv st this Cons.prems(4)] show ?thesis by simp
  qed
qed simp

section \<open>Correctness\<close>

text \<open>
  stopping is permanent and closes admission: in every run of spawns, stops, polls and drops
  after a \<^verbatim>\<open>stop\<close> the registry stays stopped, no task enters it, and each further \<^verbatim>\<open>spawn\<close>
  returns \<^verbatim>\<open>None\<close> and leaves the registry as it is. A racing spawn was either admitted before
  the stop (and is among the tracked tasks) or is refused.
\<close>

theorem stop_is_permanent:
  assumes "tasks_inv d"
  shows "is_stopped (foldl task_step (stop d) es)
    \<and> tracked (foldl task_step (stop d) es) \<subseteq> tracked d
    \<and> spawn w (foldl task_step (stop d) es) = (None, foldl task_step (stop d) es)"
proof -
  have "tasks_inv (stop d)" using tasks_inv_step [OF assms, of Stop] by simp
  moreover have "is_stopped (stop d)" by (rule tasks_registry.halt_stops)
  ultimately have "is_stopped (foldl task_step (stop d) es)"
    and "tracked (foldl task_step (stop d) es) \<subseteq> tracked (stop d)"
    using stopped_run by blast+
  then show ?thesis by (simp add: tasks_registry.register_stopped tasks_registry.halt_live)
qed

theorem stop_is_permanent_witness:
  "tasks_inv new_tasks \<and> is_stopped (foldl task_step (stop new_tasks) [Spawn 7, Poll 0 False])"
  using stop_is_permanent [OF tasks_inv_new, of "[Spawn 7, Poll 0 False]"] tasks_inv_new by blast

text \<open>
  C34: shutdown completes once every task that was registered has been polled or dropped once after
  the stop, whatever the task bodies do, in any interleaving with spawns and further stops: the
  cancellation branch of the biased select ends the task even if its body never completes.
\<close>

theorem shutdown_completes:
  assumes "tasks_inv d" and "\<forall>t \<in> tracked d. \<exists>e \<in> set es. touches e t"
  shows "wait_ready (foldl task_step (fst (shutdown d)) es)"
proof -
  let ?d = "stop d"
  have inv: "tasks_inv ?d" using tasks_inv_step [OF assms(1), of Stop] by simp
  have st: "is_stopped ?d" by (rule tasks_registry.halt_stops)
  have run: "is_stopped (foldl task_step ?d es)" "tracked (foldl task_step ?d es) \<subseteq> tracked d"
    using stopped_run [OF inv st, of es] by (auto simp: stop_def)
  have "t \<notin> tracked (foldl task_step ?d es)" if "t \<in> tracked d" for t
    using that assms(2) stopped_run_touched [OF inv st] by blast
  with run show ?thesis by (auto simp: wait_ready_def shutdown_def is_stopped_def Let_def)
qed

theorem shutdown_completes_witness:
  "wait_ready (foldl task_step (fst (shutdown (snd (spawn 7 new_tasks)))) [Spawn 7, Poll 0 False])"
proof (rule shutdown_completes)
  show "tasks_inv (snd (spawn 7 new_tasks))"
    using tasks_inv_step [OF tasks_inv_new, of "Spawn 7"] by simp
  show "\<forall>t \<in> tracked (snd (spawn 7 new_tasks)). \<exists>e \<in> set [Spawn 7, Poll 0 False]. touches e t"
    by (auto simp: spawn_def new_tasks_def is_stopped_def touches_def)
qed

end
