(* ===== verification/Discovery_Runtime.thy ===== *)
theory Discovery_Runtime
  imports Discovery_Tasks
begin

text \<open>
  The runtime registration of \<^verbatim>\<open>src/src/live_nodes.rs\<close> (\<^verbatim>\<open>DiscoveryRuntime\<close>,
  \<^verbatim>\<open>ShutdownProbe\<close>): how a caller on another Tokio runtime finds out whether the runtime that
  owns the discovery task still drives it. Instants are nanoseconds of a monotone clock. The
  probe fields are only written under the \<^verbatim>\<open>shutdown_probe\<close> lock, so each operation is one
  step; \<^verbatim>\<open>Notify\<close> is the single permit \<^verbatim>\<open>notify_one\<close> stores.
\<close>

section \<open>State and operations\<close>

type_synonym instant = nat
type_synonym duration = nat

definition millis :: "nat \<Rightarrow> duration" where
  "millis n = n * 1000000"

definition secs :: "nat \<Rightarrow> duration" where
  "secs n = n * 1000000000"

definition SHUTDOWN_PROBE_INTERVAL :: duration where
  "SHUTDOWN_PROBE_INTERVAL = millis 250"

record shutdown_probe =
  last_started :: "instant option"
  pending :: bool
  recheck_task :: "task_id option"

record discovery_runtime =
  rt_id :: runtime_id
  rt_stopped :: bool
  handoff_required :: bool
  probe :: shutdown_probe
  probe_requested :: bool

definition runtime_new :: "runtime_id \<Rightarrow> discovery_runtime" where
  "runtime_new i =
     \<lparr>rt_id = i, rt_stopped = False, handoff_required = False,
      probe = \<lparr>last_started = None, pending = False, recheck_task = None\<rparr>,
      probe_requested = False\<rparr>"

text \<open>\<^verbatim>\<open>saturating_duration_since\<close> is the truncating subtraction of naturals.\<close>

definition is_due :: "shutdown_probe \<Rightarrow> instant \<Rightarrow> bool" where
  "is_due p now =
     (case last_started p of None \<Rightarrow> True | Some st \<Rightarrow> SHUTDOWN_PROBE_INTERVAL \<le> now - st)"

definition should_handoff_at :: "discovery_runtime \<Rightarrow> instant \<Rightarrow> bool \<times> discovery_runtime" where
  "should_handoff_at r now =
     (if rt_stopped r then (True, r)
      else if pending (probe r) then
        (let r' = (if is_due (probe r) now then r\<lparr>handoff_required := True\<rparr> else r)
         in (handoff_required r', r'))
      else if is_due (probe r) now then
        (False, r\<lparr>probe := (probe r)\<lparr>last_started := Some now, pending := True\<rparr>,
                  probe_requested := True\<rparr>)
      else (False, r))"

text \<open>\<^verbatim>\<open>acknowledge_probe\<close> returns the recheck task it aborts, if there is one.\<close>

definition acknowledge_probe :: "discovery_runtime \<Rightarrow> discovery_runtime \<times> task_id option" where
  "acknowledge_probe r =
     (r\<lparr>probe := (probe r)\<lparr>pending := False, recheck_task := None\<rparr>, handoff_required := False\<rparr>,
      recheck_task (probe r))"

text \<open>
  One poll of \<^verbatim>\<open>with_probes\<close>: the biased select consumes the permit and acknowledges before the
  wrapped I/O or sleep future is polled; nothing else of the runtime changes.
\<close>

definition poll_with_probes :: "discovery_runtime \<Rightarrow> discovery_runtime \<times> task_id option" where
  "poll_with_probes r =
     (if probe_requested r then acknowledge_probe (r\<lparr>probe_requested := False\<rparr>) else (r, None))"

text \<open>\<^verbatim>\<open>DiscoveryTaskGuard::drop\<close>, the part that touches the runtime.\<close>

definition runtime_stop :: "discovery_runtime \<Rightarrow> discovery_runtime" where
  "runtime_stop r = r\<lparr>rt_stopped := True\<rparr>"

section \<open>Invariant\<close>

definition runtime_inv :: "discovery_runtime \<Rightarrow> bool" where
  "runtime_inv r \<longleftrightarrow>
     pending (probe r) = probe_requested r
     \<and> (pending (probe r) \<longrightarrow> last_started (probe r) \<noteq> None)
     \<and> (handoff_required r \<longrightarrow> pending (probe r))"

lemma runtime_inv_new [inv_intros]: "runtime_inv (runtime_new i)"
  by (simp add: runtime_inv_def runtime_new_def)

lemma runtime_inv_handoff [inv_intros]:
  "runtime_inv r \<Longrightarrow> runtime_inv (snd (should_handoff_at r now))"
  by (auto simp: runtime_inv_def should_handoff_at_def Let_def)

lemma runtime_inv_poll [inv_intros]: "runtime_inv r \<Longrightarrow> runtime_inv (fst (poll_with_probes r))"
  by (auto simp: runtime_inv_def poll_with_probes_def acknowledge_probe_def)

lemma runtime_inv_stop [inv_intros]: "runtime_inv r \<Longrightarrow> runtime_inv (runtime_stop r)"
  by (auto simp: runtime_inv_def runtime_stop_def)

lemma handoff_id [simp]: "rt_id (snd (should_handoff_at r now)) = rt_id r"
  by (simp add: should_handoff_at_def Let_def)

lemma handoff_stopped [simp]: "rt_stopped (snd (should_handoff_at r now)) = rt_stopped r"
  by (simp add: should_handoff_at_def Let_def)

text \<open>Asking again at the same instant gives the same answer and changes nothing more.\<close>

lemma handoff_idempotent:
  "runtime_inv r \<Longrightarrow> should_handoff_at (snd (should_handoff_at r now)) now =
     (fst (should_handoff_at r now), snd (should_handoff_at r now))"
  by (auto simp: runtime_inv_def should_handoff_at_def Let_def is_due_def
      SHUTDOWN_PROBE_INTERVAL_def millis_def split: option.splits)

section \<open>Correctness\<close>

text \<open>A question from another runtime, or a poll of the discovery task on its own runtime.\<close>

datatype runtime_event = Ask instant | PollOwner

fun runtime_step :: "discovery_runtime \<Rightarrow> runtime_event \<Rightarrow> discovery_runtime" where
  "runtime_step r (Ask now) = snd (should_handoff_at r now)"
| "runtime_step r PollOwner = fst (poll_with_probes r)"

lemma runtime_inv_run: "runtime_inv r \<Longrightarrow> runtime_inv (foldl runtime_step r es)"
proof (induction es arbitrary: r)
  case (Cons e es)
  have "runtime_inv (runtime_step r e)" using Cons.prems by (cases e) (auto intro: inv_intros)
  then show ?case using Cons.IH by simp
qed simp

lemma run_stopped [simp]: "rt_stopped (foldl runtime_step r es) = rt_stopped r"
proof (induction es arbitrary: r)
  case (Cons e es)
  have "rt_stopped (runtime_step r e) = rt_stopped r"
    by (cases e) (auto simp: poll_with_probes_def acknowledge_probe_def)
  with Cons show ?case by simp
qed simp

lemma poll_clears: "runtime_inv r \<Longrightarrow> \<not> pending (probe (fst (poll_with_probes r)))
    \<and> \<not> handoff_required (fst (poll_with_probes r))"
  by (auto simp: runtime_inv_def poll_with_probes_def acknowledge_probe_def)

text \<open>A probe, if one is pending, was started at \<open>t0\<close> or later, and no handoff is due.\<close>

definition probed_since :: "instant \<Rightarrow> discovery_runtime \<Rightarrow> bool" where
  "probed_since t0 r \<longleftrightarrow> \<not> rt_stopped r \<and> \<not> handoff_required r
     \<and> (pending (probe r) \<longrightarrow> (\<exists>q. last_started (probe r) = Some q \<and> t0 \<le> q))"

lemma probe_interval_pos [simp]: "0 < SHUTDOWN_PROBE_INTERVAL"
  by (simp add: SHUTDOWN_PROBE_INTERVAL_def millis_def)

lemma probed_since_no_handoff:
  assumes "probed_since t0 r" and "now < t0 + SHUTDOWN_PROBE_INTERVAL"
  shows "\<not> fst (should_handoff_at r now)"
proof -
  have "\<not> is_due (probe r) now" if "pending (probe r)"
  proof -
    from that assms(1) obtain q where "last_started (probe r) = Some q" "t0 \<le> q"
      by (auto simp: probed_since_def)
    moreover from this(2) have "\<not> SHUTDOWN_PROBE_INTERVAL \<le> now - q"
      using assms(2) probe_interval_pos by linarith
    ultimately show ?thesis by (simp add: is_due_def)
  qed
  with assms(1) show ?thesis by (auto simp: probed_since_def should_handoff_at_def Let_def)
qed

lemma probed_since_ask:
  assumes "probed_since t0 r" and "t0 \<le> now" and "now < t0 + SHUTDOWN_PROBE_INTERVAL"
  shows "probed_since t0 (snd (should_handoff_at r now))"
  using assms by (auto simp: probed_since_def should_handoff_at_def Let_def is_due_def)

lemma probed_since_asks:
  assumes "probed_since t0 r"
    and "\<forall>e \<in> set qs. \<exists>q. e = Ask q \<and> t0 \<le> q \<and> q < t0 + SHUTDOWN_PROBE_INTERVAL"
  shows "probed_since t0 (foldl runtime_step r qs)"
  using assms by (induction qs arbitrary: r) (auto simp: probed_since_ask)

text \<open>
  C33: a discovery owner that is driven keeps ownership: after its task was polled, no question
  from another runtime is answered with a handoff until a full probe interval (250 ms) after the
  first such question, however many are asked in between; in every state reached by questions
  and polls.
\<close>

theorem driven_owner_keeps_discovery:
  assumes reach: "r = fst (poll_with_probes (foldl runtime_step (runtime_new i) es))"
    and early: "t0 \<le> now" "now < t0 + SHUTDOWN_PROBE_INTERVAL"
    and asks: "\<forall>e \<in> set qs. \<exists>q. e = Ask q \<and> t0 \<le> q \<and> q < t0 + SHUTDOWN_PROBE_INTERVAL"
  shows "\<not> fst (should_handoff_at r t0)
    \<and> \<not> fst (should_handoff_at (foldl runtime_step (snd (should_handoff_at r t0)) qs) now)"
proof -
  let ?r0 = "foldl runtime_step (runtime_new i) es"
  have inv0: "runtime_inv ?r0" by (rule runtime_inv_run [OF runtime_inv_new])
  have r: "\<not> rt_stopped r" "\<not> pending (probe r)" "\<not> handoff_required r"
    using poll_clears [OF inv0] unfolding reach
    by (auto simp: poll_with_probes_def acknowledge_probe_def runtime_new_def)
  let ?r1 = "snd (should_handoff_at r t0)"
  have "\<not> fst (should_handoff_at r t0)" using r by (simp add: should_handoff_at_def)
  moreover have "probed_since t0 ?r1"
    using r by (auto simp: probed_since_def should_handoff_at_def)
  then have "probed_since t0 (foldl runtime_step ?r1 qs)" using asks by (rule probed_since_asks)
  ultimately show ?thesis using early(2) by (blast dest: probed_since_no_handoff)
qed

theorem driven_owner_keeps_discovery_witness:
  "\<not> fst (should_handoff_at (foldl runtime_step
       (snd (should_handoff_at (fst (poll_with_probes (foldl runtime_step (runtime_new 7) [Ask 5]))) 9)) [Ask 20]) 30)"
proof -
  have "\<forall>e \<in> set [Ask 20]. \<exists>q. e = Ask q \<and> (9::nat) \<le> q \<and> q < 9 + SHUTDOWN_PROBE_INTERVAL"
    by (simp add: SHUTDOWN_PROBE_INTERVAL_def millis_def)
  then show ?thesis
    using driven_owner_keeps_discovery [OF refl, of 9 30 "[Ask 20]" 7 "[Ask 5]"]
    by (simp add: SHUTDOWN_PROBE_INTERVAL_def millis_def)
qed

text \<open>
  an owner that is not driven loses ownership: when its task is not polled, every question
  asked a full probe interval after the question that started the probe is answered with a
  handoff, also with other questions in between.
\<close>

theorem stalled_owner_is_replaced:
  assumes "runtime_inv r" and "pending (probe r)" and "last_started (probe r) = Some t0"
    and "\<forall>e \<in> set qs. \<exists>q. e = Ask q" and "t0 + SHUTDOWN_PROBE_INTERVAL \<le> now"
  shows "fst (should_handoff_at (foldl runtime_step r qs) now)"
proof -
  have "pending (probe s) \<and> last_started (probe s) = Some t0 \<longrightarrow>
      pending (probe (foldl runtime_step s qs))
      \<and> last_started (probe (foldl runtime_step s qs)) = Some t0" for s
    using assms(4)
  proof (induction qs arbitrary: s)
    case (Cons e qs)
    then obtain q where "e = Ask q" by auto
    with Cons show ?case by (auto simp: should_handoff_at_def Let_def)
  qed simp
  with assms(2,3) have "pending (probe (foldl runtime_step r qs))"
    "last_started (probe (foldl runtime_step r qs)) = Some t0" by blast+
  with assms(5) show ?thesis by (auto simp: should_handoff_at_def Let_def is_due_def)
qed

theorem stalled_owner_is_replaced_witness:
  "fst (should_handoff_at (foldl runtime_step (runtime_step (runtime_new 1) (Ask 0)) [Ask 10]) 250000000)"
proof (rule stalled_owner_is_replaced)
  show "runtime_inv (runtime_step (runtime_new 1) (Ask 0))" by (simp add: inv_intros)
  show "pending (probe (runtime_step (runtime_new 1) (Ask 0)))"
    by (simp add: should_handoff_at_def runtime_new_def is_due_def)
  show "last_started (probe (runtime_step (runtime_new 1) (Ask 0))) = Some 0"
    by (simp add: should_handoff_at_def runtime_new_def is_due_def)
qed (simp_all add: SHUTDOWN_PROBE_INTERVAL_def millis_def)

end
