(* ===== verification/Discovery_Http.thy ===== *)
theory Discovery_Http
  imports Node_Url Discovery_Runtime
begin

text \<open>
  The HTTP side of node discovery in \<^verbatim>\<open>src/src/live_nodes.rs\<close>: the native root store, the two
  discovery clients, and one \<^verbatim>\<open>/localnodes\<close> request. The certificates of the host and the
  failures of \<^verbatim>\<open>rustls\<close> and \<^verbatim>\<open>reqwest\<close> are the argument \<open>env\<close>, the transports are \<open>T\<close>.
\<close>

section \<open>Shared SDK objects\<close>

text \<open>
  A user-supplied object behind an \<^verbatim>\<open>Arc\<close> (an HTTP client, an interceptor, a provider, ...) is
  the reference to it. The adapters of \<^verbatim>\<open>client.rs\<close> wrap HTTP clients and identity caches:
  \<^verbatim>\<open>SdkConfigValidation\<close> holds both, and is used as an HTTP client and, inside
  \<^verbatim>\<open>ValidatedIdentityCache\<close>, as an identity cache.
\<close>

type_synonym sdk_object = nat

datatype http_client =
    UserHttpClient sdk_object
  | SdkHttpClient bool
  | SdkConfigValidation http_client identity_cache
  | UnvalidatedHttpClient http_client
and identity_cache =
    UserIdentityCache sdk_object
  | LazyIdentityCache
  | UnvalidatedIdentityCache identity_cache
  | ValidatedIdentityCache http_client identity_cache

section \<open>Errors\<close>

datatype live_nodes_build_error =
    MissingRoutingTarget
  | InvalidSeedHost string url_error
  | InvalidScheme string
  | TlsConfiguration string
  | HttpClientError string

text \<open>\<open>dbg\<close> is the \<^verbatim>\<open>Debug\<close> formatting of a string, \<open>show_url_error\<close> the \<^verbatim>\<open>url\<close> crate's message.\<close>

fun display_live_nodes_error ::
  "(string \<Rightarrow> string) \<Rightarrow> (url_error \<Rightarrow> string) \<Rightarrow> live_nodes_build_error \<Rightarrow> string" where
  "display_live_nodes_error dbg show_url_error MissingRoutingTarget =
     ''no Alternator routing target configured; set non-empty seed_hosts''"
| "display_live_nodes_error dbg show_url_error (InvalidSeedHost seed_host source) =
     ''invalid seed host '' @ dbg seed_host @ '': '' @ show_url_error source"
| "display_live_nodes_error dbg show_url_error (InvalidScheme scheme) =
     ''invalid Alternator transport scheme '' @ dbg scheme @
     '': expected http or https, or a valid custom URI scheme for direct routing with a custom HTTP client''"
| "display_live_nodes_error dbg show_url_error (TlsConfiguration message) =
     ''failed to configure discovery TLS: '' @ message"
| "display_live_nodes_error dbg show_url_error (HttpClientError source) =
     ''failed to build the HTTP client for live-node discovery: '' @ source"

datatype error_source = UrlSource url_error | HttpSource string

fun live_nodes_error_source :: "live_nodes_build_error \<Rightarrow> error_source option" where
  "live_nodes_error_source MissingRoutingTarget = None"
| "live_nodes_error_source (InvalidScheme _) = None"
| "live_nodes_error_source (InvalidSeedHost _ source) = Some (UrlSource source)"
| "live_nodes_error_source (TlsConfiguration _) = None"
| "live_nodes_error_source (HttpClientError source) = Some (HttpSource source)"

section \<open>Native roots\<close>

text \<open>
  \<open>certs\<close> and \<open>cert_errors\<close> are what \<^verbatim>\<open>rustls_native_certs\<close> loads, \<open>rejects c\<close> the error with
  which a \<^verbatim>\<open>RootCertStore\<close> refuses \<open>c\<close>, and the other two the failures of the TLS and the HTTP
  client builder.
\<close>

record host_env =
  certs :: "sdk_object list"
  cert_errors :: "string list"
  rejects :: "sdk_object \<Rightarrow> string option"
  protocol_error :: "string option"
  reqwest_error :: "string option"

definition load_native_root_store :: "('x) host_env_scheme \<Rightarrow> sdk_object list \<times> string list" where
  "load_native_root_store env =
     foldl (\<lambda>(roots, errors) c. case rejects env c of
              None \<Rightarrow> (roots @ [c], errors) | Some e \<Rightarrow> (roots, errors @ [e]))
       ([], cert_errors env) (certs env)"

definition native_roots_are_usable :: "'x host_env_scheme \<Rightarrow> bool" where
  "native_roots_are_usable env = (fst (load_native_root_store env) \<noteq> [])"

definition unusable_native_roots_message :: "string list \<Rightarrow> string" where
  "unusable_native_roots_message errors =
     (if errors = [] then ''no usable native CA certificates were found'' else join ''; '' errors)"

definition ensure_native_roots_are_usable :: "'x host_env_scheme \<Rightarrow> string option" where
  "ensure_native_roots_are_usable env =
     (let (roots, errors) = load_native_root_store env
      in if roots = [] then Some (unusable_native_roots_message errors) else None)"

section \<open>Building a client\<close>

definition DISCOVERY_HTTP_OPERATION_TIMEOUT :: duration where
  "DISCOVERY_HTTP_OPERATION_TIMEOUT = secs 5"

record reqwest_client =
  tls_roots :: "sdk_object list"
  rq_timeout :: "duration option"
  rq_connect_timeout :: "duration option"

datatype discovery_http_client =
    Reqwest reqwest_client
  | Smithy http_client "sdk_object option" "sdk_object option"

definition discovery_http_client_builder_with_root_status ::
  "'x host_env_scheme \<Rightarrow> string \<Rightarrow> live_nodes_build_error + reqwest_client \<times> bool" where
  "discovery_http_client_builder_with_root_status env scheme =
     (let (roots, errors) = load_native_root_store env; native_roots_usable = (roots \<noteq> [])
      in if eq_ignore_ascii_case scheme ''https'' \<and> \<not> native_roots_usable
         then Inl (TlsConfiguration (unusable_native_roots_message errors))
         else case protocol_error env of
             Some e \<Rightarrow> Inl (TlsConfiguration e)
           | None \<Rightarrow> Inr (\<lparr>tls_roots = roots, rq_timeout = None, rq_connect_timeout = None\<rparr>, native_roots_usable))"

definition build_default_discovery_http_client ::
  "'x host_env_scheme \<Rightarrow> string \<Rightarrow> duration \<Rightarrow> live_nodes_build_error + discovery_http_client \<times> bool" where
  "build_default_discovery_http_client env scheme request_timeout =
     (case discovery_http_client_builder_with_root_status env scheme of
        Inl e \<Rightarrow> Inl e
      | Inr (builder, native_roots_usable) \<Rightarrow>
          (case reqwest_error env of
             Some e \<Rightarrow> Inl (HttpClientError e)
           | None \<Rightarrow> Inr (Reqwest (builder\<lparr>rq_timeout := Some request_timeout,
                                  rq_connect_timeout := Some (min (secs 2) request_timeout)\<rparr>),
                         native_roots_usable)))"

section \<open>One request\<close>

text \<open>The settings of the SDK operation \<^verbatim>\<open>DiscoverLiveNodes\<close>.\<close>

record smithy_operation =
  service_name :: string
  operation_name :: string
  op_behavior_version :: string
  op_http_client :: http_client
  op_endpoint_url :: string
  op_auth :: bool
  op_retries :: bool
  op_connect_timeout :: duration
  op_operation_timeout :: duration
  connection_poisoning :: bool
  op_sleep_impl :: "sdk_object option"
  op_time_source :: "sdk_object option"

text \<open>
  A transport gives the body of a response, \<open>None\<close> when the exchange failed; the inner \<open>None\<close> is a
  body that was not buffered. \<open>get_uri_ok\<close> tells whether \<^verbatim>\<open>HttpRequest::get\<close> accepts a URI.
\<close>

record 'u discovery_transport =
  reqwest_get :: "reqwest_client \<Rightarrow> 'u \<Rightarrow> bytes option"
  smithy_invoke :: "smithy_operation \<Rightarrow> string \<Rightarrow> bytes option option"
  get_uri_ok :: "string \<Rightarrow> bool"
  json_list :: "bytes \<Rightarrow> string list option"
  origin_of :: "'u \<Rightarrow> string"

definition discover_operation ::
  "string \<Rightarrow> http_client \<Rightarrow> sdk_object option \<Rightarrow> sdk_object option \<Rightarrow> string \<Rightarrow> duration \<Rightarrow> smithy_operation" where
  "discover_operation version http_client sleep_impl time_source endpoint request_timeout =
     \<lparr>service_name = ''alternator'', operation_name = ''DiscoverLiveNodes'',
      op_behavior_version = version, op_http_client = http_client, op_endpoint_url = endpoint,
      op_auth = False, op_retries = False,
      op_connect_timeout = min (secs 2) request_timeout, op_operation_timeout = request_timeout,
      connection_poisoning = True, op_sleep_impl = sleep_impl, op_time_source = time_source\<rparr>"

definition client_get_live_nodes ::
  "('u, 'x) discovery_transport_scheme \<Rightarrow> ('u, 'y) url_api_scheme \<Rightarrow> string \<Rightarrow> discovery_http_client \<Rightarrow>
   'u \<Rightarrow> duration \<Rightarrow> string list option" where
  "client_get_live_nodes T U version client url request_timeout =
     (case client of
        Reqwest rc \<Rightarrow> Option.bind (reqwest_get T rc url) (json_list T)
      | Smithy http_client sleep_impl time_source \<Rightarrow>
          (let op = discover_operation version http_client sleep_impl time_source (origin_of T url) request_timeout
           in if \<not> get_uri_ok T (as_str U url) then None
              else case smithy_invoke T op (as_str U url) of
                  None \<Rightarrow> None
                | Some None \<Rightarrow> None
                | Some (Some body) \<Rightarrow> json_list T body))"

section \<open>Facts\<close>

lemma load_native_root_store_eq:
  "fst (load_native_root_store env) = filter (\<lambda>c. rejects env c = None) (certs env)"
  "snd (load_native_root_store env) = cert_errors env @ List.map_filter (rejects env) (certs env)"
proof -
  have "foldl (\<lambda>(roots, errors) c. case rejects env c of
              None \<Rightarrow> (roots @ [c], errors) | Some e \<Rightarrow> (roots, errors @ [e])) (rs, es) cs
      = (rs @ filter (\<lambda>c. rejects env c = None) cs, es @ List.map_filter (rejects env) cs)" for rs es cs
    by (induction cs arbitrary: rs es) (auto simp: map_filter_simps split: option.split)
  then show "fst (load_native_root_store env) = filter (\<lambda>c. rejects env c = None) (certs env)"
    and "snd (load_native_root_store env) = cert_errors env @ List.map_filter (rejects env) (certs env)"
    by (simp_all add: load_native_root_store_def)
qed

end
