(* ===== verification/Node_View.thy ===== *)
theory Node_View
  imports Routing_Scope Discovery_Http
begin

text \<open>
  The routing view of \<^verbatim>\<open>src/src/live_nodes.rs\<close> (\<^verbatim>\<open>NodeView\<close>, \<^verbatim>\<open>RefreshState\<close>,
  \<^verbatim>\<open>DiscoveryInputs\<close>): the published membership with its round-robin counter and its refresh
  generations, and the refresh that walks the scope chain.

  Three things come from outside the crate and are arguments: the answer of a node to a
  \<^verbatim>\<open>/localnodes\<close> request (\<open>net n url\<close>: the \<open>n\<close>-th request of the refresh, \<open>None\<close> for an HTTP
  error, an undecodable body or an elapsed timeout), the \<^verbatim>\<open>rand\<close> shuffle (\<open>shuf n\<close>), and the
  \<^verbatim>\<open>url\<close> crate.
\<close>

section \<open>State\<close>

record 'u node_view =
  view_scope :: routing_scope
  counter :: usize
  live_nodes :: "'u list"
  next_generation :: u64
  latest_published_generation :: u64

record 'u discovery_inputs =
  inputs_timeout :: "duration option"
  seed_urls :: "'u list"
  alternator_scheme :: string
  inputs_port :: "u16 option"
  discovery_client :: discovery_http_client
  native_roots_usable :: bool

type_synonym 'u network = "nat \<Rightarrow> 'u \<Rightarrow> string list option"
type_synonym 'u shuffler = "nat \<Rightarrow> 'u list \<Rightarrow> 'u list"
type_synonym 'u discovery_outcomes = "discovery_op \<rightharpoonup> 'u list"

definition shuffle_law :: "'u shuffler \<Rightarrow> bool" where
  "shuffle_law shuf \<longleftrightarrow> (\<forall>n xs. mset (shuf n xs) = mset xs)"

definition view_new :: "routing_scope \<Rightarrow> 'u list \<Rightarrow> 'u node_view" where
  "view_new scope nodes =
     \<lparr>view_scope = scope, counter = 0, live_nodes = nodes, next_generation = 0,
      latest_published_generation = 0\<rparr>"

section \<open>Round robin\<close>

text \<open>
  The part of \<^verbatim>\<open>LiveNodes::get_next_node_round_robin\<close> after \<^verbatim>\<open>access\<close>. The counter is an
  \<^verbatim>\<open>AtomicUsize\<close>: \<^verbatim>\<open>fetch_add\<close> wraps.
\<close>

definition view_next_node :: "'u set \<Rightarrow> 'u node_view \<Rightarrow> 'u option \<times> 'u node_view" where
  "view_next_node used v =
     (let nodes = live_nodes v; len = length nodes
      in if len = 0 \<or> list_all (\<lambda>n. n \<in> used) nodes then (None, v)
         else let start = unat (counter v) mod len;
                  v' = v\<lparr>counter := counter v + 1\<rparr>
              in (find (\<lambda>n. n \<notin> used) (map (\<lambda>i. nodes ! ((start + i) mod len)) [0..<len]), v'))"

section \<open>Publishing\<close>

text \<open>\<^verbatim>\<open>begin_refresh\<close>: \<open>None\<close> is the panic on generation overflow.\<close>

definition begin_refresh :: "'u node_view \<Rightarrow> (u64 \<times> 'u node_view) option" where
  "begin_refresh v =
     (if next_generation v = - 1 then None
      else let g = next_generation v + 1 in Some (g, v\<lparr>next_generation := g\<rparr>))"

definition publish_live_nodes :: "u64 \<Rightarrow> 'u list \<Rightarrow> 'u node_view \<Rightarrow> 'u node_view" where
  "publish_live_nodes generation new_nodes v =
     (if generation < latest_published_generation v then v
      else let v' = (if live_nodes v \<noteq> new_nodes then v\<lparr>live_nodes := new_nodes\<rparr> else v)
           in v'\<lparr>latest_published_generation := generation\<rparr>)"

definition publish_partial_cluster_live_nodes ::
  "('u, 'x) url_api_scheme \<Rightarrow> u64 \<Rightarrow> 'u list \<Rightarrow> 'u node_view \<Rightarrow> 'u node_view" where
  "publish_partial_cluster_live_nodes U generation discovered v =
     (if generation < latest_published_generation v then v
      else let part = sort_dedup (as_str U) (live_nodes v @ discovered);
               v' = (if live_nodes v \<noteq> part then v\<lparr>live_nodes := part\<rparr> else v)
           in v'\<lparr>latest_published_generation := generation\<rparr>)"

section \<open>Asking nodes\<close>

definition host_to_uri ::
  "('u, 'x) url_api_scheme \<Rightarrow> 'u discovery_inputs \<Rightarrow> string \<Rightarrow> url_error + 'u" where
  "host_to_uri U inp addr = build_node_url U (alternator_scheme inp) addr (inputs_port inp)"

fun ok_of :: "'e + 'a \<Rightarrow> 'a option" where
  "ok_of (Inl e) = None"
| "ok_of (Inr a) = Some a"

definition fetch_live_nodes_for_scope ::
  "('u, 'x) url_api_scheme \<Rightarrow> 'u discovery_inputs \<Rightarrow> ('u \<Rightarrow> string list option) \<Rightarrow>
   routing_scope \<Rightarrow> 'u \<Rightarrow> 'u list option" where
  "fetch_live_nodes_for_scope U inp ask scope node_addr =
     (case ask (build_localnodes_url (set_path_of U) (append_query_pair U) scope node_addr) of
        None \<Rightarrow> None
      | Some addrs \<Rightarrow> Some (List.map_filter (\<lambda>a. ok_of (host_to_uri U inp a)) (sort addrs)))"

definition cluster_discovery_candidates ::
  "('u, 'x) url_api_scheme \<Rightarrow> 'u shuffler \<Rightarrow> nat \<Rightarrow> 'u discovery_inputs \<Rightarrow> 'u list \<Rightarrow>
   'u node_view \<Rightarrow> 'u list" where
  "cluster_discovery_candidates U shuf n inp additional v =
     shuf (Suc n) (sort_dedup (as_str U) (live_nodes v @ seed_urls inp @ additional))"

text \<open>
  The loop of \<^verbatim>\<open>discover_cluster_live_nodes_from\<close>: \<open>n\<close> counts the requests, \<open>acc\<close> is
  \<^verbatim>\<open>new_nodes\<close>, \<open>got\<close> is \<^verbatim>\<open>got_response\<close>.
\<close>

fun cluster_loop ::
  "('u, 'x) url_api_scheme \<Rightarrow> 'u discovery_inputs \<Rightarrow> 'u network \<Rightarrow> u64 \<Rightarrow> 'u list \<Rightarrow>
   nat \<Rightarrow> 'u list \<Rightarrow> bool \<Rightarrow> 'u node_view \<Rightarrow> nat \<times> 'u list \<times> bool \<times> 'u node_view" where
  "cluster_loop U inp net g [] n acc got v = (n, acc, got, v)"
| "cluster_loop U inp net g (c # cs) n acc got v =
     (if node_is_in_list U c acc then cluster_loop U inp net g cs n acc got v
      else case fetch_live_nodes_for_scope U inp (net n) from_cluster c of
          None \<Rightarrow> cluster_loop U inp net g cs (Suc n) acc got v
        | Some nodes \<Rightarrow>
            let acc' = sort_dedup (as_str U) (acc @ nodes);
                v' = (if nodes \<noteq> [] then publish_partial_cluster_live_nodes U g acc' v else v)
            in cluster_loop U inp net g cs (Suc n) acc' True v')"

definition discover_cluster_live_nodes_from ::
  "('u, 'x) url_api_scheme \<Rightarrow> 'u discovery_inputs \<Rightarrow> 'u network \<Rightarrow> u64 \<Rightarrow> 'u list \<Rightarrow>
   nat \<Rightarrow> 'u node_view \<Rightarrow> nat \<times> 'u list option \<times> 'u node_view" where
  "discover_cluster_live_nodes_from U inp net g candidates n v =
     (let (n', acc, got, v') = cluster_loop U inp net g candidates n [] False v
      in (n', if got then Some (sort_dedup (as_str U) acc) else None, v'))"

section \<open>The refresh\<close>

text \<open>
  The loop of \<^verbatim>\<open>update_live_nodes_from\<close>: the candidate queue, whether the seeds were already
  loaded into it, the current scope, the request count, the outcomes of this attempt, the view.
  It ends: an empty answer moves to the next scope of the chain, a failed probe shortens the
  queue, and the seeds are loaded once.
\<close>

function refresh_loop ::
  "('u, 'x) url_api_scheme \<Rightarrow> 'u discovery_inputs \<Rightarrow> 'u network \<Rightarrow> 'u shuffler \<Rightarrow> 'u list \<Rightarrow> bool \<Rightarrow>
   u64 \<Rightarrow> 'u list \<Rightarrow> bool \<Rightarrow> routing_scope \<Rightarrow> nat \<Rightarrow> 'u discovery_outcomes \<Rightarrow> 'u node_view \<Rightarrow>
   nat \<times> 'u discovery_outcomes \<times> 'u node_view" where
  "refresh_loop U inp net shuf extra reuse g candidates using_seeds scope n outs v =
     (case candidates of
        [] \<Rightarrow> (n, outs, v)
      | node_addr # rest \<Rightarrow>
          let key = discovery_operation scope;
              (n', result, v') =
                (case (if reuse then outs key else None) of
                   Some cached \<Rightarrow> (n, Some cached, v)
                 | None \<Rightarrow>
                     if is_cluster scope then
                       discover_cluster_live_nodes_from U inp net g
                         (cluster_discovery_candidates U shuf n inp extra v) n v
                     else (Suc n, fetch_live_nodes_for_scope U inp (net n) scope node_addr, v))
          in case result of
               None \<Rightarrow>
                 if is_cluster scope then (n', outs, v')
                 else if rest = [] \<and> \<not> using_seeds then
                   refresh_loop U inp net shuf extra reuse g (seed_urls inp) True scope n' outs v'
                 else refresh_loop U inp net shuf extra reuse g rest using_seeds scope n' outs v'
             | Some new_nodes \<Rightarrow>
                 let outs' = outs(key \<mapsto> new_nodes)
                 in if new_nodes = [] then
                      (case scope_fallback scope of
                         None \<Rightarrow> (n', outs', v')
                       | Some f \<Rightarrow>
                           refresh_loop U inp net shuf extra reuse g (rest @ [node_addr]) using_seeds
                             f n' outs' v')
                    else (n', outs', publish_live_nodes g new_nodes v'))"
  by pat_completeness auto
termination
proof (relation "inv_image (less_than <*lex*> less_than <*lex*> less_than)
    (\<lambda>(U, inp, net, shuf, extra, reuse, g, cs, us, s, n, outs, v).
       (length (scopes s), if us then 0 else (1 :: nat), length cs))", goal_cases)
  case 1
  then show ?case by auto
next
  case (4 U inp net shuf extra reuse g cs us s n outs v node rest)
  then have "length (scopes s) = Suc (length (scopes x2))" if "scope_fallback s = Some x2" for x2
    using that scopes_Cons [of s] by simp
  with 4 show ?case by auto
qed auto

declare refresh_loop.simps [simp del]

definition update_live_nodes_from ::
  "('u, 'x) url_api_scheme \<Rightarrow> 'u discovery_inputs \<Rightarrow> 'u network \<Rightarrow> 'u shuffler \<Rightarrow> 'u discovery_outcomes \<Rightarrow>
   'u list \<Rightarrow> bool \<Rightarrow> 'u node_view \<Rightarrow> ('u discovery_outcomes \<times> 'u node_view) option" where
  "update_live_nodes_from U inp net shuf outs additional reuse v =
     (case begin_refresh v of
        None \<Rightarrow> None
      | Some (g, v1) \<Rightarrow>
          let nodes = shuf 0 (live_nodes v1);
              nodes = foldl (\<lambda>ns c. if c \<in> set ns then ns else ns @ [c]) nodes additional
          in Some (snd (refresh_loop U inp net shuf additional reuse g nodes False
               (view_scope v1) 0 outs v1)))"

section \<open>Facts on round robin\<close>

lemma rotation_eq_rotate:
  assumes "xs \<noteq> []"
  shows "map (\<lambda>i. xs ! ((k mod length xs + i) mod length xs)) [0..<length xs] = rotate k xs"
  by (rule nth_equalityI) (use assms in \<open>auto simp: nth_rotate mod_add_left_eq\<close>)

lemma view_next_node_eq:
  "view_next_node used v =
     (if set (live_nodes v) \<subseteq> used then (None, v)
      else (find (\<lambda>n. n \<notin> used) (rotate (unat (counter v)) (live_nodes v)),
            v\<lparr>counter := counter v + 1\<rparr>))"
  by (auto simp: view_next_node_def Let_def rotation_eq_rotate list_all_iff)

lemma find_unused_Some:
  assumes "\<not> set xs \<subseteq> used"
  shows "\<exists>x. find (\<lambda>n. n \<notin> used) (rotate k xs) = Some x \<and> x \<in> set xs \<and> x \<notin> used"
proof (cases "find (\<lambda>n. n \<notin> used) (rotate k xs)")
  case None
  then show ?thesis using assms by (auto simp: find_None_iff)
next
  case (Some x)
  then show ?thesis by (metis find_Some_iff nth_mem set_rotate)
qed

lemma view_next_node_None: "fst (view_next_node used v) = None \<longleftrightarrow> set (live_nodes v) \<subseteq> used"
  using find_unused_Some [of "live_nodes v" used "unat (counter v)"] by (auto simp: view_next_node_eq)

lemma view_next_node_Some:
  "fst (view_next_node used v) = Some x \<Longrightarrow> x \<in> set (live_nodes v) \<and> x \<notin> used"
  using find_unused_Some [of "live_nodes v" used "unat (counter v)"]
  by (auto simp: view_next_node_eq split: if_splits)

lemma view_next_node_frame [simp]:
  "live_nodes (snd (view_next_node used v)) = live_nodes v"
  "view_scope (snd (view_next_node used v)) = view_scope v"
  by (simp_all add: view_next_node_eq)

section \<open>Facts on publishing\<close>

text \<open>What every part of a refresh keeps of the view.\<close>

definition refreshed :: "'u node_view \<Rightarrow> 'u node_view \<Rightarrow> bool" where
  "refreshed v v' \<longleftrightarrow>
     view_scope v' = view_scope v \<and> counter v' = counter v
     \<and> next_generation v' = next_generation v
     \<and> (live_nodes v \<noteq> [] \<longrightarrow> live_nodes v' \<noteq> [])
     \<and> latest_published_generation v \<le> latest_published_generation v'"

lemma refreshed_refl [simp]: "refreshed v v"
  by (simp add: refreshed_def)

lemma refreshed_trans: "refreshed u v \<Longrightarrow> refreshed v w \<Longrightarrow> refreshed u w"
  by (auto simp: refreshed_def)

lemma refreshed_publish: "ns \<noteq> [] \<Longrightarrow> refreshed v (publish_live_nodes g ns v)"
  by (auto simp: refreshed_def publish_live_nodes_def Let_def)

lemma refreshed_partial: "refreshed v (publish_partial_cluster_live_nodes U g ns v)"
  by (auto simp: refreshed_def publish_partial_cluster_live_nodes_def Let_def)

lemma refreshed_cluster_loop:
  "cluster_loop U inp net g cs n acc got v = (n', acc', got', v') \<Longrightarrow> refreshed v v'"
proof (induction U inp net g cs n acc got v arbitrary: n' acc' got' v' rule: cluster_loop.induct)
  case (2 U inp net g c cs n acc got v)
  show ?case
  proof (cases "node_is_in_list U c acc")
    case True
    with 2 show ?thesis by simp
  next
    case False
    then show ?thesis
    proof (cases "fetch_live_nodes_for_scope U inp (net n) from_cluster c")
      case None
      with False 2 show ?thesis by simp
    next
      case (Some nodes)
      let ?acc = "sort_dedup (as_str U) (acc @ nodes)"
      let ?v = "if nodes \<noteq> [] then publish_partial_cluster_live_nodes U g ?acc v else v"
      have "refreshed ?v v'"
        using False Some "2.prems" by (intro "2.IH"(3) [OF False Some refl refl]) (simp add: Let_def)
      moreover have "refreshed v ?v" by (simp add: refreshed_partial)
      ultimately show ?thesis by (rule refreshed_trans [rotated])
    qed
  qed
qed simp

lemma refreshed_discover_cluster:
  "discover_cluster_live_nodes_from U inp net g cs n v = (n', r, v') \<Longrightarrow> refreshed v v'"
  by (auto simp: discover_cluster_live_nodes_from_def Let_def split: prod.splits
      dest: refreshed_cluster_loop)

section \<open>Facts on the refresh\<close>

text \<open>The query of one round of the loop.\<close>

definition refresh_query ::
  "('u, 'x) url_api_scheme \<Rightarrow> 'u discovery_inputs \<Rightarrow> 'u network \<Rightarrow> 'u shuffler \<Rightarrow> 'u list \<Rightarrow> bool \<Rightarrow>
   u64 \<Rightarrow> 'u \<Rightarrow> routing_scope \<Rightarrow> nat \<Rightarrow> 'u discovery_outcomes \<Rightarrow> 'u node_view \<Rightarrow>
   nat \<times> 'u list option \<times> 'u node_view" where
  "refresh_query U inp net shuf extra reuse g node_addr scope n outs v =
     (case (if reuse then outs (discovery_operation scope) else None) of
        Some cached \<Rightarrow> (n, Some cached, v)
      | None \<Rightarrow>
          if is_cluster scope then
            discover_cluster_live_nodes_from U inp net g
              (cluster_discovery_candidates U shuf n inp extra v) n v
          else (Suc n, fetch_live_nodes_for_scope U inp (net n) scope node_addr, v))"

lemma refreshed_query:
  "refresh_query U inp net shuf extra reuse g node scope n outs v = (n', r, v') \<Longrightarrow> refreshed v v'"
  by (auto simp: refresh_query_def split: option.splits if_splits dest: refreshed_discover_cluster)

lemma refresh_loop_Nil: "refresh_loop U inp net shuf extra reuse g [] us scope n outs v = (n, outs, v)"
  by (subst refresh_loop.simps) simp

lemma refresh_loop_Cons:
  assumes "refresh_query U inp net shuf extra reuse g node scope n outs v = (n', result, v')"
  shows "refresh_loop U inp net shuf extra reuse g (node # rest) us scope n outs v =
     (case result of
        None \<Rightarrow>
          if is_cluster scope then (n', outs, v')
          else if rest = [] \<and> \<not> us then
            refresh_loop U inp net shuf extra reuse g (seed_urls inp) True scope n' outs v'
          else refresh_loop U inp net shuf extra reuse g rest us scope n' outs v'
      | Some new_nodes \<Rightarrow>
          let outs' = outs(discovery_operation scope \<mapsto> new_nodes)
          in if new_nodes = [] then
               (case scope_fallback scope of
                  None \<Rightarrow> (n', outs', v')
                | Some f \<Rightarrow> refresh_loop U inp net shuf extra reuse g (rest @ [node]) us f n' outs' v')
             else (n', outs', publish_live_nodes g new_nodes v'))"
  using assms by (subst refresh_loop.simps) (simp add: refresh_query_def Let_def)

text \<open>
  Induction over the rounds of a refresh: the order of its termination proof, with the measure
  hidden. A property of queue, seeds flag, scope, count, outcomes and view is shown from the
  same property of the rounds that can follow.
\<close>

lemma refresh_induct [case_names Nil Cons]:
  fixes P :: "'u list \<Rightarrow> bool \<Rightarrow> routing_scope \<Rightarrow> nat \<Rightarrow> 'u discovery_outcomes \<Rightarrow> 'u node_view \<Rightarrow> bool"
  assumes Nil: "\<And>us s n outs v. P [] us s n outs v"
    and Cons: "\<And>node rest us s n outs v.
      (\<And>cs us' n' outs' v'. (us' \<and> \<not> us \<or> us' = us \<and> length cs \<le> length rest) \<Longrightarrow> P cs us' s n' outs' v') \<Longrightarrow>
      (\<And>f cs us' n' outs' v'. scope_fallback s = Some f \<Longrightarrow> P cs us' f n' outs' v') \<Longrightarrow>
      P (node # rest) us s n outs v"
  shows "P cs us s n outs v"
proof -
  let ?R = "inv_image (less_than <*lex*> less_than <*lex*> less_than)
    (\<lambda>(cs, us, s). (length (scopes s), if us then 0 else (1 :: nat), length (cs :: 'u list)))"
  have "wf ?R" by (intro wf_inv_image wf_lex_prod wf_less_than)
  then have "case x of (cs, us, s) \<Rightarrow> \<forall>n outs v. P cs us s n outs v" for x
  proof (induction x rule: wf_induct_rule)
    case (less x)
    obtain cs us s where x: "x = (cs, us, s)" by (cases x)
    show ?case
    proof (cases cs)
      case Nil
      then show ?thesis using x by (auto intro: assms(1))
    next
      case (Cons node rest)
      have "P (node # rest) us s n outs v" for n outs v
      proof (rule assms(2))
        show "P cs' us' s n' outs' v'" if "us' \<and> \<not> us \<or> us' = us \<and> length cs' \<le> length rest"
          for cs' us' n' outs' v'
          using less [of "(cs', us', s)"] that x Cons by auto
        show "P cs' us' f n' outs' v'" if "scope_fallback s = Some f" for f cs' us' n' outs' v'
          using less [of "(cs', us', f)"] that x scopes_Cons [of s] by auto
      qed
      with x Cons show ?thesis by auto
    qed
  qed
  from this [of "(cs, us, s)"] show ?thesis by auto
qed

lemma refreshed_loop:
  "refresh_loop U inp net shuf extra reuse g cs us s n outs v = (n', outs', v') \<Longrightarrow> refreshed v v'"
proof (induction cs us s n outs v arbitrary: n' outs' v' rule: refresh_induct)
  case (Nil us s n outs v)
  then show ?case by (simp add: refresh_loop_Nil)
next
  case (Cons node rest us s n outs v)
  obtain n1 r v1 where q:
    "refresh_query U inp net shuf extra reuse g node s n outs v = (n1, r, v1)"
    by (metis prod_cases3)
  have v1: "refreshed v v1" by (rule refreshed_query [OF q])
  have "refreshed v1 v'"
    using Cons.prems unfolding refresh_loop_Cons [OF q]
    by (auto simp: Let_def split: option.splits if_splits
        intro: Cons.IH refreshed_publish)
  with v1 show ?case by (rule refreshed_trans)
qed

end
