(* ===== verification/Node_Refresh.thy ===== *)
theory Node_Refresh
  imports Node_View
begin

text \<open>
  The properties of the routing view: what round robin returns, what a refresh publishes, and how
  publications of overlapping refreshes are ordered.
\<close>

section \<open>Round robin\<close>

text \<open>Successive requests that have not used any node yet.\<close>

fun fresh_picks :: "nat \<Rightarrow> 'u node_view \<Rightarrow> 'u option list \<times> 'u node_view" where
  "fresh_picks 0 v = ([], v)"
| "fresh_picks (Suc n) v =
     (let (x, v') = view_next_node {} v; (xs, v'') = fresh_picks n v' in (x # xs, v''))"

lemma find_True: "xs \<noteq> [] \<Longrightarrow> find (\<lambda>n. n \<notin> {}) xs = Some (hd xs)"
  by (cases xs) auto

lemma fresh_next:
  assumes "live_nodes v \<noteq> []"
  shows "view_next_node {} v =
    (Some (live_nodes v ! (unat (counter v) mod length (live_nodes v))), v\<lparr>counter := counter v + 1\<rparr>)"
  using assms find_True [of "rotate (unat (counter v)) (live_nodes v)"]
  by (simp add: view_next_node_eq hd_rotate_conv_nth)

lemma fresh_picks_eq:
  assumes "live_nodes v \<noteq> []" and "unat (counter v) + n \<le> 2 ^ 64"
  shows "fst (fresh_picks n v) =
    map (\<lambda>i. Some (live_nodes v ! ((unat (counter v) + i) mod length (live_nodes v)))) [0..<n]"
  using assms
proof (induction n arbitrary: v)
  case (Suc n)
  let ?v = "v\<lparr>counter := counter v + 1\<rparr>"
  show ?case
  proof (cases n)
    case 0
    then show ?thesis using Suc.prems by (simp add: fresh_next)
  next
    case (Suc m)
    then have c: "unat (counter v + 1) = Suc (unat (counter v))"
      using Suc.prems(2) by (simp add: unat_word_ariths)
    have "fst (fresh_picks n ?v) =
        map (\<lambda>i. Some (live_nodes v ! ((unat (counter v) + Suc i) mod length (live_nodes v)))) [0..<n]"
      using Suc.IH [of ?v] Suc.prems c by simp
    then show ?thesis
      using Suc.prems(1) by (simp add: fresh_next split_beta Let_def map_upt_Suc del: upt_Suc)
  qed
qed simp

text \<open>
  \<^verbatim>\<open>get_next_node_round_robin\<close> returns \<^verbatim>\<open>None\<close>, without touching the counter, exactly when
  every live node was used (or there is none); otherwise the first unused node in the rotation
  of the membership that starts at the counter, and the counter advances by one.
\<close>

theorem round_robin_next_node:
  "view_next_node used v =
     (if set (live_nodes v) \<subseteq> used then (None, v)
      else (Some (hd (filter (\<lambda>n. n \<notin> used) (rotate (unat (counter v)) (live_nodes v)))),
            v\<lparr>counter := counter v + 1\<rparr>))"
proof -
  have "find P xs = (if filter P xs = [] then None else Some (hd (filter P xs)))" for P and xs :: "'a list"
    by (induction xs) auto
  moreover have "\<not> set (live_nodes v) \<subseteq> used \<Longrightarrow>
      filter (\<lambda>n. n \<notin> used) (rotate (unat (counter v)) (live_nodes v)) \<noteq> []"
    by (auto simp: filter_empty_conv)
  ultimately show ?thesis by (auto simp: view_next_node_eq)
qed

text \<open>
  round robin is even: as many successive requests as there are live nodes are answered with
  the rotation of the membership, so each position of the membership is chosen once (while the
  64-bit counter does not wrap within the pass).
\<close>

theorem round_robin_even:
  assumes "live_nodes v \<noteq> []" and "unat (counter v) + length (live_nodes v) \<le> 2 ^ 64"
  shows "fst (fresh_picks (length (live_nodes v)) v) = map Some (rotate (unat (counter v)) (live_nodes v))
    \<and> mset (fst (fresh_picks (length (live_nodes v)) v)) = image_mset Some (mset (live_nodes v))"
proof -
  have "fst (fresh_picks (length (live_nodes v)) v) = map Some (rotate (unat (counter v)) (live_nodes v))"
    by (rule nth_equalityI) (simp_all add: fresh_picks_eq [OF assms] nth_rotate)
  then show ?thesis
    by simp
qed

theorem round_robin_even_witness:
  "fst (fresh_picks 2 (view_new from_cluster [''http://a'', ''http://b''])) = [Some ''http://a'', Some ''http://b'']"
proof -
  let ?v = "view_new from_cluster [''http://a'', ''http://b'']"
  have "live_nodes ?v \<noteq> []" "unat (counter ?v) + length (live_nodes ?v) \<le> 2 ^ 64"
    by (simp_all add: view_new_def)
  from round_robin_even [OF this] show ?thesis by (simp add: view_new_def numeral_2_eq_2)
qed

section \<open>What a refresh publishes\<close>

text \<open>The candidate queue a refresh starts with, and the loop it runs.\<close>

definition refresh_queue :: "'u shuffler \<Rightarrow> 'u list \<Rightarrow> 'u node_view \<Rightarrow> 'u list" where
  "refresh_queue shuf additional v =
     foldl (\<lambda>ns c. if c \<in> set ns then ns else ns @ [c]) (shuf 0 (live_nodes v)) additional"

lemma update_loop:
  assumes "update_live_nodes_from U inp net shuf outs additional reuse v = Some (outs', v')"
  shows "next_generation v \<noteq> - 1 \<and> (\<exists>n.
    refresh_loop U inp net shuf additional reuse (next_generation v + 1)
      (refresh_queue shuf additional v) False (view_scope v) 0 outs
      (v\<lparr>next_generation := next_generation v + 1\<rparr>) = (n, outs', v'))"
proof -
  let ?L = "refresh_loop U inp net shuf additional reuse (next_generation v + 1)
      (refresh_queue shuf additional v) False (view_scope v) 0 outs
      (v\<lparr>next_generation := next_generation v + 1\<rparr>)"
  from assms have "next_generation v \<noteq> - 1" "snd ?L = (outs', v')"
    by (auto simp: update_live_nodes_from_def begin_refresh_def refresh_queue_def Let_def split: if_splits)
  then show ?thesis by (metis prod.collapse)
qed

text \<open>
  a refresh never empties the membership, and it leaves the configured scope and the
  round-robin counter alone; published generations do not go back.
\<close>

theorem refresh_keeps_membership:
  assumes "update_live_nodes_from U inp net shuf outs additional reuse v = Some (outs', v')"
    and "live_nodes v \<noteq> []"
  shows "live_nodes v' \<noteq> [] \<and> view_scope v' = view_scope v \<and> counter v' = counter v
    \<and> next_generation v' = next_generation v + 1
    \<and> latest_published_generation v \<le> latest_published_generation v'"
proof -
  from update_loop [OF assms(1)] obtain n where
    "refresh_loop U inp net shuf additional reuse (next_generation v + 1)
       (refresh_queue shuf additional v) False (view_scope v) 0 outs
       (v\<lparr>next_generation := next_generation v + 1\<rparr>) = (n, outs', v')" by blast
  from refreshed_loop [OF this] assms(2) show ?thesis by (simp add: refreshed_def)
qed

theorem refresh_keeps_membership_witness:
  "\<exists>outs' v'. update_live_nodes_from text_url
      \<lparr>inputs_timeout = None, seed_urls = [''http://s''], alternator_scheme = ''http'', inputs_port = None, discovery_client = Smithy (UserHttpClient 0) None None, native_roots_usable = False\<rparr>
      (\<lambda>n u. None) (\<lambda>n xs. xs) Map.empty [] False (view_new (from_datacenter ''dc1'') [''http://s'']) = Some (outs', v')
    \<and> live_nodes v' \<noteq> []"
proof -
  let ?inp = "\<lparr>inputs_timeout = None, seed_urls = [''http://s''], alternator_scheme = ''http'', inputs_port = None, discovery_client = Smithy (UserHttpClient 0) None None, native_roots_usable = False\<rparr>"
  let ?v = "view_new (from_datacenter ''dc1'') [''http://s'']"
  obtain outs' v' where u: "update_live_nodes_from text_url ?inp (\<lambda>n u. None) (\<lambda>n xs. xs) Map.empty [] False ?v
      = Some (outs', v')"
    by (auto simp: update_live_nodes_from_def begin_refresh_def view_new_def Let_def)
      (metis prod.collapse)
  have "live_nodes ?v \<noteq> []" by (simp add: view_new_def)
  from refresh_keeps_membership [OF u this] u show ?thesis by blast
qed

text \<open>
  The documented policy, as an abstract specification: of the scopes in order of preference, the
  first whose membership is not empty.
\<close>

fun first_nonempty :: "('k \<Rightarrow> 'u list) \<Rightarrow> 'k list \<Rightarrow> 'u list option" where
  "first_nonempty A [] = None"
| "first_nonempty A (k # ks) = (if A k = [] then first_nonempty A ks else Some (A k))"

text \<open>
  A cluster whose nodes agree: a node asked about a scope either fails or answers the membership
  \<open>A\<close> of that scope, and one seed always answers.
\<close>

definition consistent_answers ::
  "('u, 'x) url_api_scheme \<Rightarrow> 'u discovery_inputs \<Rightarrow> 'u network \<Rightarrow> (discovery_op \<Rightarrow> 'u list) \<Rightarrow>
   routing_scope list \<Rightarrow> 'u \<Rightarrow> bool" where
  "consistent_answers U inp net A scs r \<longleftrightarrow>
     (\<forall>s \<in> set scs. \<forall>n node.
        fetch_live_nodes_for_scope U inp (net n) s node = None
        \<or> fetch_live_nodes_for_scope U inp (net n) s node = Some (A (discovery_operation s)))
     \<and> (\<forall>s \<in> set scs. \<forall>n. fetch_live_nodes_for_scope U inp (net n) s r = Some (A (discovery_operation s)))"

definition scoped_prefix :: "routing_scope \<Rightarrow> routing_scope list" where
  "scoped_prefix s = takeWhile (\<lambda>s. \<not> is_cluster s) (scopes s)"

lemma scoped_prefix_Cons:
  "scoped_prefix s = (if is_cluster s then []
     else s # (case scope_fallback s of None \<Rightarrow> [] | Some f \<Rightarrow> scoped_prefix f))"
  by (subst scoped_prefix_def, subst scopes_Cons) (auto simp: scoped_prefix_def split: option.splits)

definition outcomes_agree :: "(discovery_op \<Rightarrow> 'u list) \<Rightarrow> 'u discovery_outcomes \<Rightarrow> bool" where
  "outcomes_agree A outs \<longleftrightarrow> (\<forall>k x. k \<noteq> Cluster \<longrightarrow> outs k = Some x \<longrightarrow> x = A k)"

lemma refresh_loop_policy:
  assumes "refresh_loop U inp net shuf extra reuse g cs us s n outs v = (n', outs', v')"
    and "cs \<noteq> []" and "us \<longrightarrow> r \<in> set cs" and "r \<in> set (seed_urls inp)"
    and "consistent_answers U inp net A (scoped_prefix s) r" and "outcomes_agree A outs"
    and "latest_published_generation v \<le> g"
    and "reuse \<longrightarrow> Cluster \<notin> discovery_operation ` set (scoped_prefix s)"
  shows "(case first_nonempty A (map discovery_operation (scoped_prefix s)) of
      Some ns \<Rightarrow> live_nodes v' = ns
    | None \<Rightarrow> scoped_prefix s = scopes s \<longrightarrow> live_nodes v' = live_nodes v)"
  using assms
proof (induction cs us s n outs v arbitrary: n' outs' v' rule: refresh_induct)
  case (Cons node rest us s n outs v)
  show ?case
  proof (cases "is_cluster s")
    case True
    then show ?thesis by (simp add: scoped_prefix_Cons [of s]) (metis scopes_ne)
  next
    case False
    let ?key = "discovery_operation s"
    obtain n1 res v1 where q: "refresh_query U inp net shuf extra reuse g node s n outs v = (n1, res, v1)"
      by (metis prod_cases3)
    have s_in: "s \<in> set (scoped_prefix s)" using False by (simp add: scoped_prefix_Cons)
    have v1: "v1 = v" and res: "res = None \<or> res = Some (A ?key)" and none: "res = None \<Longrightarrow> node \<noteq> r"
      using q False Cons.prems(5,6,8) s_in
      by (auto simp: refresh_query_def consistent_answers_def outcomes_agree_def image_iff
          split: option.splits if_splits)
    note loop = Cons.prems(1) [unfolded refresh_loop_Cons [OF q]]
    show ?thesis
    proof (cases res)
      case None
      show ?thesis
      proof (cases "rest = [] \<and> \<not> us")
        case True
        with loop None False have
          "refresh_loop U inp net shuf extra reuse g (seed_urls inp) True s n1 outs v = (n', outs', v')"
          by (simp add: v1)
        moreover have "seed_urls inp \<noteq> []" using Cons.prems(4) by auto
        ultimately show ?thesis using Cons.IH(1) [of True] True Cons.prems(4-8) by blast
      next
        case more: False
        with loop None False have
          rec: "refresh_loop U inp net shuf extra reuse g rest us s n1 outs v = (n', outs', v')"
          by (auto simp: v1)
        have "us \<longrightarrow> r \<in> set rest" using Cons.prems(3) none None by auto
        with more have "rest \<noteq> []" by auto
        with Cons.IH(1) [OF _ rec] \<open>us \<longrightarrow> r \<in> set rest\<close> Cons.prems show ?thesis by auto
      qed
    next
      case (Some x)
      with res have x: "x = A ?key" by simp
      show ?thesis
      proof (cases "x = []")
        case False
        with loop Some v1 Cons.prems(7) x s_in \<open>\<not> is_cluster s\<close> show ?thesis
          by (auto simp: scoped_prefix_Cons [of s] publish_live_nodes_def Let_def)
      next
        case empty: True
        show ?thesis
        proof (cases "scope_fallback s")
          case None
          with loop Some v1 x empty False show ?thesis
            by (simp add: scoped_prefix_Cons [of s] scopes_Cons [of s])
        next
          case (Some f)
          have agree: "outcomes_agree A (outs(?key \<mapsto> x))"
            using Cons.prems(6) x by (simp add: outcomes_agree_def)
          have cons: "consistent_answers U inp net A (scoped_prefix f) r"
            using Cons.prems(5) Some False by (auto simp: scoped_prefix_Cons [of s] consistent_answers_def)
          from loop \<open>res = Some x\<close> empty Some v1 have
            "refresh_loop U inp net shuf extra reuse g (rest @ [node]) us f n1 (outs(?key \<mapsto> x)) v = (n', outs', v')"
            by simp
          have keys: "reuse \<longrightarrow> Cluster \<notin> discovery_operation ` set (scoped_prefix f)"
            using Cons.prems(8) Some False by (auto simp: scoped_prefix_Cons [of s])
          from Cons.IH(2) [OF Some \<open>refresh_loop U inp net shuf extra reuse g (rest @ [node]) us f n1
              (outs(?key \<mapsto> x)) v = (n', outs', v')\<close> _ _ Cons.prems(4) cons agree Cons.prems(7) keys] Cons.prems(3)
          have "case first_nonempty A (map discovery_operation (scoped_prefix f)) of
              None \<Rightarrow> scoped_prefix f = scopes f \<longrightarrow> live_nodes v' = live_nodes v
            | Some ns \<Rightarrow> live_nodes v' = ns" by simp
          moreover have "first_nonempty A (map discovery_operation (scoped_prefix s)) =
              first_nonempty A (map discovery_operation (scoped_prefix f))"
            using x empty Some False by (simp add: scoped_prefix_Cons [of s])
          moreover have "scoped_prefix s = scopes s \<longleftrightarrow> scoped_prefix f = scopes f"
            using Some False by (simp add: scoped_prefix_Cons [of s] scopes_Cons [of s])
          ultimately show ?thesis by (auto split: option.splits)
        qed
      qed
    qed
  qed
qed simp

lemma set_refresh_queue: "shuffle_law shuf \<Longrightarrow> set (live_nodes v) \<subseteq> set (refresh_queue shuf extra v)"
proof -
  assume "shuffle_law shuf"
  then have "mset (shuf 0 (live_nodes v)) = mset (live_nodes v)" by (simp add: shuffle_law_def)
  then have "set (live_nodes v) = set (shuf 0 (live_nodes v))" by (metis set_mset_mset)
  moreover have "set ns \<subseteq> set (foldl (\<lambda>ns c. if c \<in> set ns then ns else ns @ [c]) ns extra)" for ns
  proof (induction extra arbitrary: ns)
    case (Cons c extra)
    from Cons [of ns] Cons [of "ns @ [c]"] show ?case by auto
  qed simp
  ultimately show ?thesis by (simp add: refresh_queue_def)
qed

lemma refresh_policy:
  assumes upd: "update_live_nodes_from U inp net shuf outs extra reuse v = Some (outs', v')"
    and shuf: "shuffle_law shuf"
    and live: "live_nodes v \<noteq> []" and seed: "r \<in> set (seed_urls inp)"
    and answers: "consistent_answers U inp net A (scoped_prefix (view_scope v)) r"
    and gen: "latest_published_generation v \<le> next_generation v"
    and outs: "outcomes_agree A outs"
      "reuse \<longrightarrow> Cluster \<notin> discovery_operation ` set (scoped_prefix (view_scope v))"
  shows "(case first_nonempty A (map discovery_operation (scoped_prefix (view_scope v))) of
      Some ns \<Rightarrow> live_nodes v' = ns
    | None \<Rightarrow> scoped_prefix (view_scope v) = scopes (view_scope v) \<longrightarrow> live_nodes v' = live_nodes v)"
proof -
  let ?g = "next_generation v + 1"
  let ?v = "v\<lparr>next_generation := ?g\<rparr>"
  from update_loop [OF upd] obtain n where no_ovf: "next_generation v \<noteq> - 1" and loop:
    "refresh_loop U inp net shuf extra reuse ?g (refresh_queue shuf extra v) False (view_scope v) 0 outs ?v = (n, outs', v')"
    by blast
  have ne: "refresh_queue shuf extra v \<noteq> []" using set_refresh_queue [OF shuf, of v extra] live by auto
  have "next_generation v \<le> ?g" using inc_greater [OF no_ovf] by simp
  with gen have g: "latest_published_generation ?v \<le> ?g" by simp
  from refresh_loop_policy [OF loop ne _ seed answers outs(1) g outs(2)] show ?thesis
    by (auto split: option.splits)
qed

lemma outcomes_agree_empty [simp]: "outcomes_agree A Map.empty"
  by (simp add: outcomes_agree_def)

text \<open>
  C9: a refresh implements the documented fallback policy. In a cluster whose nodes agree and where
  at least one seed answers, whichever nodes fail and however the candidates are shuffled, the
  membership published is that of the first scope of the chain (up to a cluster-wide scope) that
  has nodes; when no scope of a chain without cluster scope has nodes the membership stays.
\<close>

theorem refresh_follows_fallback_chain:
  assumes upd: "update_live_nodes_from U inp net shuf Map.empty [] False v = Some (outs', v')"
    and shuf: "shuffle_law shuf"
    and live: "live_nodes v \<noteq> []" and seed: "r \<in> set (seed_urls inp)"
    and answers: "consistent_answers U inp net A (scoped_prefix (view_scope v)) r"
    and gen: "latest_published_generation v \<le> next_generation v"
  shows "(case first_nonempty A (map discovery_operation (scoped_prefix (view_scope v))) of
      Some ns \<Rightarrow> live_nodes v' = ns
    | None \<Rightarrow> scoped_prefix (view_scope v) = scopes (view_scope v) \<longrightarrow> live_nodes v' = live_nodes v)"
  by (rule refresh_policy [OF assms]) simp_all

text \<open>A closed example: the preferred rack is empty, its datacenter has one node.\<close>

definition example_inputs :: "string discovery_inputs" where
  "example_inputs =
     \<lparr>inputs_timeout = None, seed_urls = [''http://s''], alternator_scheme = ''http'', inputs_port = None, discovery_client = Smithy (UserHttpClient 0) None None, native_roots_usable = False\<rparr>"

definition example_scope :: routing_scope where
  "example_scope = with_fallback (from_rack ''dc1'' ''r9'') (from_datacenter ''dc1'')"

definition example_net :: "string network" where
  "example_net n url = (if last url = CHR ''9'' then Some [] else Some [''n1''])"

definition example_answers :: "discovery_op \<Rightarrow> string list" where
  "example_answers k = (case k of Rack d r \<Rightarrow> [] | _ \<Rightarrow> [''http://n1''])"

lemma example_prefix:
  "scoped_prefix example_scope = scopes example_scope"
  "scopes example_scope =
     [RoutingScope (Some ''dc1'') (Some ''r9'') (Some (RoutingScope (Some ''dc1'') None None)),
      RoutingScope (Some ''dc1'') None None]"
  by (simp_all add: scoped_prefix_def example_scope_def from_rack_def from_datacenter_def is_cluster_def)

lemma example_fetch:
  assumes "alternator_scheme inp = ''http''" and "inputs_port inp = None"
  shows "fetch_live_nodes_for_scope text_url inp (example_net n)
     (RoutingScope (Some ''dc1'') (Some ''r9'') f) node = Some []"
    and "fetch_live_nodes_for_scope text_url inp (example_net n)
     (RoutingScope (Some ''dc1'') None f) node = Some [''http://n1'']"
proof -
  have "ok_of (build_node_url text_url ''http'' ''n1'' None) = Some ''http://n1''"
    by code_simp
  then show "fetch_live_nodes_for_scope text_url inp (example_net n)
     (RoutingScope (Some ''dc1'') None f) node = Some [''http://n1'']"
    using assms by (simp add: fetch_live_nodes_for_scope_def example_net_def build_localnodes_url_def
        host_to_uri_def List.map_filter_def) (simp add: text_url_def)
  show "fetch_live_nodes_for_scope text_url inp (example_net n)
     (RoutingScope (Some ''dc1'') (Some ''r9'') f) node = Some []"
    by (simp add: fetch_live_nodes_for_scope_def example_net_def build_localnodes_url_def
        List.map_filter_def text_url_def)
qed

lemma example_consistent:
  "alternator_scheme inp = ''http'' \<Longrightarrow> inputs_port inp = None \<Longrightarrow>
   consistent_answers text_url inp example_net example_answers (scopes example_scope) r"
  by (simp add: consistent_answers_def example_prefix example_fetch example_answers_def)

theorem refresh_follows_fallback_chain_witness:
  "\<exists>outs' v'. update_live_nodes_from text_url example_inputs example_net (\<lambda>n xs. xs) Map.empty [] False
      (view_new example_scope [''http://s'']) = Some (outs', v') \<and> live_nodes v' = [''http://n1'']"
proof -
  let ?v = "view_new example_scope [''http://s'']"
  obtain outs' v' where u: "update_live_nodes_from text_url example_inputs example_net (\<lambda>n xs. xs)
      Map.empty [] False ?v = Some (outs', v')"
    by (auto simp: update_live_nodes_from_def begin_refresh_def view_new_def Let_def)
      (metis prod.collapse)
  have s: "shuffle_law (\<lambda>n (xs :: string list). xs)" by (simp add: shuffle_law_def)
  have c: "consistent_answers text_url example_inputs example_net example_answers
      (scoped_prefix (view_scope ?v)) ''http://s''"
    using example_consistent by (simp add: view_new_def example_prefix(1) example_inputs_def)
  have "live_nodes v' = [''http://n1'']"
    using refresh_follows_fallback_chain [OF u s _ _ c]
    by (simp add: view_new_def example_prefix example_answers_def example_inputs_def)
  with u show ?thesis by blast
qed

section \<open>The cluster-wide union\<close>

lemma in_list_mono:
  "set a \<subseteq> set b \<Longrightarrow> node_is_in_list U c a \<Longrightarrow> node_is_in_list U c b"
  by (auto simp: node_is_in_list_def list_ex_iff)

lemma cluster_loop_union:
  assumes "url_eq_law U" and "cluster_loop U inp (\<lambda>n. ask) g cs n acc got v = (n', acc', got', v')"
  shows "set acc \<subseteq> set acc'
    \<and> (\<forall>c \<in> set cs. node_is_in_list U c acc'
         \<or> (\<forall>ns. fetch_live_nodes_for_scope U inp ask from_cluster c = Some ns \<longrightarrow> set ns \<subseteq> set acc'))
    \<and> (\<forall>x \<in> set acc'. x \<in> set acc
         \<or> (\<exists>c \<in> set cs. \<exists>ns. fetch_live_nodes_for_scope U inp ask from_cluster c = Some ns \<and> x \<in> set ns))"
  using assms(2)
proof (induction cs arbitrary: n acc got v)
  case (Cons c cs)
  show ?case
  proof (cases "node_is_in_list U c acc")
    case True
    with Cons.prems Cons.IH [of n acc got v] show ?thesis
      by (auto dest: in_list_mono [of acc acc'])
  next
    case out: False
    show ?thesis
    proof (cases "fetch_live_nodes_for_scope U inp ask from_cluster c")
      case None
      with out Cons.prems Cons.IH [of "Suc n" acc got v] show ?thesis by auto
    next
      case (Some nodes)
      let ?acc = "sort_dedup (as_str U) (acc @ nodes)"
      have set_acc: "set ?acc = set acc \<union> set nodes"
        using assms(1) by (simp add: set_sort_dedup url_eq_law_def)
      have "\<exists>v1. cluster_loop U inp (\<lambda>n. ask) g cs (Suc n) ?acc True v1 = (n', acc', got', v')"
        using out Some Cons.prems by (auto simp: Let_def)
      then obtain v1 where rec:
        "cluster_loop U inp (\<lambda>n. ask) g cs (Suc n) ?acc True v1 = (n', acc', got', v')" by blast
      note IH = Cons.IH [OF rec]
      from IH have 1: "set acc \<union> set nodes \<subseteq> set acc'" using set_acc by simp
      moreover have "x \<in> set acc \<or> (\<exists>c \<in> set (c # cs). \<exists>ns.
          fetch_live_nodes_for_scope U inp ask from_cluster c = Some ns \<and> x \<in> set ns)"
        if "x \<in> set acc'" for x
        using IH that set_acc Some by auto
      ultimately show ?thesis using IH Some by auto
    qed
  qed
qed simp

text \<open>
  C38: cluster-wide discovery unions the answers. The list it returns is strictly ordered by URL;
  every candidate is either already in it (and need not be asked) or was asked, and then its whole
  answer is in it; and nothing is in it that no candidate answered.
\<close>

theorem cluster_discovery_union:
  assumes "url_eq_law U"
    and "discover_cluster_live_nodes_from U inp (\<lambda>n. ask) g cs n v = (n', Some ns, v')"
  shows "sorted_wrt (<) (map (as_str U) ns)
    \<and> (\<forall>c \<in> set cs. node_is_in_list U c ns
         \<or> (\<forall>xs. fetch_live_nodes_for_scope U inp ask from_cluster c = Some xs \<longrightarrow> set xs \<subseteq> set ns))
    \<and> (\<forall>x \<in> set ns. \<exists>c \<in> set cs. \<exists>xs.
         fetch_live_nodes_for_scope U inp ask from_cluster c = Some xs \<and> x \<in> set xs)"
proof -
  from assms(2) obtain acc got where loop: "cluster_loop U inp (\<lambda>n. ask) g cs n [] False v = (n', acc, got, v')"
    and ns: "ns = sort_dedup (as_str U) acc"
    by (auto simp: discover_cluster_live_nodes_from_def Let_def split: prod.splits if_splits)
  have set_ns: "set ns = set acc" using assms(1) by (simp add: ns set_sort_dedup url_eq_law_def)
  then have "node_is_in_list U c ns \<longleftrightarrow> node_is_in_list U c acc" for c
    by (auto simp: node_is_in_list_def list_ex_iff)
  with cluster_loop_union [OF assms(1) loop] set_ns sorted_strict_sort_dedup [of "as_str U" acc] ns
  show ?thesis by auto
qed

theorem cluster_discovery_union_witness:
  "\<exists>n' ns v'. discover_cluster_live_nodes_from text_url example_inputs (\<lambda>n u. Some [''n1'']) 1 [''http://s''] 0
      (view_new from_cluster [''http://s'']) = (n', Some ns, v')
    \<and> sorted_wrt (<) (map (as_str text_url) ns)"
proof -
  obtain n' ns v' where d: "discover_cluster_live_nodes_from text_url example_inputs (\<lambda>n u. Some [''n1'']) 1
      [''http://s''] 0 (view_new from_cluster [''http://s'']) = (n', Some ns, v')"
    by (simp add: discover_cluster_live_nodes_from_def node_is_in_list_def fetch_live_nodes_for_scope_def Let_def)
  from cluster_discovery_union [OF text_url_eq_law d] d show ?thesis by blast
qed

section \<open>Overlapping refreshes\<close>

datatype 'u publication = Full u64 "'u list" | Partial u64 "'u list"

fun generation_of :: "'u publication \<Rightarrow> u64" where
  "generation_of (Full g ns) = g"
| "generation_of (Partial g ns) = g"

fun publish :: "('u, 'x) url_api_scheme \<Rightarrow> 'u node_view \<Rightarrow> 'u publication \<Rightarrow> 'u node_view" where
  "publish U v (Full g ns) = publish_live_nodes g ns v"
| "publish U v (Partial g ns) = publish_partial_cluster_live_nodes U g ns v"

lemma publish_generation:
  "latest_published_generation (publish U v p) = max (latest_published_generation v) (generation_of p)"
  by (cases p) (auto simp: publish_live_nodes_def publish_partial_cluster_live_nodes_def Let_def max_def)

lemma publish_stale: "generation_of p < latest_published_generation v \<Longrightarrow> publish U v p = v"
  by (cases p) (auto simp: publish_live_nodes_def publish_partial_cluster_live_nodes_def)

lemma publish_stale_run:
  "\<forall>p \<in> set ps. generation_of p < latest_published_generation v \<Longrightarrow> foldl (publish U) v ps = v"
  by (induction ps) (auto simp: publish_stale)

text \<open>
  publications of overlapping refreshes are ordered by generation. In any interleaving, once a
  refresh has published its result, no publication of an earlier refresh (complete or partial)
  changes the view, and the published generation is the largest seen.
\<close>

theorem stale_publication_ignored:
  assumes "latest_published_generation v \<le> g" and "\<forall>p \<in> set ps. generation_of p < g"
  shows "live_nodes (foldl (publish U) (publish_live_nodes g ns v) ps) = ns
    \<and> latest_published_generation (foldl (publish U) (publish_live_nodes g ns v) ps) = g"
proof -
  have pub: "live_nodes (publish_live_nodes g ns v) = ns"
    "latest_published_generation (publish_live_nodes g ns v) = g"
    using assms(1) by (auto simp: publish_live_nodes_def Let_def)
  with assms(2) have "foldl (publish U) (publish_live_nodes g ns v) ps = publish_live_nodes g ns v"
    by (intro publish_stale_run) simp
  with pub show ?thesis by simp
qed

theorem stale_publication_ignored_witness:
  "live_nodes (foldl (publish text_url) (publish_live_nodes 2 [''http://b''] (view_new from_cluster [''http://a'']))
     [Partial 1 [''http://c''], Full 1 [''http://d'']]) = [''http://b'']"
  using stale_publication_ignored [of "view_new from_cluster [''http://a'']" 2
      "[Partial 1 [''http://c''], Full 1 [''http://d'']]" text_url "[''http://b'']"]
  by (simp add: view_new_def)

section \<open>Reuse of outcomes\<close>

text \<open>
  the affinity view reuses what the ordinary refresh of the same attempt learned: when the
  outcome of its preferred scope is cached and not empty, no request is sent and exactly that
  membership is published.
\<close>

theorem cached_outcome_needs_no_request:
  assumes "outs (discovery_operation s) = Some ns" and "ns \<noteq> []"
    and "latest_published_generation v \<le> g"
  shows "\<exists>outs' v'. refresh_loop U inp net shuf extra True g (c # cs) us s n outs v = (n, outs', v')
    \<and> outs' = outs \<and> live_nodes v' = ns"
proof -
  have q: "refresh_query U inp net shuf extra True g c s n outs v = (n, Some ns, v)"
    using assms(1) by (simp add: refresh_query_def)
  have "outs(discovery_operation s \<mapsto> ns) = outs" using assms(1) by (auto simp: fun_upd_idem)
  with assms(2,3) show ?thesis
    unfolding refresh_loop_Cons [OF q] by (auto simp: publish_live_nodes_def Let_def not_less)
qed

theorem cached_outcome_needs_no_request_witness:
  "\<exists>outs' v'. refresh_loop text_url example_inputs example_net (\<lambda>n xs. xs) [] True 1 [''http://s''] False
      from_cluster 0 [Cluster \<mapsto> [''http://n7'']] (view_new from_cluster [''http://s'']) = (0, outs', v')
    \<and> live_nodes v' = [''http://n7'']"
  using cached_outcome_needs_no_request [of "[Cluster \<mapsto> [''http://n7'']]" from_cluster "[''http://n7'']"
      "view_new from_cluster [''http://s'']" 1 text_url example_inputs example_net "\<lambda>n xs. xs" "[]"
      "''http://s''" "[]" False 0]
  by (auto simp: from_cluster_def view_new_def)

end
