(* ===== verification/Agreed_Refresh.thy ===== *)
theory Agreed_Refresh
  imports Node_Refresh
begin

text \<open>
  The refresh in a cluster whose nodes agree, over the whole scope chain. A node asked for a rack or
  a datacenter answers its members. A node asked for the cluster answers the members of its own
  datacenter, so \<^verbatim>\<open>discover_cluster_live_nodes_from\<close> (\<^verbatim>\<open>src/src/live_nodes.rs\<close>) has to ask until
  every datacenter is covered; that it ends with all of them is shown here.
\<close>

section \<open>Agreement on the cluster\<close>

definition same_node :: "('u, 'x) url_api_scheme \<Rightarrow> 'u \<Rightarrow> 'u \<Rightarrow> bool" where
  "same_node U x y \<longleftrightarrow> host_str U x = host_str U y \<and> port_or_known_default U x = port_or_known_default U y"

text \<open>
  \<open>W\<close> lists the nodes of the cluster, \<open>D c\<close> those of the datacenter of the node at \<open>c\<close>: a node
  fails or answers its datacenter, the nodes of a datacenter agree on it, every datacenter has a
  seed that always answers, and so has \<open>r\<close>.
\<close>

definition always_answers_cluster ::
  "('u, 'x) url_api_scheme \<Rightarrow> 'u discovery_inputs \<Rightarrow> 'u network \<Rightarrow> ('u \<Rightarrow> 'u list) \<Rightarrow> 'u \<Rightarrow> bool" where
  "always_answers_cluster U inp net D c \<longleftrightarrow>
     (\<forall>n. fetch_live_nodes_for_scope U inp (net n) from_cluster c = Some (D c))"

definition cluster_answers ::
  "('u, 'x) url_api_scheme \<Rightarrow> 'u discovery_inputs \<Rightarrow> 'u network \<Rightarrow> ('u \<Rightarrow> 'u list) \<Rightarrow> 'u list \<Rightarrow> 'u \<Rightarrow> bool" where
  "cluster_answers U inp net D W r \<longleftrightarrow>
     sorted_wrt (<) (map (as_str U) W)
     \<and> (\<forall>n c. fetch_live_nodes_for_scope U inp (net n) from_cluster c \<in> {None, Some (D c)})
     \<and> (\<forall>c. set (D c) \<subseteq> set W)
     \<and> (\<forall>c x y. x \<in> set (D c) \<longrightarrow> same_node U x y \<longrightarrow> set (D y) = set (D c))
     \<and> (\<forall>w \<in> set W. \<exists>q \<in> set (seed_urls inp). always_answers_cluster U inp net D q \<and> w \<in> set (D q))
     \<and> always_answers_cluster U inp net D r"

text \<open>Agreement on the scopes of a chain: \<open>A k\<close> is what the discovery query \<open>k\<close> stands for.\<close>

definition agreed_answers ::
  "('u, 'x) url_api_scheme \<Rightarrow> 'u discovery_inputs \<Rightarrow> 'u network \<Rightarrow> ('u \<Rightarrow> 'u list) \<Rightarrow>
   (discovery_op \<Rightarrow> 'u list) \<Rightarrow> routing_scope \<Rightarrow> 'u \<Rightarrow> bool" where
  "agreed_answers U inp net D A s r \<longleftrightarrow>
     consistent_answers U inp net A (filter (\<lambda>s. \<not> is_cluster s) (scopes s)) r
     \<and> (list_ex is_cluster (scopes s) \<longrightarrow> cluster_answers U inp net D (A Cluster) r)"

definition outcomes_of :: "(discovery_op \<Rightarrow> 'u list) \<Rightarrow> 'u discovery_outcomes \<Rightarrow> bool" where
  "outcomes_of A outs \<longleftrightarrow> (\<forall>k x. outs k = Some x \<longrightarrow> x = A k)"

lemma outcomes_of_empty [simp]: "outcomes_of A Map.empty"
  by (simp add: outcomes_of_def)

lemma outcomes_of_upd: "outcomes_of A outs \<Longrightarrow> outcomes_of A (outs(k \<mapsto> A k))"
  by (auto simp: outcomes_of_def)

lemma cluster_operation: "is_cluster s \<Longrightarrow> discovery_operation s = Cluster"
  by (cases s) (auto simp: is_cluster_def)

lemma agreed_fallback:
  "agreed_answers U inp net D A s r \<Longrightarrow> scope_fallback s = Some f \<Longrightarrow> agreed_answers U inp net D A f r"
  unfolding agreed_answers_def scopes_Cons [of s] by (auto simp: consistent_answers_def)

lemma agreed_cluster:
  "agreed_answers U inp net D A s r \<Longrightarrow> is_cluster s \<Longrightarrow> cluster_answers U inp net D (A Cluster) r"
  unfolding agreed_answers_def scopes_Cons [of s] by simp

lemma agreed_scope:
  assumes "agreed_answers U inp net D A s r" and "\<not> is_cluster s"
  shows "fetch_live_nodes_for_scope U inp (net n) s node \<in> {None, Some (A (discovery_operation s))}"
    and "fetch_live_nodes_for_scope U inp (net n) s r = Some (A (discovery_operation s))"
  using assms unfolding agreed_answers_def scopes_Cons [of s] consistent_answers_def by auto

section \<open>Cluster-wide discovery\<close>

text \<open>
  The part of the cluster that was collected: it is closed under datacenters, so a candidate that is
  skipped because it is listed already has nothing to add.
\<close>

definition collected :: "('u, 'x) url_api_scheme \<Rightarrow> ('u \<Rightarrow> 'u list) \<Rightarrow> 'u list \<Rightarrow> 'u list \<Rightarrow> bool \<Rightarrow> bool" where
  "collected U D W acc got \<longleftrightarrow>
     set acc \<subseteq> set W \<and> (acc \<noteq> [] \<longrightarrow> got)
     \<and> (\<forall>x \<in> set acc. \<forall>y. same_node U x y \<longrightarrow> set (D y) \<subseteq> set acc)"

lemma collected_Nil [simp]: "collected U D W [] got"
  by (simp add: collected_def)

lemma collected_listed:
  "collected U D W acc got \<Longrightarrow> node_is_in_list U c acc \<Longrightarrow> set (D c) \<subseteq> set acc \<and> got"
  unfolding collected_def node_is_in_list_def list_ex_iff same_node_def
  by (metis empty_iff empty_set)

lemma collected_step:
  assumes "url_eq_law U" and "cluster_answers U inp net D W r" and "collected U D W acc got"
  shows "collected U D W (sort_dedup (as_str U) (acc @ D c)) True"
    and "set (sort_dedup (as_str U) (acc @ D c)) = set acc \<union> set (D c)"
proof -
  show s: "set (sort_dedup (as_str U) (acc @ D c)) = set acc \<union> set (D c)"
    using assms(1) by (simp add: set_sort_dedup url_eq_law_def)
  have "set (D y) \<subseteq> set acc \<union> set (D c)" if "x \<in> set acc \<union> set (D c)" "same_node U x y" for x y
    using that assms(2,3) unfolding cluster_answers_def collected_def by blast
  moreover have "set acc \<union> set (D c) \<subseteq> set W"
    using assms(2,3) by (auto simp: cluster_answers_def collected_def)
  ultimately show "collected U D W (sort_dedup (as_str U) (acc @ D c)) True"
    unfolding collected_def s by blast
qed

lemma cluster_loop_collects:
  assumes "url_eq_law U" and "cluster_answers U inp net D W r"
    and "cluster_loop U inp net g cs n acc got v = (n', acc', got', v')"
    and "collected U D W acc got" and "latest_published_generation v \<le> g"
  shows "collected U D W acc' got' \<and> set acc \<subseteq> set acc' \<and> (got \<longrightarrow> got')
    \<and> (\<forall>c \<in> set cs. always_answers_cluster U inp net D c \<longrightarrow> set (D c) \<subseteq> set acc' \<and> got')
    \<and> latest_published_generation v' \<le> g \<and> (W = [] \<longrightarrow> v' = v)"
  using assms(3-5)
proof (induction cs arbitrary: n acc got v)
  case (Cons c cs)
  show ?case
  proof (cases "node_is_in_list U c acc")
    case True
    with Cons.prems(1) have "cluster_loop U inp net g cs n acc got v = (n', acc', got', v')" by simp
    from Cons.IH [OF this Cons.prems(2,3)] collected_listed [OF Cons.prems(2) True] show ?thesis by auto
  next
    case out: False
    show ?thesis
    proof (cases "fetch_live_nodes_for_scope U inp (net n) from_cluster c")
      case None
      with out Cons.prems(1) have "cluster_loop U inp net g cs (Suc n) acc got v = (n', acc', got', v')" by simp
      from Cons.IH [OF this Cons.prems(2,3)] None show ?thesis by (auto simp: always_answers_cluster_def)
    next
      case (Some nodes)
      have nodes: "nodes = D c" "set (D c) \<subseteq> set W"
        using assms(2) Some unfolding cluster_answers_def by (metis insert_iff option.distinct(1) option.inject singletonD, blast)
      let ?acc = "sort_dedup (as_str U) (acc @ D c)"
      define v1 where "v1 = (if D c \<noteq> [] then publish_partial_cluster_live_nodes U g ?acc v else v)"
      have rec: "cluster_loop U inp net g cs (Suc n) ?acc True v1 = (n', acc', got', v')"
        using out Some Cons.prems(1) by (simp add: nodes(1) v1_def Let_def)
      have v1: "latest_published_generation v1 \<le> g" "W = [] \<longrightarrow> v1 = v"
        using Cons.prems(3) nodes(2) by (auto simp: v1_def publish_partial_cluster_live_nodes_def Let_def)
      from Cons.IH [OF rec collected_step(1) [OF assms(1,2) Cons.prems(2)] v1(1)]
        collected_step(2) [OF assms(1,2) Cons.prems(2), of c] v1(2)
      show ?thesis by auto
    qed
  qed
qed auto

lemma sort_dedup_is:
  assumes "url_eq_law U" and "set xs = set W" and "sorted_wrt (<) (map (as_str U) W)"
  shows "sort_dedup (as_str U) xs = W"
proof -
  have "set (sort_dedup (as_str U) xs) = set W"
    using assms(1,2) by (simp add: set_sort_dedup url_eq_law_def)
  then have "map (as_str U) (sort_dedup (as_str U) xs) = map (as_str U) W"
    using sorted_strict_sort_dedup [of "as_str U" xs] assms(3)
    by (intro strict_sorted_equal) (simp_all add: strict_sorted_iff)
  with assms(1) show ?thesis by (simp add: url_eq_law_def inj_map_eq_map)
qed

text \<open>Cluster-wide discovery finds the cluster, whatever order the candidates come in.\<close>

lemma cluster_discovery_agreed:
  assumes U: "url_eq_law U" and "shuffle_law shuf" and answers: "cluster_answers U inp net D W r"
    and r: "r \<in> set (seed_urls inp)" and gen: "latest_published_generation v \<le> g"
    and disc: "discover_cluster_live_nodes_from U inp net g
      (cluster_discovery_candidates U shuf k inp extra v) n v = (n', res, v')"
  shows "res = Some W \<and> latest_published_generation v' \<le> g \<and> (W = [] \<longrightarrow> v' = v)"
proof -
  let ?cs = "cluster_discovery_candidates U shuf k inp extra v"
  have "mset (shuf (Suc k) xs) = mset xs" for xs using assms(2) by (simp add: shuffle_law_def)
  then have "set (shuf (Suc k) xs) = set xs" for xs by (metis set_mset_mset)
  then have cands: "set (seed_urls inp) \<subseteq> set ?cs"
    using U by (auto simp: cluster_discovery_candidates_def set_sort_dedup url_eq_law_def)
  obtain acc got where loop: "cluster_loop U inp net g ?cs n [] False v = (n', acc, got, v')"
    and res: "res = (if got then Some (sort_dedup (as_str U) acc) else None)"
    using disc by (auto simp: discover_cluster_live_nodes_from_def Let_def split: prod.splits)
  note run = cluster_loop_collects [OF U answers loop collected_Nil gen]
  have "always_answers_cluster U inp net D r" using answers by (simp add: cluster_answers_def)
  with run cands r have got by blast
  have "set W \<subseteq> set acc"
    using answers run cands unfolding cluster_answers_def by blast
  moreover have "set acc \<subseteq> set W" using run by (simp add: collected_def)
  ultimately have "sort_dedup (as_str U) acc = W"
    using answers by (intro sort_dedup_is [OF U]) (auto simp: cluster_answers_def)
  with res run \<open>got\<close> show ?thesis by simp
qed

section \<open>The refresh over the whole chain\<close>

text \<open>One question of the refresh: it fails, or it brings what the scope stands for.\<close>

lemma refresh_query_agreed:
  assumes U: "url_eq_law U" and shuf: "shuffle_law shuf" and r: "r \<in> set (seed_urls inp)"
    and agreed: "agreed_answers U inp net D A s r" and outs: "outcomes_of A outs"
    and gen: "latest_published_generation v \<le> g"
    and q: "refresh_query U inp net shuf extra reuse g node s n outs v = (n', res, v')"
  shows "res = Some (A (discovery_operation s)) \<or> res = None \<and> \<not> is_cluster s \<and> node \<noteq> r \<and> v' = v"
    and "latest_published_generation v' \<le> g" and "A (discovery_operation s) = [] \<Longrightarrow> v' = v"
proof -
  have "(res = Some (A (discovery_operation s)) \<or> res = None \<and> \<not> is_cluster s \<and> node \<noteq> r \<and> v' = v)
    \<and> latest_published_generation v' \<le> g \<and> (A (discovery_operation s) = [] \<longrightarrow> v' = v)"
  proof (cases "if reuse then outs (discovery_operation s) else None")
    case (Some x)
    with q outs gen show ?thesis by (auto simp: refresh_query_def outcomes_of_def split: if_splits)
  next
    case none: None
    show ?thesis
    proof (cases "is_cluster s")
      case True
      with q none have "discover_cluster_live_nodes_from U inp net g
          (cluster_discovery_candidates U shuf n inp extra v) n v = (n', res, v')" by (simp add: refresh_query_def)
      from cluster_discovery_agreed [OF U shuf agreed_cluster [OF agreed True] r gen this] True
      show ?thesis by (simp add: cluster_operation)
    next
      case False
      with q none have "v' = v" "res = fetch_live_nodes_for_scope U inp (net n) s node"
        by (simp_all add: refresh_query_def)
      with agreed_scope(1) [OF agreed False, where n = n and node = node]
        agreed_scope(2) [OF agreed False, where n = n] False gen
      show ?thesis by auto
    qed
  qed
  then show "res = Some (A (discovery_operation s)) \<or> res = None \<and> \<not> is_cluster s \<and> node \<noteq> r \<and> v' = v"
    and "latest_published_generation v' \<le> g" and "A (discovery_operation s) = [] \<Longrightarrow> v' = v" by blast+
qed

definition published :: "(discovery_op \<Rightarrow> 'u list) \<Rightarrow> discovery_op list \<Rightarrow> 'u list \<Rightarrow> 'u list" where
  "published A ks old = (case first_nonempty A ks of None \<Rightarrow> old | Some ns \<Rightarrow> ns)"

lemma refresh_loop_agreed:
  assumes "url_eq_law U" and "shuffle_law shuf" and "r \<in> set (seed_urls inp)"
    and "refresh_loop U inp net shuf extra reuse g cs us s n outs v = (n', outs', v')"
    and "cs \<noteq> []" and "us \<longrightarrow> r \<in> set cs"
    and "agreed_answers U inp net D A s r" and "outcomes_of A outs"
    and "latest_published_generation v \<le> g"
  shows "live_nodes v' = published A (chain_ops s) (live_nodes v) \<and> outcomes_of A outs'"
  using assms(4-)
proof (induction cs us s n outs v arbitrary: n' outs' v' rule: refresh_induct)
  case (Cons node rest us s n outs v)
  let ?key = "discovery_operation s"
  obtain n1 res v1 where q: "refresh_query U inp net shuf extra reuse g node s n outs v = (n1, res, v1)"
    by (metis prod_cases3)
  note answer = refresh_query_agreed [OF assms(1-3) Cons.prems(4-6) q]
  note loop = Cons.prems(1) [unfolded refresh_loop_Cons [OF q]]
  show ?case
  proof (cases res)
    case None
    with answer(1) have fail: "\<not> is_cluster s" "node \<noteq> r" "v1 = v" by auto
    show ?thesis
    proof (cases "rest = [] \<and> \<not> us")
      case True
      with loop None fail have
        rec: "refresh_loop U inp net shuf extra reuse g (seed_urls inp) True s n1 outs v = (n', outs', v')" by simp
      have "seed_urls inp \<noteq> []" using assms(3) by auto
      from Cons.IH(1) [OF _ rec this _ Cons.prems(4-6)] True assms(3) show ?thesis by simp
    next
      case more: False
      with loop None fail have
        rec: "refresh_loop U inp net shuf extra reuse g rest us s n1 outs v = (n', outs', v')" by auto
      have us: "us \<longrightarrow> r \<in> set rest" using Cons.prems(3) fail by auto
      with more have "rest \<noteq> []" by auto
      from Cons.IH(1) [OF _ rec this us Cons.prems(4-6)] show ?thesis by simp
    qed
  next
    case (Some x)
    with answer(1) have x: "x = A ?key" by auto
    have outs: "outcomes_of A (outs(?key \<mapsto> A ?key))" by (rule outcomes_of_upd [OF Cons.prems(5)])
    show ?thesis
    proof (cases "A ?key = []")
      case False
      with loop Some x answer(2) outs show ?thesis
        by (auto simp: published_def chain_ops_Cons [of s] publish_live_nodes_def Let_def)
    next
      case empty: True
      with answer(3) have v1: "v1 = v" by simp
      show ?thesis
      proof (cases "scope_fallback s")
        case None
        with loop Some x empty v1 outs show ?thesis by (simp add: published_def chain_ops_Cons [of s])
      next
        case (Some f)
        with loop \<open>res = Some x\<close> x empty v1 have
          rec: "refresh_loop U inp net shuf extra reuse g (rest @ [node]) us f n1 (outs(?key \<mapsto> A ?key)) v = (n', outs', v')"
          by simp
        have "us \<longrightarrow> r \<in> set (rest @ [node])" using Cons.prems(3) by auto
        from Cons.IH(2) [OF Some rec _ this agreed_fallback [OF Cons.prems(4) Some] outs Cons.prems(6)]
        show ?thesis using empty by (simp add: published_def chain_ops_Cons [of s] Some)
      qed
    qed
  qed
qed simp

text \<open>
  A refresh leaves the nodes of the first scope of the chain that has any, and keeps the membership
  when no scope has; what it learned is what the cluster is.
\<close>

lemma refresh_agreed:
  assumes upd: "update_live_nodes_from U inp net shuf outs extra reuse v = Some (outs', v')"
    and U: "url_eq_law U" and shuf: "shuffle_law shuf"
    and live: "live_nodes v \<noteq> []" and seed: "r \<in> set (seed_urls inp)"
    and answers: "agreed_answers U inp net D A (view_scope v) r"
    and gen: "latest_published_generation v \<le> next_generation v" and outs: "outcomes_of A outs"
  shows "live_nodes v' = published A (chain_ops (view_scope v)) (live_nodes v) \<and> outcomes_of A outs'"
proof -
  let ?g = "next_generation v + 1"
  let ?v = "v\<lparr>next_generation := ?g\<rparr>"
  from update_loop [OF upd] obtain n where no_ovf: "next_generation v \<noteq> - 1" and loop:
    "refresh_loop U inp net shuf extra reuse ?g (refresh_queue shuf extra v) False (view_scope v) 0 outs ?v = (n, outs', v')"
    by blast
  have ne: "refresh_queue shuf extra v \<noteq> []" using set_refresh_queue [OF shuf, of v extra] live by auto
  have "next_generation v \<le> ?g" using inc_greater [OF no_ovf] by simp
  with gen have g: "latest_published_generation ?v \<le> ?g" by simp
  from refresh_loop_agreed [OF U shuf seed loop ne _ answers outs g] show ?thesis by simp
qed

section \<open>Examples\<close>

text \<open>Chains without a cluster scope: agreement on each scope is all that is asked.\<close>

lemma agreed_scoped:
  "list_all (\<lambda>s. \<not> is_cluster s) (scopes s) \<Longrightarrow>
   agreed_answers U inp net D A s r \<longleftrightarrow> consistent_answers U inp net A (scopes s) r"
  by (auto simp: agreed_answers_def list_ex_iff list_all_iff filter_True)

lemma example_chain:
  "chain_ops example_scope = [Rack ''dc1'' ''r9'', Datacenter ''dc1'']"
  "chain_ops (without_rack example_scope) = [Datacenter ''dc1'']"
  by code_simp+

lemma example_agreed:
  assumes "alternator_scheme inp = ''http''" and "inputs_port inp = None"
  shows "agreed_answers text_url inp example_net D example_answers example_scope r"
    and "agreed_answers text_url inp example_net D example_answers (without_rack example_scope) r"
proof -
  have "list_all (\<lambda>s. \<not> is_cluster s) (scopes example_scope)"
    and no_rack: "list_all (\<lambda>s. \<not> is_cluster s) (scopes (without_rack example_scope))"
    "scopes (without_rack example_scope) = [RoutingScope (Some ''dc1'') None None]"
    by code_simp+
  with example_consistent [OF assms]
  show "agreed_answers text_url inp example_net D example_answers example_scope r" by (simp add: agreed_scoped)
  show "agreed_answers text_url inp example_net D example_answers (without_rack example_scope) r"
    using no_rack(1) by (simp add: agreed_scoped)
      (simp add: no_rack(2) consistent_answers_def example_fetch [OF assms] example_answers_def)
qed

text \<open>A cluster of two datacenters, each with one node that knows only itself.\<close>

definition two_dc_net :: "string network" where
  "two_dc_net n url = (if url = ''http://a/localnodes'' then Some [''a'']
     else if url = ''http://b/localnodes'' then Some [''b''] else None)"

definition two_dc_members :: "string \<Rightarrow> string list" where
  "two_dc_members c = (if c = ''http://a'' \<or> c = ''http://b'' then [c] else [])"

definition two_dc_answers :: "discovery_op \<Rightarrow> string list" where
  "two_dc_answers k = [''http://a'', ''http://b'']"

lemma two_dc_fetch:
  assumes "alternator_scheme inp = ''http''" and "inputs_port inp = None"
  shows "fetch_live_nodes_for_scope text_url inp (two_dc_net n) from_cluster c =
    (if c = ''http://a'' \<or> c = ''http://b'' then Some (two_dc_members c) else None)"
proof -
  have ok: "ok_of (build_node_url text_url ''http'' ''a'' None) = Some ''http://a''"
    "ok_of (build_node_url text_url ''http'' ''b'' None) = Some ''http://b''" by code_simp+
  have "(c @ ''/localnodes'' = ''http://a/localnodes'') = (c @ ''/localnodes'' = ''http://a'' @ ''/localnodes'')"
    "(c @ ''/localnodes'' = ''http://b/localnodes'') = (c @ ''/localnodes'' = ''http://b'' @ ''/localnodes'')"
    by simp_all
  then have url: "(c @ ''/localnodes'' = ''http://a/localnodes'') = (c = ''http://a'')"
    "(c @ ''/localnodes'' = ''http://b/localnodes'') = (c = ''http://b'')"
    by (simp_all only: append_same_eq)
  have path: "build_localnodes_url (set_path_of text_url) (append_query_pair text_url) from_cluster c = c @ ''/localnodes''"
    by (simp add: build_localnodes_url_def from_cluster_def text_url_def)
  show ?thesis
    unfolding fetch_live_nodes_for_scope_def path two_dc_net_def url
    by (simp add: two_dc_members_def host_to_uri_def assms ok List.map_filter_def)
qed

lemma two_dc_agreed:
  assumes "alternator_scheme inp = ''http''" and "inputs_port inp = None"
    and "{''http://a'', ''http://b''} \<subseteq> set (seed_urls inp)"
  shows "agreed_answers text_url inp two_dc_net two_dc_members two_dc_answers from_cluster ''http://a''"
proof -
  have always: "always_answers_cluster text_url inp two_dc_net two_dc_members c"
    if "c = ''http://a'' \<or> c = ''http://b''" for c
    using that by (simp add: always_answers_cluster_def two_dc_fetch [OF assms(1,2)])
  have W: "sorted_wrt (<) (map (as_str text_url) [''http://a'', ''http://b''])" by code_simp
  have "\<exists>q \<in> set (seed_urls inp). always_answers_cluster text_url inp two_dc_net two_dc_members q
      \<and> w \<in> set (two_dc_members q)" if "w = ''http://a'' \<or> w = ''http://b''" for w
    using that assms(3) always [of w] by (intro bexI [of _ w]) (auto simp: two_dc_members_def)
  with W always [of "''http://a''"] have
    "cluster_answers text_url inp two_dc_net two_dc_members [''http://a'', ''http://b''] ''http://a''"
    unfolding cluster_answers_def two_dc_fetch [OF assms(1,2)]
    by (auto simp: two_dc_members_def same_node_def text_url_def split: if_splits)
  then show ?thesis
    by (simp add: agreed_answers_def from_cluster_def is_cluster_def consistent_answers_def two_dc_answers_def)
qed

end
