(* ===== verification/Live_Nodes.thy ===== *)
theory Live_Nodes
  imports Node_View
begin

text \<open>
  The discovery manager and the handles of \<^verbatim>\<open>src/src/live_nodes.rs\<close> (\<^verbatim>\<open>DiscoveryManager\<close>,
  \<^verbatim>\<open>LiveNodes\<close>, \<^verbatim>\<open>DiscoveryTaskGuard\<close>): starting the background task once, handing it over
  between runtimes, recording activity, and reading the views.

  An \<^verbatim>\<open>Arc\<close> of a runtime registration is a reference into \<open>runtimes\<close>, so that
  \<^verbatim>\<open>Arc::ptr_eq\<close> compares references. Spawned futures are tasks of the registry with a
  \<open>task_body\<close> that says what they run; an abort is recorded in \<open>aborted\<close> and takes effect when
  the runtime drops the future. A call reads the clock once (\<open>now\<close>). A failed \<^verbatim>\<open>unwrap\<close> sets
  \<open>unwrap_failed\<close>.
\<close>

section \<open>State\<close>

type_synonym runtime_ref = nat

datatype 'u task_body =
    LoopTask runtime_ref
  | RecheckTask runtime_ref instant
  | AffinityTask "'u discovery_outcomes" "'u list"

record 'u discovery_manager =
  m_tasks :: discovery_tasks
  task_bodies :: "task_id \<Rightarrow> 'u task_body option"
  aborted :: "task_id set"
  active_task :: "task_id option"
  affinity_task :: "task_id option"
  discovery_runtime :: "runtime_ref option"
  runtimes :: "runtime_ref \<Rightarrow> discovery_runtime"
  next_runtime :: runtime_ref
  m_active_interval :: duration
  m_idle_interval :: duration
  last_activity :: instant
  notify :: bool
  m_inputs :: "'u discovery_inputs"
  unwrap_failed :: bool

text \<open>
  The views outlive the manager: a handle owns its view, and an auxiliary handle refers weakly to
  the manager, which is \<open>None\<close> here once its last ordinary handle is gone.
\<close>

record 'u live_state =
  ordinary_view :: "'u node_view"
  affinity_nodes :: "'u node_view option"
  manager :: "'u discovery_manager option"

datatype handle = OrdinaryHandle | AuxiliaryHandle

definition DEFAULT_ACTIVE_REFRESH_INTERVAL :: duration where
  "DEFAULT_ACTIVE_REFRESH_INTERVAL = secs 1"

definition DEFAULT_IDLE_REFRESH_INTERVAL :: duration where
  "DEFAULT_IDLE_REFRESH_INTERVAL = secs 60"

definition new_manager ::
  "'u discovery_inputs \<Rightarrow> duration \<Rightarrow> duration \<Rightarrow> instant \<Rightarrow> 'u discovery_manager" where
  "new_manager inp active idle now =
     \<lparr>m_tasks = new_tasks, task_bodies = Map.empty, aborted = {}, active_task = None,
      affinity_task = None, discovery_runtime = None, runtimes = (\<lambda>_. runtime_new 0), next_runtime = 0,
      m_active_interval = active, m_idle_interval = idle, last_activity = now, notify = False,
      m_inputs = inp, unwrap_failed = False\<rparr>"

section \<open>Spawning and aborting\<close>

definition spawn_task ::
  "runtime_id \<Rightarrow> 'u task_body \<Rightarrow> 'u discovery_manager \<Rightarrow> task_id option \<times> 'u discovery_manager" where
  "spawn_task runtime body m =
     (case spawn runtime (m_tasks m) of
        (None, d) \<Rightarrow> (None, m\<lparr>m_tasks := d\<rparr>)
      | (Some t, d) \<Rightarrow> (Some t, m\<lparr>m_tasks := d, task_bodies := (task_bodies m)(t \<mapsto> body)\<rparr>))"

definition abort_task :: "task_id option \<Rightarrow> 'u discovery_manager \<Rightarrow> 'u discovery_manager" where
  "abort_task t m = m\<lparr>aborted := aborted m \<union> set_option t\<rparr>"

definition is_finished :: "'u discovery_manager \<Rightarrow> task_id \<Rightarrow> bool" where
  "is_finished m t \<longleftrightarrow> t \<notin> tracked (m_tasks m)"

section \<open>Ownership of the discovery task\<close>

definition mark_activity :: "instant \<Rightarrow> 'u discovery_manager \<Rightarrow> 'u discovery_manager" where
  "mark_activity now m =
     (let was_idle = m_idle_interval m < now - last_activity m
      in m\<lparr>last_activity := now, notify := notify m \<or> was_idle\<rparr>)"

definition set_runtime ::
  "runtime_ref \<Rightarrow> discovery_runtime \<Rightarrow> 'u discovery_manager \<Rightarrow> 'u discovery_manager" where
  "set_runtime ref r m = m\<lparr>runtimes := (runtimes m)(ref := r)\<rparr>"

text \<open>
  The second half of \<^verbatim>\<open>retain_discovery_owner\<close>, which takes the lock of the probe again: a probe
  that is pending gets a recheck task, unless one is running.
\<close>

definition arrange_recheck :: "runtime_id \<Rightarrow> runtime_ref \<Rightarrow> 'u discovery_manager \<Rightarrow> 'u discovery_manager" where
  "arrange_recheck rid ref m =
     (let r = runtimes m ref
      in if \<not> pending (probe r)
            \<or> (case recheck_task (probe r) of None \<Rightarrow> False | Some t \<Rightarrow> \<not> is_finished m t)
         then m
         else case last_started (probe r) of
             None \<Rightarrow> m\<lparr>unwrap_failed := True\<rparr>
           | Some st \<Rightarrow>
               (let (t, m') = spawn_task rid (RecheckTask ref (st + SHUTDOWN_PROBE_INTERVAL)) m
                in set_runtime ref (r\<lparr>probe := (probe r)\<lparr>recheck_task := t\<rparr>\<rparr>) m'))"

definition retain_discovery_owner ::
  "runtime_ref \<Rightarrow> runtime_id \<Rightarrow> instant \<Rightarrow> 'u discovery_manager \<Rightarrow> bool \<times> 'u discovery_manager" where
  "retain_discovery_owner ref rid now m =
     (if rt_id (runtimes m ref) = rid then (True, m)
      else let (handoff, r) = should_handoff_at (runtimes m ref) now; m1 = set_runtime ref r m
           in if handoff then (False, m1) else (True, arrange_recheck rid ref m1))"

definition retain_current ::
  "runtime_id \<Rightarrow> instant \<Rightarrow> 'u discovery_manager \<Rightarrow> bool \<times> 'u discovery_manager" where
  "retain_current rid now m =
     (case discovery_runtime m of
        None \<Rightarrow> (False, m)
      | Some ref \<Rightarrow> retain_discovery_owner ref rid now m)"

text \<open>\<^verbatim>\<open>DiscoveryTaskGuard::drop\<close>: the end of a discovery loop clears only its own registration.\<close>

definition guard_drop :: "runtime_ref \<Rightarrow> 'u discovery_manager \<Rightarrow> 'u discovery_manager" where
  "guard_drop ref m =
     (let m1 = set_runtime ref (runtime_stop (runtimes m ref)) m
      in if discovery_runtime m1 = Some ref then m1\<lparr>discovery_runtime := None\<rparr> else m1)"

text \<open>
  The cold start or transfer, after the registration was looked at a second time. A refused spawn
  drops the future, and with it the guard that the future owns.
\<close>

definition start_discovery ::
  "runtime_id \<Rightarrow> instant \<Rightarrow> 'u discovery_manager \<Rightarrow> 'u discovery_manager" where
  "start_discovery rid now m =
     (let m1 = (abort_task (active_task m) m)\<lparr>active_task := None\<rparr>;
          m2 = (abort_task (affinity_task m1) m1)\<lparr>affinity_task := None\<rparr>;
          ref = next_runtime m2;
          m3 = (set_runtime ref (runtime_new rid) m2)
                 \<lparr>next_runtime := Suc ref, discovery_runtime := Some ref\<rparr>;
          m4 = mark_activity now m3;
          (task, m5) = spawn_task rid (LoopTask ref) m4;
          m6 = (if task = None then guard_drop ref m5 else m5)
      in m6\<lparr>active_task := task\<rparr>)"

text \<open>The part of \<^verbatim>\<open>ensure_discovery_started\<close> that holds the start/transfer mutex.\<close>

definition ensure_locked ::
  "runtime_id \<Rightarrow> instant \<Rightarrow> 'u discovery_manager \<Rightarrow> 'u discovery_manager" where
  "ensure_locked rid now m =
     (let (retained, m1) = retain_current rid now m
      in if retained then m1 else start_discovery rid now m1)"

text \<open>\<open>rt\<close> is the calling thread's Tokio runtime, \<open>None\<close> outside of one.\<close>

definition ensure_discovery_started ::
  "runtime_id option \<Rightarrow> instant \<Rightarrow> 'u discovery_manager \<Rightarrow> 'u discovery_manager" where
  "ensure_discovery_started rt now m =
     (if is_stopped (m_tasks m) then m
      else case rt of
          None \<Rightarrow> m
        | Some rid \<Rightarrow>
            let (retained, m1) = retain_current rid now m
            in if retained then m1 else ensure_locked rid now m1)"

text \<open>The body of the recheck task, run at its deadline on its own runtime.\<close>

definition run_recheck ::
  "runtime_ref \<Rightarrow> runtime_id \<Rightarrow> instant \<Rightarrow> 'u discovery_manager \<Rightarrow> 'u discovery_manager" where
  "run_recheck owner rid now m =
     (if pending (probe (runtimes m owner))
         \<and> (discovery_runtime m = None \<or> discovery_runtime m = Some owner)
      then ensure_discovery_started (Some rid) now m else m)"

text \<open>\<^verbatim>\<open>Drop for DiscoveryManager\<close>.\<close>

definition manager_drop :: "'u discovery_manager \<Rightarrow> 'u discovery_manager" where
  "manager_drop m =
     (let m1 = (abort_task (active_task m) m)\<lparr>active_task := None\<rparr>
      in (abort_task (affinity_task m1) m1)\<lparr>affinity_task := None\<rparr>)"

section \<open>One round of the discovery loop\<close>

definition start_affinity_refresh ::
  "'u discovery_outcomes \<Rightarrow> runtime_ref \<Rightarrow> 'u live_state \<Rightarrow> 'u discovery_manager \<Rightarrow> 'u discovery_manager" where
  "start_affinity_refresh outs ref st m =
     (if affinity_nodes st = None then m
      else if discovery_runtime m \<noteq> Some ref then m
      else if (case affinity_task m of None \<Rightarrow> False | Some t \<Rightarrow> \<not> is_finished m t) then m
      else let (t, m') = spawn_task (rt_id (runtimes m ref)) (AffinityTask outs (live_nodes (ordinary_view st))) m
           in m'\<lparr>affinity_task := t\<rparr>)"

definition run_affinity_task ::
  "('u, 'x) url_api_scheme \<Rightarrow> 'u discovery_inputs \<Rightarrow> 'u network \<Rightarrow> 'u shuffler \<Rightarrow> 'u discovery_outcomes \<Rightarrow>
   'u list \<Rightarrow> 'u live_state \<Rightarrow> 'u live_state option" where
  "run_affinity_task U inp net shuf outs cands st =
     (case affinity_nodes st of
        None \<Rightarrow> Some st
      | Some v \<Rightarrow>
          map_option (\<lambda>(outs', v'). st\<lparr>affinity_nodes := Some v'\<rparr>)
            (update_live_nodes_from U inp net shuf outs cands True v))"

definition update_live_nodes ::
  "('u, 'x) url_api_scheme \<Rightarrow> 'u network \<Rightarrow> 'u shuffler \<Rightarrow> 'u node_view \<Rightarrow> 'u discovery_manager \<Rightarrow>
   ('u discovery_outcomes \<times> 'u node_view) option" where
  "update_live_nodes U net shuf ordinary m =
     update_live_nodes_from U (m_inputs m) net shuf Map.empty [] False ordinary"

text \<open>
  The pause after a refresh: \<open>seen\<close> is the copy of \<^verbatim>\<open>last_activity\<close> that the loop took under its
  lock, \<open>now\<close> the clock that \<^verbatim>\<open>last.elapsed()\<close> reads afterwards.
\<close>

definition refresh_interval :: "instant \<Rightarrow> instant \<Rightarrow> 'u discovery_manager \<Rightarrow> duration" where
  "refresh_interval seen now m =
     (let is_idle = m_idle_interval m \<le> now - seen
      in if is_idle then m_idle_interval m else m_active_interval m)"

text \<open>
  The pause itself, polled at \<open>now\<close> when it began at \<open>start\<close>: \<open>None\<close> while it is pending, else the
  manager that is left, whose permit is used up if the notification ended the pause. \<^verbatim>\<open>select!\<close>
  picks its first branch at random (\<open>notified_first\<close>).
\<close>

definition loop_sleep ::
  "bool \<Rightarrow> duration \<Rightarrow> instant \<Rightarrow> instant \<Rightarrow> 'u discovery_manager \<Rightarrow> 'u discovery_manager option" where
  "loop_sleep notified_first interval start now m =
     (let elapsed = start + interval \<le> now
      in if elapsed \<and> \<not> (notified_first \<and> notify m) then Some m
         else if notify m then Some (m\<lparr>notify := False\<rparr>)
         else None)"

text \<open>
  One iteration of the spawned loop: \<open>None\<close> is the panic of a generation overflow, the first
  component of the result is the interval slept before the next iteration. No other thread runs
  between its refresh and its look at the clock; \<open>refresh_interval\<close> has the general case.
\<close>

definition loop_iteration ::
  "('u, 'x) url_api_scheme \<Rightarrow> 'u network \<Rightarrow> 'u shuffler \<Rightarrow> runtime_ref \<Rightarrow> instant \<Rightarrow> 'u live_state \<Rightarrow>
   (duration option \<times> 'u live_state) option" where
  "loop_iteration U net shuf ref now st =
     (case manager st of
        None \<Rightarrow> Some (None, st)
      | Some m \<Rightarrow>
          (case update_live_nodes U net shuf (ordinary_view st) m of
             None \<Rightarrow> None
           | Some (outs, v) \<Rightarrow>
               let st1 = st\<lparr>ordinary_view := v\<rparr>;
                   m1 = start_affinity_refresh outs ref st1 m
               in Some (Some (refresh_interval (last_activity m1) now m1), st1\<lparr>manager := Some m1\<rparr>)))"

section \<open>Handles\<close>

definition view_of :: "handle \<Rightarrow> 'u live_state \<Rightarrow> 'u node_view" where
  "view_of h st = (case h of OrdinaryHandle \<Rightarrow> ordinary_view st
     | AuxiliaryHandle \<Rightarrow> (case affinity_nodes st of Some v \<Rightarrow> v | None \<Rightarrow> ordinary_view st))"

definition set_view :: "handle \<Rightarrow> 'u node_view \<Rightarrow> 'u live_state \<Rightarrow> 'u live_state" where
  "set_view h v st = (case h of OrdinaryHandle \<Rightarrow> st\<lparr>ordinary_view := v\<rparr>
     | AuxiliaryHandle \<Rightarrow> (case affinity_nodes st of
         Some _ \<Rightarrow> st\<lparr>affinity_nodes := Some v\<rparr> | None \<Rightarrow> st\<lparr>ordinary_view := v\<rparr>))"

definition affinity_view :: "'u live_state \<Rightarrow> handle \<times> 'u live_state" where
  "affinity_view st =
     (if \<not> has_rack_restriction (view_scope (ordinary_view st)) then (OrdinaryHandle, st)
      else case manager st of
          None \<Rightarrow> (OrdinaryHandle, st)
        | Some m \<Rightarrow>
            (AuxiliaryHandle,
             case affinity_nodes st of
               Some v \<Rightarrow> st
             | None \<Rightarrow> st\<lparr>affinity_nodes := Some (view_new
                 (without_rack (view_scope (ordinary_view st))) (seed_urls (m_inputs m)))\<rparr>))"

definition uses_http :: "('u, 'x) url_api_scheme \<Rightarrow> 'u live_state \<Rightarrow> bool" where
  "uses_http U st =
     (case manager st of
        None \<Rightarrow> False
      | Some m \<Rightarrow> (case seed_urls (m_inputs m) of [] \<Rightarrow> False | u # _ \<Rightarrow> url_scheme U u = ''http''))"

definition access :: "runtime_id option \<Rightarrow> instant \<Rightarrow> 'u live_state \<Rightarrow> 'u live_state" where
  "access rt now st =
     st\<lparr>manager := map_option (\<lambda>m. mark_activity now (ensure_discovery_started rt now m)) (manager st)\<rparr>"

definition get_live_nodes ::
  "handle \<Rightarrow> runtime_id option \<Rightarrow> instant \<Rightarrow> 'u live_state \<Rightarrow> 'u list \<times> 'u live_state" where
  "get_live_nodes h rt now st =
     (let st1 = access rt now st in (live_nodes (view_of h st1), st1))"

definition get_next_node_round_robin ::
  "handle \<Rightarrow> runtime_id option \<Rightarrow> instant \<Rightarrow> 'u set \<Rightarrow> 'u live_state \<Rightarrow> 'u option \<times> 'u live_state" where
  "get_next_node_round_robin h rt now used st =
     (let st1 = access rt now st; (x, v) = view_next_node used (view_of h st1)
      in (x, set_view h v st1))"

section \<open>What a query plan relies on\<close>

text \<open>
  The contract of a node source: it has a membership that its own calls do not change, it hands
  out an unused member as long as there is one, and it can list the membership. A call carries
  its context \<open>'c\<close> (thread and time).
\<close>

locale node_source =
  fixes members :: "'s \<Rightarrow> 'u list"
    and next_of :: "'c \<Rightarrow> 'u set \<Rightarrow> 's \<Rightarrow> 'u option \<times> 's"
    and list_of :: "'c \<Rightarrow> 's \<Rightarrow> 'u list \<times> 's"
  assumes next_None: "fst (next_of c used s) = None \<longleftrightarrow> set (members s) \<subseteq> used"
    and next_Some: "fst (next_of c used s) = Some x \<Longrightarrow> x \<in> set (members s) \<and> x \<notin> used"
    and next_members [simp]: "members (snd (next_of c used s)) = members s"
    and list_members [simp]: "fst (list_of c s) = members s" "members (snd (list_of c s)) = members s"
begin

text \<open>
  A pass: one pick per call, every pick is added to the used nodes; before each call other users
  of the source act, as the given state change.
\<close>

fun rr_walk :: "('c \<times> ('s \<Rightarrow> 's)) list \<Rightarrow> 'u set \<Rightarrow> 's \<Rightarrow> 'u option list \<times> 'u set \<times> 's" where
  "rr_walk [] used s = ([], used, s)"
| "rr_walk ((c, env) # es) used s =
     (let (x, s') = next_of c used (env s);
          (xs, r) = rr_walk es (used \<union> set_option x) s'
      in (x # xs, r))"

lemma rr_walk_covers:
  assumes "\<And>c env s. (c, env) \<in> set es \<Longrightarrow> members (env s) = members s"
    and "length es = card (set (members s) - used)"
  shows "\<exists>xs s'. rr_walk es used s = (map Some xs, used \<union> set xs, s') \<and> distinct xs
    \<and> set xs = set (members s) - used \<and> members s' = members s"
  using assms
proof (induction es arbitrary: used s)
  case Nil
  then show ?case by simp
next
  case (Cons e es)
  obtain c env where e: "e = (c, env)" by (cases e)
  have m: "members (env s) = members s" using Cons.prems(1) [of c env s] e by simp
  have "set (members s) - used \<noteq> {}" using Cons.prems(2) by (metis card.empty length_0_conv list.distinct(1))
  then obtain x s1 where n: "next_of c used (env s) = (Some x, s1)"
    using next_None [of c used "env s"] m by (cases "next_of c used (env s)") auto
  then have x: "x \<in> set (members s)" "x \<notin> used" and m1: "members s1 = members s"
    using next_Some [of c used "env s" x] next_members [of c used "env s"] m by auto
  let ?used = "used \<union> set_option (Some x)"
  have "set (members s1) - ?used = (set (members s) - used) - {x}" using m1 by auto
  then have "length es = card (set (members s1) - ?used)"
    using Cons.prems(2) x by simp
  then obtain xs s' where "rr_walk es ?used s1 = (map Some xs, ?used \<union> set xs, s')" "distinct xs"
    "set xs = set (members s1) - ?used" "members s' = members s1"
    using Cons.IH [of s1 ?used] Cons.prems(1) by (metis list.set_intros(2))
  then have "rr_walk (e # es) used s = (map Some (x # xs), used \<union> set (x # xs), s')
      \<and> distinct (x # xs) \<and> set (x # xs) = set (members s) - used \<and> members s' = members s"
    using n m1 x by (auto simp: e)
  then show ?case by blast
qed

end

lemma access_frame [simp]:
  "ordinary_view (access rt now st) = ordinary_view st"
  "affinity_nodes (access rt now st) = affinity_nodes st"
  by (simp_all add: access_def)

lemma view_of_access [simp]: "view_of h (access rt now st) = view_of h st"
  by (simp add: view_of_def split: handle.split option.split)

lemma view_of_set_view [simp]: "view_of h (set_view h v st) = v"
  by (auto simp: view_of_def set_view_def split: handle.split option.split)

type_synonym call = "runtime_id option \<times> instant"

interpretation handle_source:
  node_source "\<lambda>st. live_nodes (view_of h st)" "\<lambda>(rt, now). get_next_node_round_robin h rt now"
    "\<lambda>(rt, now). get_live_nodes h rt now"
  for h
  by unfold_locales (auto simp: get_next_node_round_robin_def get_live_nodes_def Let_def split_def
      view_next_node_None dest: view_next_node_Some)

end
