(* ===== verification/Discovery_Manager.thy ===== *)
theory Discovery_Manager
  imports Live_Nodes
begin

text \<open>
  The background discovery of one client as a transition system: every interleaving of calls that
  ensure discovery, polls of the owning task, task ends, recheck timers, affinity refreshes and the
  client's stop. The invariant \<open>mgr_inv\<close> ties the task registry, the recorded handles and the
  runtime registration together; the properties are its consequences.
\<close>

section \<open>Events\<close>

text \<open>
  A call of \<^verbatim>\<open>ensure_discovery_started\<close> is the event \<open>Ensure\<close>; its critical sections (asking the
  owner, arranging a recheck, the part under the mutex) are also events of their own, which may
  happen at any time, as they do between the checks of a call that other threads overtake.
\<close>

datatype 'u mgr_event =
    Ensure "runtime_id option" instant
  | ProbeOwner runtime_ref instant
  | ArrangeRecheck runtime_id runtime_ref
  | EnsureLocked runtime_id instant
  | MarkActivity instant
  | StopTasks
  | OwnerPolled runtime_ref
  | LoopEnds task_id
  | TaskEnds task_id
  | RecheckFires task_id instant
  | AffinityRefresh "'u discovery_outcomes" runtime_ref "'u live_state"

definition drop_tracked :: "task_id \<Rightarrow> 'u discovery_manager \<Rightarrow> 'u discovery_manager" where
  "drop_tracked t m = m\<lparr>m_tasks := drop_task t (m_tasks m)\<rparr>"

fun mgr_step :: "'u discovery_manager \<Rightarrow> 'u mgr_event \<Rightarrow> 'u discovery_manager" where
  "mgr_step m (Ensure rt now) = ensure_discovery_started rt now m"
| "mgr_step m (ProbeOwner ref now) = set_runtime ref (snd (should_handoff_at (runtimes m ref) now)) m"
| "mgr_step m (ArrangeRecheck rid ref) = arrange_recheck rid ref m"
| "mgr_step m (EnsureLocked rid now) = ensure_locked rid now m"
| "mgr_step m (MarkActivity now) = mark_activity now m"
| "mgr_step m StopTasks = m\<lparr>m_tasks := stop (m_tasks m)\<rparr>"
| "mgr_step m (OwnerPolled ref) =
     (let (r, ab) = poll_with_probes (runtimes m ref) in abort_task ab (set_runtime ref r m))"
| "mgr_step m (LoopEnds t) =
     (if is_finished m t then m
      else case task_bodies m t of
          Some (LoopTask ref) \<Rightarrow> drop_tracked t (guard_drop ref m)
        | _ \<Rightarrow> m)"
| "mgr_step m (TaskEnds t) =
     (case task_bodies m t of Some (LoopTask ref) \<Rightarrow> m | _ \<Rightarrow> drop_tracked t m)"
| "mgr_step m (RecheckFires t now) =
     (if is_finished m t \<or> t \<in> aborted m \<or> cancelled (m_tasks m) then m
      else case (task_bodies m t, spawned_on (m_tasks m) t) of
          (Some (RecheckTask owner deadline), Some rid) \<Rightarrow>
            if deadline \<le> now then drop_tracked t (run_recheck owner rid now m) else m
        | _ \<Rightarrow> m)"
| "mgr_step m (AffinityRefresh outs ref st) = start_affinity_refresh outs ref st m"

section \<open>Invariant\<close>

definition loop_task :: "'u discovery_manager \<Rightarrow> task_id \<Rightarrow> runtime_ref \<Rightarrow> bool" where
  "loop_task m t ref \<longleftrightarrow> t \<in> tracked (m_tasks m) \<and> task_bodies m t = Some (LoopTask ref)"

definition known_ids :: "'u discovery_manager \<Rightarrow> bool" where
  "known_ids m \<longleftrightarrow>
     tasks_inv (m_tasks m) \<and> aborted m \<subseteq> {..<next_task (m_tasks m)}
     \<and> dom (task_bodies m) = {..<next_task (m_tasks m)}
     \<and> (\<forall>t ref. task_bodies m t = Some (LoopTask ref) \<longrightarrow> ref < next_runtime m)"

definition handles_ok :: "'u discovery_manager \<Rightarrow> bool" where
  "handles_ok m \<longleftrightarrow>
     (\<forall>ref t. recheck_task (probe (runtimes m ref)) = Some t \<longrightarrow>
        (\<exists>owner d. task_bodies m t = Some (RecheckTask owner d)))
     \<and> (\<forall>t. affinity_task m = Some t \<longrightarrow> (\<exists>outs us. task_bodies m t = Some (AffinityTask outs us)))
     \<and> (\<forall>t. active_task m = Some t \<longrightarrow> (\<exists>ref. task_bodies m t = Some (LoopTask ref)))"

definition owner_ok :: "'u discovery_manager \<Rightarrow> bool" where
  "owner_ok m \<longleftrightarrow>
     (\<forall>t t' ref. loop_task m t ref \<longrightarrow> loop_task m t' ref \<longrightarrow> t = t')
     \<and> (\<forall>t ref. loop_task m t ref \<longrightarrow> t \<notin> aborted m \<longrightarrow>
          active_task m = Some t \<and> discovery_runtime m = Some ref)
     \<and> (\<forall>ref. discovery_runtime m = Some ref \<longrightarrow>
          \<not> rt_stopped (runtimes m ref) \<and> (\<exists>t. loop_task m t ref \<and> t \<notin> aborted m))"

definition runtimes_ok :: "'u discovery_manager \<Rightarrow> bool" where
  "runtimes_ok m \<longleftrightarrow> (\<forall>ref. runtime_inv (runtimes m ref)) \<and> \<not> unwrap_failed m"

definition mgr_inv :: "'u discovery_manager \<Rightarrow> bool" where
  "mgr_inv m \<longleftrightarrow> known_ids m \<and> handles_ok m \<and> owner_ok m \<and> runtimes_ok m"

lemmas mgr_inv_defs = mgr_inv_def known_ids_def handles_ok_def owner_ok_def runtimes_ok_def

lemma mgr_inv_new: "mgr_inv (new_manager inp active idle now)"
  by (simp add: mgr_inv_defs new_manager_def loop_task_def tasks_inv_def new_tasks_def
      runtime_inv_def runtime_new_def)

text \<open>A task that is neither a loop nor recorded yet changes nothing of the ownership.\<close>

lemma known_fresh:
  "known_ids m \<Longrightarrow> task_bodies m (next_task (m_tasks m)) = None \<and> next_task (m_tasks m) \<notin> aborted m
     \<and> next_task (m_tasks m) \<notin> tracked (m_tasks m)"
  by (auto simp: known_ids_def tasks_inv_def)

lemma spawn_task_stopped: "is_stopped (m_tasks m) \<Longrightarrow> spawn_task w b m = (None, m)"
  by (simp add: spawn_task_def spawn_def)

lemma spawn_task_open:
  "\<not> is_stopped (m_tasks m) \<Longrightarrow> spawn_task w b m =
     (Some (next_task (m_tasks m)),
      m\<lparr>m_tasks := (m_tasks m)\<lparr>tracked := insert (next_task (m_tasks m)) (tracked (m_tasks m)),
                                next_task := Suc (next_task (m_tasks m)),
                                spawned_on := (spawned_on (m_tasks m))(next_task (m_tasks m) \<mapsto> w)\<rparr>,
        task_bodies := (task_bodies m)(next_task (m_tasks m) \<mapsto> b)\<rparr>)"
  by (simp add: spawn_task_def spawn_def)

lemma loop_task_spawned:
  assumes "known_ids m" and "spawn_task w b m = (t, m')"
  shows "loop_task m' x ref \<longleftrightarrow> loop_task m x ref \<or> t = Some x \<and> b = LoopTask ref"
proof (cases "is_stopped (m_tasks m)")
  case True
  then show ?thesis using assms by (auto simp: spawn_task_stopped)
next
  case False
  then show ?thesis using assms(2) known_fresh [OF assms(1)]
    by (auto simp: spawn_task_open loop_task_def split: if_splits)
qed

lemma mgr_inv_spawn_other:
  assumes "mgr_inv m" and "\<And>ref. b \<noteq> LoopTask ref" and "spawn_task w b m = (t, m')"
  shows "mgr_inv m'"
proof (cases "is_stopped (m_tasks m)")
  case True
  then show ?thesis using assms by (auto simp: spawn_task_stopped)
next
  case False
  have k: "known_ids m" using assms(1) by (simp add: mgr_inv_def)
  let ?n = "next_task (m_tasks m)"
  have m': "t = Some ?n" "m' = snd (spawn_task w b m)"
    using assms(3) False by (auto simp: spawn_task_open)
  have lt: "loop_task m' x ref = loop_task m x ref" for x ref
    using loop_task_spawned [OF k assms(3)] assms(2) by auto
  have "known_ids m'" using k assms(2) m' False
    by (auto simp: known_ids_def spawn_task_open tasks_inv_def lessThan_Suc)
  moreover have "handles_ok m'"
    using assms(1) known_fresh [OF k] m' False unfolding mgr_inv_def handles_ok_def
    by (simp add: spawn_task_open) (metis option.distinct(1))
  moreover have "owner_ok m'"
    using assms(1) lt m' False unfolding mgr_inv_def owner_ok_def by (simp add: spawn_task_open)
  moreover have "runtimes_ok m'"
    using assms(1) m' False by (simp add: mgr_inv_def runtimes_ok_def spawn_task_open)
  ultimately show ?thesis by (simp add: mgr_inv_def)
qed

lemma mgr_inv_set_runtime:
  assumes "mgr_inv m" and "runtime_inv r" and "rt_stopped r = rt_stopped (runtimes m ref)"
    and "\<And>t. recheck_task (probe r) = Some t \<Longrightarrow> \<exists>owner d. task_bodies m t = Some (RecheckTask owner d)"
  shows "mgr_inv (set_runtime ref r m)"
  using assms unfolding mgr_inv_defs set_runtime_def loop_task_def by simp


section \<open>Preservation\<close>

lemma mgr_inv_handoff:
  assumes "mgr_inv m"
  shows "mgr_inv (set_runtime ref (snd (should_handoff_at (runtimes m ref) now)) m)"
proof (rule mgr_inv_set_runtime [OF assms])
  show "runtime_inv (snd (should_handoff_at (runtimes m ref) now))"
    using assms by (auto simp: mgr_inv_def runtimes_ok_def intro: inv_intros)
  show "\<exists>owner d. task_bodies m t = Some (RecheckTask owner d)"
    if "recheck_task (probe (snd (should_handoff_at (runtimes m ref) now))) = Some t" for t
  proof -
    have "recheck_task (probe (snd (should_handoff_at (runtimes m ref) now)))
        = recheck_task (probe (runtimes m ref))"
      by (simp add: should_handoff_at_def Let_def)
    with that assms show ?thesis by (auto simp: mgr_inv_def handles_ok_def)
  qed
qed simp

lemma spawn_task_frame:
  assumes "spawn_task w b m = (t, m')"
  shows "runtimes m' = runtimes m" "unwrap_failed m' = unwrap_failed m" "next_runtime m' = next_runtime m"
    "t = Some x \<Longrightarrow> task_bodies m' x = Some b"
    "discovery_runtime m' = discovery_runtime m" "is_stopped (m_tasks m') = is_stopped (m_tasks m)"
    "active_task m' = active_task m" "aborted m' = aborted m"
  using assms by (cases "is_stopped (m_tasks m)";
      auto simp: spawn_task_stopped spawn_task_open is_stopped_def)+

lemma mgr_inv_arrange:
  assumes "mgr_inv m"
  shows "mgr_inv (arrange_recheck rid ref m)"
proof (cases "\<not> pending (probe (runtimes m ref))
      \<or> (case recheck_task (probe (runtimes m ref)) of None \<Rightarrow> False | Some t \<Rightarrow> \<not> is_finished m t)")
  case True
  then have "arrange_recheck rid ref m = m" by (simp add: arrange_recheck_def Let_def)
  with assms show ?thesis by simp
next
  case probe: False
  let ?r = "runtimes m ref"
  have ri: "runtime_inv ?r" using assms by (simp add: mgr_inv_def runtimes_ok_def)
  obtain st where st: "last_started (probe ?r) = Some st" using ri probe by (auto simp: runtime_inv_def)
  obtain t m2 where sp: "spawn_task rid (RecheckTask ref (st + SHUTDOWN_PROBE_INTERVAL)) m = (t, m2)"
    by (cases "spawn_task rid (RecheckTask ref (st + SHUTDOWN_PROBE_INTERVAL)) m")
  have res: "arrange_recheck rid ref m = set_runtime ref (?r\<lparr>probe := (probe ?r)\<lparr>recheck_task := t\<rparr>\<rparr>) m2"
    unfolding arrange_recheck_def Let_def if_not_P [OF probe] st option.case sp by simp
  have "mgr_inv m2" using mgr_inv_spawn_other [OF assms _ sp] by simp
  moreover have "runtime_inv (?r\<lparr>probe := (probe ?r)\<lparr>recheck_task := t\<rparr>\<rparr>)"
    using ri by (auto simp: runtime_inv_def)
  ultimately show ?thesis unfolding res
    using spawn_task_frame [OF sp] by (intro mgr_inv_set_runtime) auto
qed

lemma mgr_inv_retain:
  assumes "mgr_inv m"
  shows "mgr_inv (snd (retain_discovery_owner ref rid now m))"
  using assms mgr_inv_handoff [OF assms, of ref now]
  by (auto simp: retain_discovery_owner_def Let_def split_def intro: mgr_inv_arrange)

lemma mgr_inv_retain_current: "mgr_inv m \<Longrightarrow> mgr_inv (snd (retain_current rid now m))"
  by (auto simp: retain_current_def mgr_inv_retain split: option.split)

lemma mgr_inv_mark_activity: "mgr_inv (mark_activity now m) = mgr_inv m"
  by (simp add: mgr_inv_defs mark_activity_def loop_task_def Let_def)

lemma retain_current_stopped [simp]:
  "is_stopped (m_tasks (snd (retain_current rid now m))) = is_stopped (m_tasks m)"
  by (auto simp: retain_current_def retain_discovery_owner_def arrange_recheck_def set_runtime_def Let_def
      split_def spawn_task_def spawn_def is_stopped_def split: option.split if_splits)

lemma start_discovery_open:
  assumes "\<not> is_stopped (m_tasks m)"
  shows "start_discovery rid now m =
    (let n = next_task (m_tasks m); ref = next_runtime m;
         b = mark_activity now m
     in b\<lparr>m_tasks := (m_tasks m)\<lparr>tracked := insert n (tracked (m_tasks m)), next_task := Suc n,
            spawned_on := (spawned_on (m_tasks m))(n \<mapsto> rid)\<rparr>,
          task_bodies := (task_bodies m)(n \<mapsto> LoopTask ref),
          aborted := aborted m \<union> set_option (active_task m) \<union> set_option (affinity_task m),
          active_task := Some n, affinity_task := None,
          discovery_runtime := Some ref, runtimes := (runtimes m)(ref := runtime_new rid),
          next_runtime := Suc ref\<rparr>)"
  using assms
  by (simp add: start_discovery_def Let_def abort_task_def set_runtime_def mark_activity_def
      spawn_task_open)

lemma mgr_inv_start:
  assumes inv: "mgr_inv m" and adm: "\<not> is_stopped (m_tasks m)"
  shows "mgr_inv (start_discovery rid now m)" (is "mgr_inv ?m'")
proof -
  let ?n = "next_task (m_tasks m)" and ?ref = "next_runtime m"
  note eq = start_discovery_open [OF adm, of rid now, unfolded Let_def]
  have k: "known_ids m" and h: "handles_ok m" and o: "owner_ok m"
    using inv by (auto simp: mgr_inv_def)
  note fresh = known_fresh [OF k]
  have lt: "loop_task ?m' x r \<longleftrightarrow> loop_task m x r \<or> x = ?n \<and> r = ?ref" for x r
    unfolding eq loop_task_def mark_activity_def Let_def using fresh by auto
  have old: "loop_task m x r \<Longrightarrow> r < ?ref" for x r
    using k by (auto simp: known_ids_def loop_task_def)
  have dom: "task_bodies m t \<noteq> None \<Longrightarrow> t < ?n" for t
    using k by (auto simp: known_ids_def dom_def)
  have act: "active_task m = Some t \<Longrightarrow> t < ?n" "affinity_task m = Some t \<Longrightarrow> t < ?n" for t
    using h dom by (fastforce simp: handles_ok_def)+
  have "known_ids ?m'"
    unfolding known_ids_def eq mark_activity_def Let_def using k act
    by (auto simp: known_ids_def tasks_inv_def lessThan_Suc less_Suc_eq)
  moreover have "handles_ok ?m'"
    unfolding handles_ok_def eq mark_activity_def Let_def using h fresh
    by (simp add: handles_ok_def runtime_new_def) (metis option.distinct(1))
  moreover have "owner_ok ?m'"
    unfolding owner_ok_def lt unfolding eq mark_activity_def Let_def using o old fresh act
    by (auto simp: owner_ok_def loop_task_def runtime_new_def)
  moreover have "runtimes_ok ?m'"
    unfolding runtimes_ok_def eq mark_activity_def Let_def using inv
    by (auto simp: mgr_inv_def runtimes_ok_def intro: inv_intros)
  ultimately show ?thesis by (simp add: mgr_inv_def)
qed

text \<open>The client is stopped while a caller waits for the mutex: the spawn is refused.\<close>

lemma start_discovery_stopped:
  assumes "is_stopped (m_tasks m)"
  shows "start_discovery rid now m =
    (let ref = next_runtime m; b = mark_activity now m
     in b\<lparr>aborted := aborted m \<union> set_option (active_task m) \<union> set_option (affinity_task m),
          active_task := None, affinity_task := None, discovery_runtime := None,
          runtimes := (runtimes m)(ref := runtime_stop (runtime_new rid)), next_runtime := Suc ref\<rparr>)"
  using assms
  by (simp add: start_discovery_def Let_def abort_task_def set_runtime_def mark_activity_def
      spawn_task_stopped guard_drop_def)

lemma mgr_inv_start_stopped:
  assumes inv: "mgr_inv m" and stopped: "is_stopped (m_tasks m)"
  shows "mgr_inv (start_discovery rid now m)" (is "mgr_inv ?m'")
proof -
  note eq = start_discovery_stopped [OF stopped, of rid now, unfolded Let_def mark_activity_def]
  have k: "known_ids m" and h: "handles_ok m" and o: "owner_ok m"
    using inv by (auto simp: mgr_inv_def)
  have lt: "loop_task ?m' x r \<longleftrightarrow> loop_task m x r" for x r
    unfolding eq loop_task_def by simp
  have act: "active_task m = Some t \<Longrightarrow> t < next_task (m_tasks m)"
    "affinity_task m = Some t \<Longrightarrow> t < next_task (m_tasks m)" for t
    using h k by (fastforce simp: handles_ok_def known_ids_def dom_def)+
  have "known_ids ?m'" unfolding known_ids_def eq using k act by (auto simp: known_ids_def less_Suc_eq)
  moreover have "handles_ok ?m'"
    unfolding handles_ok_def eq using h by (simp add: handles_ok_def runtime_new_def runtime_stop_def)
  moreover have "owner_ok ?m'"
    unfolding owner_ok_def lt unfolding eq using o by (auto simp: owner_ok_def)
  moreover have "runtimes_ok ?m'"
    unfolding runtimes_ok_def eq using inv by (auto simp: mgr_inv_def runtimes_ok_def intro: inv_intros)
  ultimately show ?thesis by (simp add: mgr_inv_def)
qed

lemma mgr_inv_locked:
  assumes "mgr_inv m"
  shows "mgr_inv (ensure_locked rid now m)"
  using mgr_inv_retain_current [OF assms, of rid now]
  by (cases "is_stopped (m_tasks m)")
    (auto simp: ensure_locked_def Let_def split_def intro: mgr_inv_start mgr_inv_start_stopped)

lemma mgr_inv_ensure:
  assumes "mgr_inv m"
  shows "mgr_inv (ensure_discovery_started rt now m)"
  using assms
  by (auto simp: ensure_discovery_started_def Let_def split_def mgr_inv_retain_current
      mgr_inv_locked split: option.split)

lemma mgr_inv_abort_other:
  assumes "mgr_inv m" and "\<And>t. t \<in> A \<Longrightarrow> \<exists>b. task_bodies m t = Some b \<and> (\<forall>ref. b \<noteq> LoopTask ref)"
  shows "mgr_inv (m\<lparr>aborted := aborted m \<union> A\<rparr>)" (is "mgr_inv ?m'")
proof -
  have ids: "t \<in> A \<Longrightarrow> t < next_task (m_tasks m)" for t
    using assms(1) assms(2) [of t] by (auto simp: mgr_inv_def known_ids_def dom_def)
  have lt: "loop_task ?m' t ref = loop_task m t ref" for t ref by (simp add: loop_task_def)
  have "loop_task m t ref \<Longrightarrow> t \<notin> A" for t ref
    using assms(2) [of t] by (auto simp: loop_task_def)
  then have "owner_ok ?m'"
    using assms(1) unfolding mgr_inv_def owner_ok_def lt by simp metis
  moreover have "known_ids ?m'"
    using assms(1) ids by (simp add: mgr_inv_def known_ids_def subset_iff)
  moreover have "handles_ok ?m'" "runtimes_ok ?m'"
    using assms(1) by (simp_all add: mgr_inv_def handles_ok_def runtimes_ok_def)
  ultimately show ?thesis by (simp add: mgr_inv_def)
qed

lemma mgr_inv_polled: "mgr_inv m \<Longrightarrow> mgr_inv (mgr_step m (OwnerPolled ref))"
proof -
  assume inv: "mgr_inv m"
  obtain r ab where pr: "poll_with_probes (runtimes m ref) = (r, ab)"
    by (cases "poll_with_probes (runtimes m ref)")
  have r: "recheck_task (probe r) = Some t \<Longrightarrow> recheck_task (probe (runtimes m ref)) = Some t"
    and ab: "ab = Some t \<Longrightarrow> recheck_task (probe (runtimes m ref)) = Some t"
    and stopped: "rt_stopped r = rt_stopped (runtimes m ref)" for t
    using pr by (auto simp: poll_with_probes_def acknowledge_probe_def split: if_splits)
  have "runtime_inv r"
    using inv runtime_inv_poll [of "runtimes m ref"] pr by (simp add: mgr_inv_def runtimes_ok_def)
  then have "mgr_inv (set_runtime ref r m)"
    using inv r stopped by (intro mgr_inv_set_runtime) (auto simp: mgr_inv_def handles_ok_def)
  then have "mgr_inv (abort_task ab (set_runtime ref r m))"
    unfolding abort_task_def
  proof (rule mgr_inv_abort_other)
    fix t assume "t \<in> set_option ab"
    then have "ab = Some t" by simp
    then obtain owner d where "task_bodies m t = Some (RecheckTask owner d)"
      using ab inv unfolding mgr_inv_def handles_ok_def by blast
    then show "\<exists>b. task_bodies (set_runtime ref r m) t = Some b \<and> (\<forall>ref. b \<noteq> LoopTask ref)"
      by (simp add: set_runtime_def)
  qed
  then show ?thesis by (simp add: pr)
qed

lemma loop_task_drop_tracked:
  "loop_task (drop_tracked t m) x ref \<longleftrightarrow> loop_task m x ref \<and> x \<noteq> t"
  by (auto simp: loop_task_def drop_tracked_def drop_task_def)

lemma drop_tracked_frame [simp]:
  "known_ids m \<Longrightarrow> known_ids (drop_tracked t m)" "handles_ok (drop_tracked t m) = handles_ok m"
  "runtimes_ok (drop_tracked t m) = runtimes_ok m"
  by (auto simp: known_ids_def handles_ok_def runtimes_ok_def drop_tracked_def drop_task_def tasks_inv_def)

lemma mgr_inv_drop_other:
  assumes "mgr_inv m" and "\<And>ref. task_bodies m t \<noteq> Some (LoopTask ref)"
  shows "mgr_inv (drop_tracked t m)"
proof -
  have "loop_task (drop_tracked t m) x ref = loop_task m x ref" for x ref
    using assms(2) by (auto simp: loop_task_drop_tracked) (simp add: loop_task_def)
  then have "owner_ok (drop_tracked t m)"
    using assms(1) by (simp add: mgr_inv_def owner_ok_def) (simp add: drop_tracked_def)
  then show ?thesis using assms(1) by (simp add: mgr_inv_def)
qed

lemma guard_drop_frame:
  "tracked (m_tasks (guard_drop ref m)) = tracked (m_tasks m)"
  "task_bodies (guard_drop ref m) = task_bodies m" "aborted (guard_drop ref m) = aborted m"
  "active_task (guard_drop ref m) = active_task m"
  "runtimes (guard_drop ref m) = (runtimes m)(ref := runtime_stop (runtimes m ref))"
  "discovery_runtime (guard_drop ref m) = (if discovery_runtime m = Some ref then None else discovery_runtime m)"
  by (simp_all add: guard_drop_def set_runtime_def Let_def)

lemma mgr_inv_loop_end:
  assumes inv: "mgr_inv m" and loop: "loop_task m t ref"
  shows "mgr_inv (drop_tracked t (guard_drop ref m))" (is "mgr_inv ?m'")
proof -
  have lt: "loop_task ?m' x r \<longleftrightarrow> loop_task m x r \<and> x \<noteq> t" for x r
    by (simp add: loop_task_drop_tracked) (simp add: loop_task_def guard_drop_frame)
  have o: "owner_ok m" using inv by (simp add: mgr_inv_def)
  have f: "aborted ?m' = aborted m" "active_task ?m' = active_task m"
    "runtimes ?m' = (runtimes m)(ref := runtime_stop (runtimes m ref))"
    "discovery_runtime ?m' = (if discovery_runtime m = Some ref then None else discovery_runtime m)"
    by (simp_all add: drop_tracked_def guard_drop_frame)
  have "owner_ok ?m'"
    unfolding owner_ok_def lt f
  proof (intro conjI allI impI)
    show "x = y" if "loop_task m x r \<and> x \<noteq> t" "loop_task m y r \<and> y \<noteq> t" for x y r
      using that o by (auto simp: owner_ok_def)
    show "active_task m = Some x" if "loop_task m x r \<and> x \<noteq> t" "x \<notin> aborted m" for x r
      using that o by (auto simp: owner_ok_def)
    show "(if discovery_runtime m = Some ref then None else discovery_runtime m) = Some r"
      if "loop_task m x r \<and> x \<noteq> t" "x \<notin> aborted m" for x r
      using that o loop unfolding owner_ok_def by (metis option.inject)
    fix r
    assume "(if discovery_runtime m = Some ref then None else discovery_runtime m) = Some r"
    then have r: "discovery_runtime m = Some r" "r \<noteq> ref" by (auto split: if_splits)
    then show "\<not> rt_stopped (((runtimes m)(ref := runtime_stop (runtimes m ref))) r)"
      using o by (simp add: owner_ok_def)
    obtain x where "loop_task m x r" "x \<notin> aborted m" using r o unfolding owner_ok_def by blast
    then show "\<exists>x. (loop_task m x r \<and> x \<noteq> t) \<and> x \<notin> aborted m"
      using loop r by (auto simp: loop_task_def)
  qed
  moreover have "known_ids (guard_drop ref m)"
    using inv by (auto simp: mgr_inv_def known_ids_def guard_drop_def set_runtime_def Let_def)
  moreover have "handles_ok (guard_drop ref m)"
    using inv by (auto simp: mgr_inv_def handles_ok_def guard_drop_def set_runtime_def runtime_stop_def Let_def)
  moreover have "runtimes_ok (guard_drop ref m)"
    using inv by (auto simp: mgr_inv_def runtimes_ok_def guard_drop_def set_runtime_def Let_def
        intro: inv_intros)
  ultimately show ?thesis by (simp add: mgr_inv_def)
qed

text \<open>A recorded task body never changes.\<close>

lemma bodies_spawn:
  "known_ids m \<Longrightarrow> spawn_task w b m = (t, m') \<Longrightarrow> task_bodies m \<subseteq>\<^sub>m task_bodies m'"
  using known_fresh [of m] by (cases "is_stopped (m_tasks m)")
    (auto simp: spawn_task_stopped spawn_task_open map_le_def)

lemma bodies_retain:
  assumes "known_ids m"
  shows "task_bodies m \<subseteq>\<^sub>m task_bodies (snd (retain_current rid now m))"
proof -
  have k: "known_ids (set_runtime ref r m)" for ref r
    using assms by (simp add: known_ids_def set_runtime_def)
  have "task_bodies m \<subseteq>\<^sub>m task_bodies m'" if "spawn_task w b (set_runtime ref r m) = (t, m')" for w b ref r t m'
    using bodies_spawn [OF k that] by (simp add: set_runtime_def)
  then show ?thesis
    by (auto simp: retain_current_def retain_discovery_owner_def arrange_recheck_def Let_def set_runtime_def
        split: option.split prod.split)
qed

lemma bodies_ensure:
  assumes "mgr_inv m"
  shows "task_bodies m \<subseteq>\<^sub>m task_bodies (ensure_discovery_started rt now m)"
proof -
  have k: "mgr_inv m \<Longrightarrow> known_ids m" for m :: "'a discovery_manager" by (simp add: mgr_inv_def)
  have st: "task_bodies m \<subseteq>\<^sub>m task_bodies (start_discovery rid now m)"
    if "mgr_inv m" "\<not> is_stopped (m_tasks m)" for m :: "'a discovery_manager" and rid
    using known_fresh [OF k [OF that(1)]] that(2)
    by (auto simp: start_discovery_open Let_def map_le_def)
  show ?thesis
  proof (cases "is_stopped (m_tasks m) \<or> rt = None")
    case True
    then show ?thesis by (auto simp: ensure_discovery_started_def ensure_locked_def)
  next
    case False
    then obtain rid where rt: "rt = Some rid" and adm: "\<not> is_stopped (m_tasks m)" by auto
    let ?m1 = "snd (retain_current rid now m)" let ?m2 = "snd (retain_current rid now ?m1)"
    have inv: "mgr_inv ?m1" "mgr_inv ?m2" using assms by (auto intro: mgr_inv_retain_current)
    have "task_bodies m \<subseteq>\<^sub>m task_bodies ?m1" "task_bodies ?m1 \<subseteq>\<^sub>m task_bodies ?m2"
      using assms inv by (auto intro: bodies_retain k)
    moreover have "task_bodies ?m2 \<subseteq>\<^sub>m task_bodies (start_discovery rid now ?m2)"
      using st [OF inv(2)] adm by simp
    ultimately show ?thesis using rt adm
      by (auto simp: ensure_discovery_started_def ensure_locked_def Let_def split_def intro: map_le_trans)
  qed
qed

lemma mgr_inv_recheck:
  assumes inv: "mgr_inv m" and body: "task_bodies m t = Some (RecheckTask owner d)"
  shows "mgr_inv (drop_tracked t (run_recheck owner rid now m))"
proof (rule mgr_inv_drop_other)
  show "mgr_inv (run_recheck owner rid now m)"
    using inv by (simp add: run_recheck_def mgr_inv_ensure)
  have "task_bodies m \<subseteq>\<^sub>m task_bodies (run_recheck owner rid now m)"
    using bodies_ensure [OF inv] by (simp add: run_recheck_def)
  then show "task_bodies (run_recheck owner rid now m) t \<noteq> Some (LoopTask ref)" for ref
    using body by (auto simp: map_le_def dom_def)
qed

lemma mgr_inv_affinity:
  assumes "mgr_inv m"
  shows "mgr_inv (start_affinity_refresh outs ref st m)"
proof -
  obtain t m' where sp: "spawn_task (rt_id (runtimes m ref)) (AffinityTask outs (live_nodes (ordinary_view st))) m = (t, m')"
    by (cases "spawn_task (rt_id (runtimes m ref)) (AffinityTask outs (live_nodes (ordinary_view st))) m")
  have inv: "mgr_inv m'" using mgr_inv_spawn_other [OF assms _ sp] by simp
  have lt: "loop_task (m'\<lparr>affinity_task := t\<rparr>) x r = loop_task m' x r" for x r
    by (simp add: loop_task_def)
  have "mgr_inv (m'\<lparr>affinity_task := t\<rparr>)"
    using inv spawn_task_frame(4) [OF sp] unfolding mgr_inv_defs lt by simp
  then show ?thesis using assms sp by (auto simp: start_affinity_refresh_def split: option.split)
qed

lemma mgr_inv_stop: "mgr_inv m \<Longrightarrow> mgr_inv (m\<lparr>m_tasks := stop (m_tasks m)\<rparr>)"
  by (simp add: mgr_inv_defs tasks_inv_def stop_def loop_task_def)

lemma mgr_inv_step [inv_intros]: "mgr_inv m \<Longrightarrow> mgr_inv (mgr_step m e)"
  using mgr_inv_loop_end mgr_inv_recheck mgr_inv_polled mgr_inv_stop
  by (cases e) (auto simp del: mgr_step.simps(7)
      simp: mgr_inv_ensure mgr_inv_locked mgr_inv_arrange mgr_inv_handoff mgr_inv_mark_activity mgr_inv_affinity is_finished_def loop_task_def
      intro: mgr_inv_drop_other split: option.split task_body.split)

lemma mgr_inv_run: "mgr_inv m \<Longrightarrow> mgr_inv (foldl mgr_step m es)"
  by (induction es arbitrary: m) (auto intro: inv_intros)

section \<open>Ownership facts\<close>

text \<open>The discovery loops that run and were not told to end, with the runtime they serve.\<close>

definition live_loops :: "'u discovery_manager \<Rightarrow> (task_id \<times> runtime_ref) set" where
  "live_loops m = {(t, ref). loop_task m t ref \<and> t \<notin> aborted m}"

lemma live_loops_owner:
  assumes "mgr_inv m"
  shows "live_loops m = {(t, ref). active_task m = Some t \<and> discovery_runtime m = Some ref}"
    and "live_loops m = {} \<longleftrightarrow> discovery_runtime m = None"
proof -
  have sub: "live_loops m \<subseteq> {(t, ref). active_task m = Some t \<and> discovery_runtime m = Some ref}"
    using assms by (auto simp: live_loops_def mgr_inv_def owner_ok_def)
  have ex: "\<exists>t. (t, ref) \<in> live_loops m" if "discovery_runtime m = Some ref" for ref
    using assms that by (auto simp: live_loops_def mgr_inv_def owner_ok_def)
  show "live_loops m = {(t, ref). active_task m = Some t \<and> discovery_runtime m = Some ref}"
    using sub ex by fastforce
  show "live_loops m = {} \<longleftrightarrow> discovery_runtime m = None" using sub ex by fastforce
qed

lemma retain_current_owner:
  shows retain_current_same [simp]:
      "discovery_runtime (snd (retain_current rid now m)) = discovery_runtime m"
    and retain_current_some: "fst (retain_current rid now m) \<Longrightarrow> discovery_runtime m \<noteq> None"
  by (auto simp: retain_current_def retain_discovery_owner_def arrange_recheck_def set_runtime_def Let_def split_def
      spawn_task_def spawn_def split: option.splits if_splits)

lemma start_discovery_owner:
  assumes "\<not> is_stopped (m_tasks m)"
  shows "discovery_runtime (start_discovery rid now m) = Some (next_runtime m)"
    "rt_id (runtimes (start_discovery rid now m) (next_runtime m)) = rid"
  using assms by (simp_all add: start_discovery_open Let_def runtime_new_def)

lemma ensure_owner:
  assumes "\<not> is_stopped (m_tasks m)"
  shows "\<exists>ref. discovery_runtime (ensure_discovery_started (Some rid) now m) = Some ref
    \<and> (discovery_runtime m = Some ref
       \<or> rt_id (runtimes (ensure_discovery_started (Some rid) now m) ref) = rid)"
proof -
  let ?m1 = "snd (retain_current rid now m)" let ?m2 = "snd (retain_current rid now ?m1)"
  have e: "ensure_discovery_started (Some rid) now m =
    (if fst (retain_current rid now m) then ?m1
     else if fst (retain_current rid now ?m1) then ?m2 else start_discovery rid now ?m2)"
    using assms by (simp add: ensure_discovery_started_def ensure_locked_def Let_def split_def)
  have "\<not> is_stopped (m_tasks ?m2)" using assms by simp
  note st = start_discovery_owner [OF this, of rid now]
  show ?thesis
    using retain_current_some [of rid now m] retain_current_some [of rid now ?m1]
    unfolding e by (auto simp: st)
qed

section \<open>Correctness\<close>

text \<open>
  C12: a client has at most one live discovery loop. In every interleaving of the events of a
  manager, also when threads overtake each other within a call, no \<^verbatim>\<open>unwrap\<close> on the liveness probe fails, the loops that run and were not aborted are
  exactly the recorded \<^verbatim>\<open>active_task\<close> for the registered runtime, and a runtime is registered
  exactly while such a loop runs.
\<close>

theorem single_discovery_loop:
  "let m = foldl mgr_step (new_manager inp active idle start) es in
     \<not> unwrap_failed m
     \<and> live_loops m = {(t, ref). active_task m = Some t \<and> discovery_runtime m = Some ref}
     \<and> (live_loops m = {} \<longleftrightarrow> discovery_runtime m = None)"
  using mgr_inv_run [OF mgr_inv_new, of inp active idle start es] live_loops_owner
  by (auto simp: Let_def mgr_inv_def runtimes_ok_def)

text \<open>
  ensuring discovery has its effect. From any reachable state of a client that was not
  stopped, \<^verbatim>\<open>ensure_discovery_started\<close> on a thread with a runtime leaves exactly one live loop;
  its owner is the one registered before or the caller's runtime.
\<close>

theorem ensure_runs_discovery:
  assumes "m = foldl mgr_step (new_manager inp active idle start) es"
    and "\<not> is_stopped (m_tasks m)"
  shows "\<exists>t ref. live_loops (ensure_discovery_started (Some rid) now m) = {(t, ref)}
    \<and> (discovery_runtime m = Some ref
       \<or> rt_id (runtimes (ensure_discovery_started (Some rid) now m) ref) = rid)"
proof -
  let ?m' = "ensure_discovery_started (Some rid) now m"
  have inv: "mgr_inv ?m'" unfolding assms(1) by (intro mgr_inv_ensure mgr_inv_run mgr_inv_new)
  obtain ref where ref: "discovery_runtime ?m' = Some ref"
    "discovery_runtime m = Some ref \<or> rt_id (runtimes ?m' ref) = rid"
    using ensure_owner [OF assms(2), of rid now] by blast
  then obtain t where "active_task ?m' = Some t" using live_loops_owner [OF inv] by fastforce
  with ref have "live_loops ?m' = {(t, ref)}" using live_loops_owner(1) [OF inv] by auto
  with ref(2) show ?thesis by blast
qed

theorem ensure_runs_discovery_witness:
  "\<exists>t ref. live_loops (ensure_discovery_started (Some 7) 5
      (new_manager \<lparr>inputs_timeout = None, seed_urls = [] :: nat list, alternator_scheme = ''http'', inputs_port = None, discovery_client = Smithy (UserHttpClient 0) None None, native_roots_usable = False\<rparr> 1 2 0)) = {(t, ref)}"
  using ensure_runs_discovery [of "new_manager \<lparr>inputs_timeout = None, seed_urls = [] :: nat list, alternator_scheme = ''http'', inputs_port = None, discovery_client = Smithy (UserHttpClient 0) None None, native_roots_usable = False\<rparr> 1 2 0"
      _ 1 2 0 "[]" 7 5]
  by (auto simp: new_manager_def new_tasks_def is_stopped_def)

text \<open>
  ensuring discovery is idempotent where it must be: on a stopped client, outside of a
  runtime, and on the runtime that owns the loop, \<^verbatim>\<open>ensure_discovery_started\<close> changes nothing.
\<close>

theorem ensure_discovery_noop:
  assumes "is_stopped (m_tasks m) \<or> rt = None
    \<or> (\<exists>ref. discovery_runtime m = Some ref \<and> rt = Some (rt_id (runtimes m ref)))"
  shows "ensure_discovery_started rt now m = m"
  using assms
  by (auto simp: ensure_discovery_started_def ensure_locked_def retain_current_def retain_discovery_owner_def arrange_recheck_def Let_def)

theorem ensure_discovery_noop_witness:
  "ensure_discovery_started None 5 (new_manager \<lparr>inputs_timeout = None, seed_urls = [], alternator_scheme = ''http'', inputs_port = None, discovery_client = Smithy (UserHttpClient 0) None None, native_roots_usable = False\<rparr> 1 2 0)
     = new_manager \<lparr>inputs_timeout = None, seed_urls = [] :: nat list, alternator_scheme = ''http'', inputs_port = None, discovery_client = Smithy (UserHttpClient 0) None None, native_roots_usable = False\<rparr> 1 2 0"
  using ensure_discovery_noop by blast

text \<open>
  C30: a stalled owner is replaced without further traffic. When a caller on another runtime asks,
  the client not being stopped, while no probe is pending, one is due and there is no recheck yet,
  the owner is kept, and a recheck task for 250 ms later
  is spawned on the caller's runtime, not on the owner's, which may be stalled. If the owner has not
  acknowledged by then, the recheck, running where it was spawned, moves discovery to that runtime:
  the new loop is spawned there, and the old loop is aborted.
\<close>

theorem recheck_takes_over:
  assumes inv: "mgr_inv m" and adm: "\<not> is_stopped (m_tasks m)"
    and owner: "discovery_runtime m = Some ref" and other: "rt_id (runtimes m ref) \<noteq> rid"
    and quiet: "\<not> pending (probe (runtimes m ref))" "is_due (probe (runtimes m ref)) now"
      "recheck_task (probe (runtimes m ref)) = None"
    and later: "now + SHUTDOWN_PROBE_INTERVAL \<le> later"
  shows "let m1 = ensure_discovery_started (Some rid) now m; t = next_task (m_tasks m);
             m2 = mgr_step m1 (RecheckFires t later)
    in discovery_runtime m1 = Some ref \<and> live_loops m1 = live_loops m
     \<and> task_bodies m1 t = Some (RecheckTask ref (now + SHUTDOWN_PROBE_INTERVAL))
     \<and> spawned_on (m_tasks m1) t = Some rid
     \<and> discovery_runtime m2 = Some (next_runtime m) \<and> rt_id (runtimes m2 (next_runtime m)) = rid
     \<and> active_task m2 = Some (Suc t) \<and> task_bodies m2 (Suc t) = Some (LoopTask (next_runtime m))
     \<and> spawned_on (m_tasks m2) (Suc t) = Some rid
     \<and> set_option (active_task m) \<subseteq> aborted m2"
proof -
  let ?t = "next_task (m_tasks m)"
  let ?p = "(probe (runtimes m ref))\<lparr>last_started := Some now, pending := True, recheck_task := Some ?t\<rparr>"
  let ?r = "(runtimes m ref)\<lparr>probe_requested := True, probe := ?p\<rparr>"
  define m1 where "m1 = ensure_discovery_started (Some rid) now m"
  have k: "known_ids m" and stopped: "\<not> rt_stopped (runtimes m ref)"
    using inv owner by (auto simp: mgr_inv_def owner_ok_def)
  note fresh = known_fresh [OF k]
  have m1: "m1 = set_runtime ref ?r (snd (spawn_task rid (RecheckTask ref (now + SHUTDOWN_PROBE_INTERVAL)) m))"
    unfolding m1_def using adm owner other quiet stopped
    by (simp add: ensure_discovery_started_def ensure_locked_def retain_current_def retain_discovery_owner_def arrange_recheck_def
        should_handoff_at_def spawn_task_open set_runtime_def Let_def is_finished_def)
  have f: "discovery_runtime m1 = Some ref" "runtimes m1 ref = ?r" "next_runtime m1 = next_runtime m"
    "task_bodies m1 ?t = Some (RecheckTask ref (now + SHUTDOWN_PROBE_INTERVAL))"
    "\<not> is_finished m1 ?t" "?t \<notin> aborted m1" "m_tasks m1 = snd (spawn rid (m_tasks m))"
    "active_task m1 = active_task m" "aborted m1 = aborted m"
    unfolding m1 using adm owner fresh
    by (simp_all add: spawn_task_open set_runtime_def is_finished_def spawn_def)
  have nc: "\<not> cancelled (m_tasks m1)" and open1: "\<not> is_stopped (m_tasks m1)"
    using k adm f(7) by (auto simp: known_ids_def tasks_inv_def is_stopped_def spawn_def)
  have loops: "live_loops m1 = live_loops m"
    unfolding live_loops_def loop_task_def m1 using adm fresh
    by (auto simp: spawn_task_open set_runtime_def split: if_splits)
  have due: "is_due ?p later" using later by (simp add: is_due_def)
  let ?m2 = "set_runtime ref (?r\<lparr>handoff_required := True\<rparr>) m1"
  have ret: "retain_current rid later m1 = (False, ?m2)" "retain_current rid later ?m2 = (False, ?m2)"
    using f other due stopped
    by (simp_all add: retain_current_def retain_discovery_owner_def arrange_recheck_def should_handoff_at_def Let_def
        set_runtime_def)
  have "run_recheck ref rid later m1 = start_discovery rid later ?m2"
    using f open1 ret by (simp add: run_recheck_def ensure_discovery_started_def ensure_locked_def)
  moreover have on: "spawned_on (m_tasks m1) ?t = Some rid" "next_task (m_tasks m1) = Suc ?t"
    using adm by (simp_all add: f(7) spawn_def)
  ultimately have m2: "mgr_step m1 (RecheckFires ?t later) = drop_tracked ?t (start_discovery rid later ?m2)"
    using f nc later by simp
  have fin: "discovery_runtime (drop_tracked ?t (start_discovery rid later ?m2)) = Some (next_runtime m)"
    "rt_id (runtimes (drop_tracked ?t (start_discovery rid later ?m2)) (next_runtime m)) = rid"
    "set_option (active_task m) \<subseteq> aborted (drop_tracked ?t (start_discovery rid later ?m2))"
    "active_task (drop_tracked ?t (start_discovery rid later ?m2)) = Some (Suc ?t)"
    "task_bodies (drop_tracked ?t (start_discovery rid later ?m2)) (Suc ?t) = Some (LoopTask (next_runtime m))"
    "spawned_on (m_tasks (drop_tracked ?t (start_discovery rid later ?m2))) (Suc ?t) = Some rid"
    using open1 f(1-6,8,9) on
    by (auto simp: drop_tracked_def drop_task_def start_discovery_open set_runtime_def Let_def runtime_new_def
        mark_activity_def)
  show ?thesis unfolding Let_def m1_def [symmetric] m2 using f loops fin on by blast
qed

definition demo_manager :: "nat discovery_manager" where
  "demo_manager = ensure_discovery_started (Some 1) 0
     (new_manager \<lparr>inputs_timeout = None, seed_urls = [], alternator_scheme = ''http'', inputs_port = None, discovery_client = Smithy (UserHttpClient 0) None None, native_roots_usable = False\<rparr> 1 2 0)"

theorem recheck_takes_over_witness:
  "let m1 = ensure_discovery_started (Some 2) 10 demo_manager;
       m2 = mgr_step m1 (RecheckFires 1 (10 + SHUTDOWN_PROBE_INTERVAL))
   in discovery_runtime m1 = Some 0 \<and> discovery_runtime m2 = Some 1
      \<and> rt_id (runtimes m2 1) = 2 \<and> 0 \<in> aborted m2
      \<and> spawned_on (m_tasks m1) 1 = Some 2 \<and> spawned_on (m_tasks m2) 2 = Some 2"
proof -
  note d = demo_manager_def ensure_discovery_started_def ensure_locked_def retain_current_def new_manager_def Let_def
    start_discovery_def abort_task_def set_runtime_def mark_activity_def spawn_task_def spawn_def
    new_tasks_def is_stopped_def runtime_new_def is_due_def
  have inv: "mgr_inv demo_manager" unfolding demo_manager_def by (intro mgr_inv_ensure mgr_inv_new)
  have f: "\<not> is_stopped (m_tasks demo_manager)" "discovery_runtime demo_manager = Some 0"
    "next_runtime demo_manager = 1" "next_task (m_tasks demo_manager) = 1"
    "active_task demo_manager = Some 0" "rt_id (runtimes demo_manager 0) = 1"
    "\<not> pending (probe (runtimes demo_manager 0))" "is_due (probe (runtimes demo_manager 0)) 10"
    "recheck_task (probe (runtimes demo_manager 0)) = None"
    by (simp_all add: d)
  then show ?thesis
    using recheck_takes_over [OF inv, of 0 2 10 "10 + SHUTDOWN_PROBE_INTERVAL"]
    by (simp add: Let_def numeral_2_eq_2 del: mgr_step.simps)
qed

lemma stopped_frame:
  assumes "is_stopped (m_tasks m)"
  shows "m_tasks (arrange_recheck rid ref m) = m_tasks m"
    and "m_tasks (snd (retain_current rid now m)) = m_tasks m"
    and "m_tasks (ensure_locked rid now m) = m_tasks m"
proof -
  have arrange: "m_tasks (arrange_recheck rid ref m) = m_tasks m" if "is_stopped (m_tasks m)" for ref and m :: "'a discovery_manager"
    using that by (simp add: arrange_recheck_def Let_def set_runtime_def spawn_task_stopped split: option.split)
  show "m_tasks (arrange_recheck rid ref m) = m_tasks m" by (rule arrange [OF assms])
  show retain: "m_tasks (snd (retain_current rid now m)) = m_tasks m"
    using assms by (auto simp: retain_current_def retain_discovery_owner_def Let_def split_def arrange set_runtime_def
        split: option.split)
  with assms show "m_tasks (ensure_locked rid now m) = m_tasks m"
    by (simp add: ensure_locked_def split_def start_discovery_stopped Let_def mark_activity_def)
qed

lemma stopped_manager_run:
  assumes "is_stopped (m_tasks m)"
  shows "is_stopped (m_tasks (foldl mgr_step m es)) \<and> tracked (m_tasks (foldl mgr_step m es)) \<subseteq> tracked (m_tasks m)"
  using assms
proof (induction es arbitrary: m)
  case (Cons e es)
  have "is_stopped (m_tasks (mgr_step m e)) \<and> tracked (m_tasks (mgr_step m e)) \<subseteq> tracked (m_tasks m)"
    using Cons.prems stopped_frame [OF Cons.prems]
    by (cases e)
      (auto simp: ensure_discovery_started_def mark_activity_def stop_def is_stopped_def abort_task_def
        set_runtime_def drop_tracked_def drop_task_def guard_drop_def run_recheck_def Let_def split_def
        start_affinity_refresh_def spawn_task_def spawn_def split: option.splits task_body.splits)
  with Cons.IH [of "mgr_step m e"] show ?case by auto
qed simp

text \<open>
  a stopped client starts nothing. Once the registry is stopped, no event adds a task: every
  later interleaving keeps the registry stopped and its tasks among the ones tracked at the stop.
\<close>

theorem stopped_manager_starts_nothing:
  "let s = foldl mgr_step (mgr_step m StopTasks) es
   in is_stopped (m_tasks s) \<and> tracked (m_tasks s) \<subseteq> tracked (m_tasks m)"
  using stopped_manager_run [of "mgr_step m StopTasks" es] by (simp add: is_stopped_def stop_def)

end
