(* ===== verification/Affinity_Refresh.thy ===== *)
theory Affinity_Refresh
  imports Agreed_Refresh Discovery_Manager
begin

text \<open>
  One round of the discovery loop with key route affinity (\<^verbatim>\<open>src/src/live_nodes.rs\<close>): the ordinary
  view is refreshed first, and a task then refreshes the affinity view, whose scopes have no rack,
  reusing what the ordinary refresh learned.
\<close>

section \<open>A round\<close>

lemma affinity_task_spawned:
  assumes "affinity_nodes st = Some av" and "discovery_runtime m = Some ref" and "\<not> is_stopped (m_tasks m)"
    and "\<forall>t. affinity_task m = Some t \<longrightarrow> is_finished m t"
  shows "\<exists>t. affinity_task (start_affinity_refresh outs ref st m) = Some t
    \<and> task_bodies (start_affinity_refresh outs ref st m) t = Some (AffinityTask outs (live_nodes (ordinary_view st)))
    \<and> m_inputs (start_affinity_refresh outs ref st m) = m_inputs m"
  using assms by (auto simp: start_affinity_refresh_def spawn_task_open split: option.split)

text \<open>
  C10: one round refreshes both views. In a cluster whose nodes agree on the scopes of the
  configured chain and of the chain without racks (a node asked for the whole cluster answers its own
  datacenter, and each datacenter has a seed that always answers, as does one seed on every scope),
  take a client with a view of its own for affinity, both views being in order (not empty, nothing
  published ahead of the refreshes, which always holds). An iteration of the loop that owns
  discovery, of a manager that is not stopped and has no earlier affinity task still running,
  publishes to the ordinary view the nodes of the first scope of its chain that has any, the
  cluster-wide scope included, and leaves a task that does the same for the affinity view and its
  own chain, whatever happens on the network until it runs and although it reuses what the iteration
  learned. A view none of whose scopes has nodes keeps its members.
\<close>

theorem round_refreshes_both_views:
  assumes U: "url_eq_law U" and shuf: "shuffle_law shuf" and m: "manager st0 = Some m"
    and owner: "discovery_runtime m = Some ref" "\<not> is_stopped (m_tasks m)"
      "\<forall>t. affinity_task m = Some t \<longrightarrow> is_finished m t"
    and av: "affinity_nodes st0 = Some av"
    and nodes: "live_nodes (ordinary_view st0) \<noteq> []" "live_nodes av \<noteq> []"
    and gens: "latest_published_generation (ordinary_view st0) \<le> next_generation (ordinary_view st0)"
      "latest_published_generation av \<le> next_generation av"
    and seed: "r \<in> set (seed_urls (m_inputs m))"
    and answers: "agreed_answers U (m_inputs m) net D A (view_scope (ordinary_view st0)) r"
      "agreed_answers U (m_inputs m) net' D A (view_scope av) r"
    and round: "loop_iteration U net shuf ref now st0 = Some (pause, st1)"
  shows "live_nodes (ordinary_view st1) =
        published A (chain_ops (view_scope (ordinary_view st0))) (live_nodes (ordinary_view st0))
    \<and> (\<exists>m1 t outs cands. manager st1 = Some m1 \<and> affinity_task m1 = Some t
        \<and> task_bodies m1 t = Some (AffinityTask outs cands)
        \<and> (\<forall>st2. run_affinity_task U (m_inputs m1) net' shuf outs cands st1 = Some st2 \<longrightarrow>
            (\<exists>av2. affinity_nodes st2 = Some av2
              \<and> live_nodes av2 = published A (chain_ops (view_scope av)) (live_nodes av))))"
proof -
  let ?v = "ordinary_view st0"
  obtain outs v where upd: "update_live_nodes_from U (m_inputs m) net shuf Map.empty [] False ?v = Some (outs, v)"
    and st1: "st1 = st0\<lparr>ordinary_view := v, manager := Some (start_affinity_refresh outs ref (st0\<lparr>ordinary_view := v\<rparr>) m)\<rparr>"
    using round m by (auto simp: loop_iteration_def update_live_nodes_def Let_def split: option.splits)
  let ?m1 = "start_affinity_refresh outs ref (st0\<lparr>ordinary_view := v\<rparr>) m"
  obtain t where t: "affinity_task ?m1 = Some t" "task_bodies ?m1 t = Some (AffinityTask outs (live_nodes v))"
    "m_inputs ?m1 = m_inputs m"
    using affinity_task_spawned [of "st0\<lparr>ordinary_view := v\<rparr>" av m ref outs] av owner by auto
  from refresh_agreed [OF upd U shuf nodes(1) seed answers(1) gens(1) outcomes_of_empty]
  have ordinary: "live_nodes v = published A (chain_ops (view_scope ?v)) (live_nodes ?v)"
    and agree: "outcomes_of A outs" by blast+
  have task: "\<exists>av2. affinity_nodes st2 = Some av2
      \<and> live_nodes av2 = published A (chain_ops (view_scope av)) (live_nodes av)"
    if run: "run_affinity_task U (m_inputs m) net' shuf outs (live_nodes v) st1 = Some st2" for st2
  proof -
    obtain outs2 av2 where "update_live_nodes_from U (m_inputs m) net' shuf outs (live_nodes v) True av = Some (outs2, av2)"
      and "affinity_nodes st2 = Some av2"
      using run by (auto simp: run_affinity_task_def st1 av)
    with refresh_agreed [OF _ U shuf nodes(2) seed answers(2) gens(2) agree] show ?thesis by blast
  qed
  have f: "ordinary_view st1 = v" "manager st1 = Some ?m1" by (simp_all add: st1)
  show ?thesis
    unfolding f using ordinary t task by (intro conjI exI [of _ ?m1] exI [of _ t] exI [of _ outs]
        exI [of _ "live_nodes v"]) simp_all
qed

text \<open>The preferred rack is empty; both views end up with the node of its datacenter.\<close>

theorem round_refreshes_both_views_witness:
  "\<exists>pause st1 m1 outs cands st2 av2.
     loop_iteration text_url example_net (\<lambda>n xs. xs) 0 1
       \<lparr>ordinary_view = view_new example_scope [''http://s''],
        affinity_nodes = Some (view_new (without_rack example_scope) [''http://s'']),
        manager = Some (ensure_discovery_started (Some 1) 0 (new_manager example_inputs 1 2 0))\<rparr> = Some (pause, st1)
     \<and> live_nodes (ordinary_view st1) = [''http://n1'']
     \<and> manager st1 = Some m1
     \<and> run_affinity_task text_url (m_inputs m1) example_net (\<lambda>n xs. xs) outs cands st1 = Some st2
     \<and> affinity_nodes st2 = Some av2 \<and> live_nodes av2 = [''http://n1'']"
proof -
  obtain m where md: "m = ensure_discovery_started (Some 1) 0 (new_manager example_inputs 1 2 0)" by blast
  let ?av = "view_new (without_rack example_scope) [''http://s'']"
  let ?st = "\<lparr>ordinary_view = view_new example_scope [''http://s''], affinity_nodes = Some ?av, manager = Some m\<rparr>"
  have m: "discovery_runtime m = Some 0" "\<not> is_stopped (m_tasks m)" "affinity_task m = None" "m_inputs m = example_inputs"
    by (simp_all add: md ensure_discovery_started_def ensure_locked_def retain_current_def new_manager_def Let_def
        start_discovery_def abort_task_def set_runtime_def mark_activity_def spawn_task_def spawn_def
        new_tasks_def is_stopped_def)
  have inp: "alternator_scheme example_inputs = ''http''" "inputs_port example_inputs = None"
    "seed_urls example_inputs = [''http://s'']"
    by (simp_all add: example_inputs_def)
  have shuf: "shuffle_law (\<lambda>n (xs :: string list). xs)" by (simp add: shuffle_law_def)
  have a1: "agreed_answers text_url (m_inputs m) example_net (\<lambda>c. []) example_answers (view_scope (ordinary_view ?st)) ''http://s''"
    unfolding m(4) by (simp add: view_new_def example_agreed(1) [OF inp(1,2)])
  have a2: "agreed_answers text_url (m_inputs m) example_net (\<lambda>c. []) example_answers (view_scope ?av) ''http://s''"
    unfolding m(4) by (simp add: view_new_def example_agreed(2) [OF inp(1,2)])
  have "update_live_nodes text_url example_net (\<lambda>n xs. xs) (ordinary_view ?st) m \<noteq> None"
    by (simp add: update_live_nodes_def update_live_nodes_from_def begin_refresh_def view_new_def Let_def split_def)
  then obtain pause st1 where it: "loop_iteration text_url example_net (\<lambda>n xs. xs) 0 1 ?st = Some (pause, st1)"
    by (auto simp: loop_iteration_def Let_def)
  have first: "published example_answers (chain_ops (view_scope ?av)) ns = [''http://n1'']"
    "published example_answers (chain_ops (view_scope (ordinary_view ?st))) ns = [''http://n1'']" for ns
    by (simp_all add: view_new_def published_def example_chain example_answers_def)
  have seed: "''http://s'' \<in> set (seed_urls (m_inputs m))" by (simp add: m(4) inp(3))
  note both = round_refreshes_both_views [OF text_url_eq_law shuf _ m(1,2) _ _ _ _ _ _ seed a1 a2 it, unfolded first]
  have v1: "live_nodes (ordinary_view st1) = [''http://n1'']"
    using both [THEN conjunct1] by (simp add: m(3) view_new_def)
  obtain m1 outs cands where m1: "manager st1 = Some m1"
    and run: "\<forall>st2. run_affinity_task text_url (m_inputs m1) example_net (\<lambda>n xs. xs) outs cands st1 = Some st2 \<longrightarrow>
      (\<exists>av2. affinity_nodes st2 = Some av2 \<and> live_nodes av2 = [''http://n1''])"
    using both [THEN conjunct2] by (auto simp: m(3) view_new_def)
  have av: "affinity_nodes st1 = Some ?av"
    using it by (auto simp: loop_iteration_def Let_def split: option.splits)
  have "run_affinity_task text_url (m_inputs m1) example_net (\<lambda>n xs. xs) outs cands st1 \<noteq> None"
    by (simp add: run_affinity_task_def av update_live_nodes_from_def begin_refresh_def view_new_def Let_def split_def)
  with it v1 m1 run show ?thesis unfolding md by blast
qed

end
