(* ===== verification/Deterministic_Rng.thy ===== *)
theory Deterministic_Rng
  imports Prelude
begin

text \<open>
  \<^verbatim>\<open>src/src/keyrouting/deterministic_rng.rs\<close>: the xorshift64* generator that derives a node
  order from a partition-key hash, at its 64-bit width. \<^verbatim>\<open>i64\<close> and \<^verbatim>\<open>u64\<close> are the same
  64 bits, so the cast in \<^verbatim>\<open>new\<close> is the identity on the word.
\<close>

unbundle bit_operations_syntax

section \<open>The generator\<close>

record deterministic_rng =
  rng_state :: u64

definition rng_new :: "u64 \<Rightarrow> deterministic_rng" where
  "rng_new seed = \<lparr>rng_state = (if seed = 0 then 0x9e3779b97f4a7c15 else seed)\<rparr>"

definition next_u64 :: "deterministic_rng \<Rightarrow> u64 \<times> deterministic_rng" where
  "next_u64 g =
     (let value = rng_state g;
          value = value XOR drop_bit 12 value;
          value = value XOR push_bit 25 value;
          value = value XOR drop_bit 27 value
      in (value * 0x2545f4914f6cdd1d, g\<lparr>rng_state := value\<rparr>))"

text \<open>
  \<^verbatim>\<open>index\<close>: \<open>None\<close> is the failed assertion on a zero bound. The bound is a \<^verbatim>\<open>Vec\<close> length;
  the product of two 64-bit values is exact in \<^verbatim>\<open>u128\<close>, so the shifted product is written
  on naturals here and related to the machine expression by \<open>rng_index_u128\<close> below.
\<close>

definition rng_index :: "deterministic_rng \<Rightarrow> nat \<Rightarrow> (nat \<times> deterministic_rng) option" where
  "rng_index g upper_bound =
     (if upper_bound = 0 then None
      else let (v, g') = next_u64 g in Some (unat v * upper_bound div 2 ^ 64, g'))"

section \<open>Facts\<close>

lemma unat_u64_less: "unat (v :: u64) < 2 ^ 64"
proof -
  have "unat v < 2 ^ LENGTH(64)" by (rule unsigned_less)
  then show ?thesis by simp
qed

lemma rng_index_eq:
  "0 < n \<Longrightarrow> rng_index g n = Some (unat (fst (next_u64 g)) * n div 2 ^ 64, snd (next_u64 g))"
  by (simp add: rng_index_def case_prod_beta)

lemma scaled_bound: "0 < n \<Longrightarrow> unat (v :: u64) * n div 2 ^ 64 < n"
proof -
  assume "0 < n"
  then have "unat v * n < n * 2 ^ 64" using unat_u64_less [of v] by simp
  then show ?thesis by (rule less_mult_imp_div_less)
qed

lemma rng_index_Some: "0 < n \<Longrightarrow> \<exists>i g'. rng_index g n = Some (i, g') \<and> i < n"
  using scaled_bound [of n] by (auto simp only: rng_index_eq)

lemma xor_zero_iff: "(a :: u64) XOR b = 0 \<longleftrightarrow> a = b"
  by (auto simp: bit_eq_iff bit_simps)

text \<open>The state transition, in its three stages, is linear over exclusive or.\<close>

definition right_stage :: "nat \<Rightarrow> u64 \<Rightarrow> u64" where
  "right_stage k x = x XOR drop_bit k x"

definition left_stage :: "nat \<Rightarrow> u64 \<Rightarrow> u64" where
  "left_stage k x = x XOR push_bit k x"

definition xorshift :: "u64 \<Rightarrow> u64" where
  "xorshift s = right_stage 27 (left_stage 25 (right_stage 12 s))"

lemma next_u64_state: "rng_state (snd (next_u64 g)) = xorshift (rng_state g)"
  by (simp add: xorshift_def right_stage_def left_stage_def next_u64_def Let_def)

lemma right_stage_zero:
  assumes "0 < k"
  shows "right_stage k x = 0 \<longleftrightarrow> x = 0"
proof
  assume "right_stage k x = 0"
  then have "x = drop_bit k x" by (simp add: right_stage_def xor_zero_iff)
  then have "unat x = unat (drop_bit k x)" by (rule arg_cong)
  then have eq: "unat x = unat x div 2 ^ k" by (metis unat_drop_bit_eq drop_bit_eq_div)
  have "unat x = 0"
  proof (rule ccontr)
    assume "unat x \<noteq> 0"
    then have "unat x div 2 ^ k < unat x" using assms by (intro div_less_dividend) (auto simp: one_less_power simp del: One_nat_def)
    with eq show False by simp
  qed
  then show "x = 0" by (simp add: unat_eq_zero)
qed (simp add: right_stage_def)

lemma left_stage_zero:
  assumes "0 < k"
  shows "left_stage k x = 0 \<longleftrightarrow> x = 0"
proof
  assume "left_stage k x = 0"
  then have eq: "x = push_bit k x" by (simp add: left_stage_def xor_zero_iff)
  have "\<not> bit x n" for n
  proof (induction n rule: less_induct)
    case (less n)
    have "bit x n \<Longrightarrow> k \<le> n \<and> bit x (n - k)"
      using eq bit_push_bit_iff [of k x n] by metis
    with less [of "n - k"] assms show ?case by auto
  qed
  then show "x = 0" by (auto intro: bit_eqI)
qed (simp add: left_stage_def)

lemma stage_linear:
  "right_stage k (a XOR b) = right_stage k a XOR right_stage k b"
  "left_stage k (a XOR b) = left_stage k a XOR left_stage k b"
  by (simp_all add: right_stage_def left_stage_def drop_bit_xor push_bit_xor ac_simps)

lemma xorshift_zero_iff: "xorshift s = 0 \<longleftrightarrow> s = 0"
  by (simp add: xorshift_def right_stage_zero left_stage_zero)

lemma xorshift_inj: "xorshift a = xorshift b \<Longrightarrow> a = b"
proof -
  assume "xorshift a = xorshift b"
  then have "xorshift (a XOR b) = 0" by (simp add: xorshift_def stage_linear xor_zero_iff)
  then show ?thesis by (simp add: xorshift_zero_iff xor_zero_iff)
qed

text \<open>The interface the affinity order relies on: a source of indices below a positive bound.\<close>

locale index_source =
  fixes pick :: "'g \<Rightarrow> nat \<Rightarrow> (nat \<times> 'g) option"
  assumes pick_total: "0 < n \<Longrightarrow> \<exists>i g'. pick g n = Some (i, g') \<and> i < n"

interpretation xorshift_source: index_source rng_index
  by unfold_locales (rule rng_index_Some)

section \<open>Correctness\<close>

text \<open>
  \<^verbatim>\<open>index\<close> panics exactly on a zero bound, returns an index below the bound otherwise, and
  on a bound of \<^verbatim>\<open>usize\<close> width it is the machine expression
  \<^verbatim>\<open>((next_u64 as u128 * upper_bound as u128) >> 64) as usize\<close>.
\<close>

theorem rng_index_u128:
  fixes ub :: usize
  shows "(rng_index g 0 = None)
    \<and> (ub \<noteq> 0 \<longrightarrow> (\<exists>i g'. rng_index g (unat ub) = Some (i, g') \<and> i < unat ub \<and> g' = snd (next_u64 g)
         \<and> of_nat i = (ucast (drop_bit 64 (ucast (fst (next_u64 g)) * ucast ub :: u128)) :: usize)))"
proof (intro conjI impI)
  show "rng_index g 0 = None" by (simp add: rng_index_def)
  assume "ub \<noteq> 0"
  then have pos: "0 < unat ub" by (simp add: unat_gt_0)
  let ?v = "fst (next_u64 g)"
  let ?p = "ucast ?v * ucast ub :: u128"
  have lt: "unat ?v * unat ub < 2 ^ 128"
  proof -
    have "unat ?v * unat ub < 2 ^ 64 * 2 ^ 64"
      by (rule mult_strict_mono [OF unat_u64_less unat_u64_less]) simp_all
    then show ?thesis by simp
  qed
  have "unat ?p = unat ?v * unat ub"
  proof -
    have u: "unat (ucast (w :: u64) :: u128) = unat w" for w
      using unat_u64_less [of w] by (simp add: unsigned_ucast_eq take_bit_nat_eq_self)
    show ?thesis using lt by (simp add: unat_word_ariths u)
  qed
  then have d: "unat (drop_bit 64 ?p) = unat ?v * unat ub div 2 ^ 64"
    by (metis unat_drop_bit_eq drop_bit_eq_div)
  obtain i g' where i: "rng_index g (unat ub) = Some (i, g')" "i < unat ub"
    using rng_index_Some [OF pos] by blast
  then have i_eq: "i = unat ?v * unat ub div 2 ^ 64" and g': "g' = snd (next_u64 g)"
    using pos by (simp_all add: rng_index_eq)
  have "(ucast (drop_bit 64 ?p) :: usize) = of_nat (unat (drop_bit 64 ?p))"
    by simp
  with i i_eq g' d show "\<exists>i g'. rng_index g (unat ub) = Some (i, g') \<and> i < unat ub
      \<and> g' = snd (next_u64 g) \<and> of_nat i = (ucast (drop_bit 64 ?p) :: usize)"
    by simp
qed

theorem rng_index_u128_witness:
  "rng_index (rng_new 42) 0 = None
   \<and> (\<exists>i g'. rng_index (rng_new 42) (unat (3 :: usize)) = Some (i, g') \<and> i < unat (3 :: usize))"
  using rng_index_u128 [of "rng_new 42" 3] by auto

text \<open>
  the generator never reaches the fixed point zero of xorshift: it starts from a nonzero
  state, every step keeps the state nonzero, and the step is injective, so two distinct states
  never merge.
\<close>

theorem rng_state_never_zero:
  "rng_state (rng_new seed) \<noteq> 0
   \<and> (rng_state g \<noteq> 0 \<longrightarrow> rng_state (snd (next_u64 g)) \<noteq> 0)
   \<and> (rng_state (snd (next_u64 g)) = rng_state (snd (next_u64 h)) \<longrightarrow> rng_state g = rng_state h)"
proof (intro conjI impI)
  show "rng_state (rng_new seed) \<noteq> 0" by (simp add: rng_new_def)
  show "rng_state (snd (next_u64 g)) \<noteq> 0" if "rng_state g \<noteq> 0"
    using that by (simp add: next_u64_state xorshift_zero_iff)
  show "rng_state g = rng_state h" if "rng_state (snd (next_u64 g)) = rng_state (snd (next_u64 h))"
    using that xorshift_inj by (simp add: next_u64_state)
qed

theorem rng_state_never_zero_witness:
  "rng_state (rng_new 0) \<noteq> 0 \<and> rng_state (snd (next_u64 (rng_new 0))) \<noteq> 0"
  using rng_state_never_zero [of 0 "rng_new 0" "rng_new 0"] by blast

end
