(* ===== verification/Query_Plan.thy ===== *)
theory Query_Plan
  imports Live_Nodes Deterministic_Rng
begin

text \<open>
  \<^verbatim>\<open>src/src/query_plan.rs\<close>: the order in which the attempts of one request try the nodes. A
  plan holds a handle on the live nodes and either the set of nodes a round-robin plan has used or
  the captured order of an affinity plan. A plan is shared behind a mutex, so each operation is
  one step on the plan and on the live state.
\<close>

section \<open>State and operations\<close>

datatype 'u query_plan_state =
    RoundRobin "'u set"
  | Ordered "'u list" nat

record 'u query_plan =
  plan_live_nodes :: handle
  plan_state :: "'u query_plan_state"

definition new_basic :: "handle \<Rightarrow> 'u query_plan" where
  "new_basic h = \<lparr>plan_live_nodes = h, plan_state = RoundRobin {}\<rparr>"

definition sort_node_urls :: "('u, 'x) url_api_scheme \<Rightarrow> 'u list \<Rightarrow> 'u list" where
  "sort_node_urls U nodes = sort_key (as_str U) nodes"

definition sorted_affinity_nodes ::
  "('u, 'x) url_api_scheme \<Rightarrow> handle \<Rightarrow> call \<Rightarrow> 'u live_state \<Rightarrow> 'u list \<times> 'u live_state" where
  "sorted_affinity_nodes U h c st =
     (let (nodes, st') = get_live_nodes h (fst c) (snd c) st in (sort_node_urls U nodes, st'))"

text \<open>The loop of \<^verbatim>\<open>new_with_hash\<close>; \<open>None\<close> is a failed assertion of \<^verbatim>\<open>index\<close>.\<close>

function drain :: "deterministic_rng \<Rightarrow> 'u list \<Rightarrow> 'u list \<Rightarrow> 'u list option" where
  "drain g remaining nodes =
     (if remaining = [] then Some nodes
      else case rng_index g (length remaining) of
          None \<Rightarrow> None
        | Some (index, g') \<Rightarrow>
            (let (x, rest) = swap_remove remaining index in drain g' rest (nodes @ [x])))"
  by pat_completeness auto
termination
proof (relation "measure (\<lambda>(g, remaining, nodes). length remaining)", goal_cases)
  case (2 g remaining nodes p index g' q x rest)
  then have "length rest = length remaining - 1" using length_swap_remove [of remaining index] by (metis snd_conv)
  with 2 show ?case by (cases remaining) auto
qed simp

declare drain.simps [simp del]

definition new_with_hash ::
  "('u, 'x) url_api_scheme \<Rightarrow> handle \<Rightarrow> call \<Rightarrow> u64 \<Rightarrow> 'u live_state \<Rightarrow> ('u query_plan \<times> 'u live_state) option" where
  "new_with_hash U h c seed st =
     (let (remaining, st') = sorted_affinity_nodes U h c st
      in map_option (\<lambda>nodes. (\<lparr>plan_live_nodes = h, plan_state = Ordered nodes 0\<rparr>, st'))
           (drain (rng_new seed) remaining []))"

fun preferred_loop :: "'u list \<Rightarrow> 'u list \<Rightarrow> 'u list \<Rightarrow> 'u list" where
  "preferred_loop [] ordered nodes = ordered @ nodes"
| "preferred_loop (p # ps) ordered nodes =
     (case position (\<lambda>node. node = p) nodes of
        None \<Rightarrow> preferred_loop ps ordered nodes
      | Some index \<Rightarrow>
          (let (x, rest) = vec_remove nodes index in preferred_loop ps (ordered @ [x]) rest))"

definition new_with_preferred_nodes :: "handle \<Rightarrow> 'u list \<Rightarrow> 'u list \<Rightarrow> 'u query_plan" where
  "new_with_preferred_nodes h preferred_nodes snapshot =
     \<lparr>plan_live_nodes = h, plan_state = Ordered (preferred_loop preferred_nodes [] snapshot) 0\<rparr>"

definition next_node ::
  "call \<Rightarrow> 'u query_plan \<Rightarrow> 'u live_state \<Rightarrow> 'u option \<times> 'u query_plan \<times> 'u live_state" where
  "next_node c p st =
     (case plan_state p of
        RoundRobin used \<Rightarrow>
          (case get_next_node_round_robin (plan_live_nodes p) (fst c) (snd c) used st of
             (None, st') \<Rightarrow> (None, p, st')
           | (Some node, st') \<Rightarrow> (Some node, p\<lparr>plan_state := RoundRobin (insert node used)\<rparr>, st'))
      | Ordered nodes next \<Rightarrow>
          if next < length nodes
          then (Some (nodes ! next), p\<lparr>plan_state := Ordered nodes (next + 1)\<rparr>, st)
          else (None, p, st))"

definition restart :: "'u query_plan \<Rightarrow> 'u query_plan" where
  "restart p = p\<lparr>plan_state := (case plan_state p of
     RoundRobin used \<Rightarrow> RoundRobin {} | Ordered nodes next \<Rightarrow> Ordered nodes 0)\<rparr>"

definition next_node_or_restart ::
  "call \<Rightarrow> 'u query_plan \<Rightarrow> 'u live_state \<Rightarrow> 'u option \<times> 'u query_plan \<times> 'u live_state" where
  "next_node_or_restart c p st =
     (case next_node c p st of
        (Some node, p', st') \<Rightarrow> (Some node, p', st')
      | (None, p', st') \<Rightarrow> next_node c (restart p') st')"

text \<open>
  \<^verbatim>\<open>preferred_node_for_hash\<close> on a snapshot. A non-empty snapshot never fails the assertion of
  \<^verbatim>\<open>index\<close> (\<open>xorshift_source.pick_total\<close>).
\<close>

definition preferred_node_for_hash :: "'u list \<Rightarrow> u64 \<Rightarrow> 'u option" where
  "preferred_node_for_hash nodes seed =
     (if nodes = [] then None
      else case rng_index (rng_new seed) (length nodes) of
          None \<Rightarrow> None
        | Some (idx, g) \<Rightarrow> Some (nodes ! idx))"

section \<open>Facts\<close>

lemma drain_Nil [simp]: "drain g [] nodes = Some nodes"
  by (simp add: drain.simps)

lemma drain_step:
  assumes "remaining \<noteq> []" and "rng_index g (length remaining) = Some (i, g')"
  shows "drain g remaining nodes =
    drain g' (snd (swap_remove remaining i)) (nodes @ [fst (swap_remove remaining i)])"
  using assms by (subst drain.simps) (simp add: split_def Let_def)

lemma swap_remove_mset_pair:
  assumes "i < length xs"
  shows "mset xs = add_mset (fst (swap_remove xs i)) (mset (snd (swap_remove xs i)))"
    and "fst (swap_remove xs i) = xs ! i"
  using mset_swap_remove [OF assms] by (simp_all add: swap_remove_def Let_def)

text \<open>Draining ends without a panic and appends a permutation of what remained.\<close>

lemma drain_perm: "\<exists>ys. drain g remaining nodes = Some (nodes @ ys) \<and> mset ys = mset remaining"
proof (induction "length remaining" arbitrary: g remaining nodes)
  case (Suc n)
  then have ne: "remaining \<noteq> []" by auto
  then obtain i g' where i: "rng_index g (length remaining) = Some (i, g')" "i < length remaining"
    using xorshift_source.pick_total [of "length remaining" g] by auto
  let ?x = "fst (swap_remove remaining i)" and ?rest = "snd (swap_remove remaining i)"
  have "n = length ?rest" using Suc(2) by simp
  then obtain ys where "drain g' ?rest (nodes @ [?x]) = Some ((nodes @ [?x]) @ ys)" "mset ys = mset ?rest"
    using Suc(1) by blast
  then have "drain g remaining nodes = Some (nodes @ ?x # ys) \<and> mset (?x # ys) = mset remaining"
    using drain_step [OF ne i(1)] swap_remove_mset_pair(1) [OF i(2)] by simp
  then show ?case by blast
qed simp

lemma preferred_loop_perm: "mset (preferred_loop ps ordered nodes) = mset ordered + mset nodes"
proof (induction ps ordered nodes rule: preferred_loop.induct)
  case (2 p ps ordered nodes)
  show ?case
  proof (cases "position (\<lambda>node. node = p) nodes")
    case None
    with 2 show ?thesis by simp
  next
    case (Some i)
    then have "i < length nodes" by (simp add: position_Some)
    then show ?thesis using 2 Some mset_vec_remove [of i nodes]
      by (simp add: vec_remove_def Let_def)
  qed
qed simp

lemma position_remove1:
  assumes "position (\<lambda>node. node = p) nodes = Some i"
  shows "vec_remove nodes i = (p, remove1 p nodes)"
  using assms
proof (induction nodes arbitrary: i)
  case (Cons a nodes)
  then show ?case by (auto simp: vec_remove_def split: if_splits option.splits)
qed simp

lemma position_eq_None: "position (\<lambda>node. node = p) nodes = None \<longleftrightarrow> p \<notin> set nodes"
  by (auto simp: position_None)

lemma preferred_loop_order:
  assumes "distinct nodes" and "set nodes = S - set ordered" and "set ordered \<subseteq> S"
  shows "preferred_loop ps ordered nodes =
    ordered @ first_occurrences (set ordered) (filter (\<lambda>p. p \<in> S) ps) @ filter (\<lambda>n. n \<notin> set ps) nodes"
  using assms
proof (induction ps ordered nodes rule: preferred_loop.induct)
  case (2 p ps ordered nodes)
  show ?case
  proof (cases "p \<in> set nodes")
    case False
    then have "filter (\<lambda>n. n \<notin> set (p # ps)) nodes = filter (\<lambda>n. n \<notin> set ps) nodes"
      by (intro filter_cong) auto
    moreover have "p \<in> S \<longleftrightarrow> p \<in> set ordered" using False "2.prems" by auto
    moreover have "position (\<lambda>node. node = p) nodes = None" using False by (simp add: position_eq_None)
    ultimately show ?thesis using "2.IH"(1) "2.prems" by simp
  next
    case True
    then obtain i where i: "position (\<lambda>node. node = p) nodes = Some i"
      using position_eq_None [of p nodes] by (cases "position (\<lambda>node. node = p) nodes") auto
    have r: "remove1 p nodes = filter (\<lambda>n. n \<noteq> p) nodes"
      using "2.prems"(1) by (simp add: distinct_remove1_removeAll removeAll_filter_not_eq) (metis)
    have "preferred_loop ps (ordered @ [p]) (remove1 p nodes) = (ordered @ [p])
        @ first_occurrences (set (ordered @ [p])) (filter (\<lambda>p. p \<in> S) ps)
        @ filter (\<lambda>n. n \<notin> set ps) (remove1 p nodes)"
      using "2.prems" True i
      by (intro "2.IH"(2) [OF i refl, of p "remove1 p nodes"]) (auto simp: position_remove1)
    moreover have "filter (\<lambda>n. n \<notin> set ps) (remove1 p nodes) = filter (\<lambda>n. n \<notin> set (p # ps)) nodes"
      unfolding r by (auto intro: filter_cong)
    ultimately show ?thesis using i True "2.prems" by (auto simp: position_remove1)
  qed
qed simp

text \<open>
  The attempts of one request: calls of \<^verbatim>\<open>next_node_or_restart\<close>, each in its context; before
  each call other users of the live nodes act.
\<close>

fun attempts ::
  "(call \<times> ('u live_state \<Rightarrow> 'u live_state)) list \<Rightarrow> 'u query_plan \<Rightarrow> 'u live_state \<Rightarrow> 'u option list" where
  "attempts [] p st = []"
| "attempts ((c, env) # es) p st =
     (let (x, p', st') = next_node_or_restart c p (env st) in x # attempts es p' st')"

text \<open>A pass of a plan, with other users of the live nodes acting before each call.\<close>

fun plan_pass ::
  "(call \<times> ('u live_state \<Rightarrow> 'u live_state)) list \<Rightarrow> 'u query_plan \<Rightarrow> 'u live_state \<Rightarrow>
   'u option list \<times> 'u query_plan \<times> 'u live_state" where
  "plan_pass [] p st = ([], p, st)"
| "plan_pass ((c, env) # es) p st =
     (let (x, p', st') = next_node c p (env st); (xs, r) = plan_pass es p' st' in (x # xs, r))"

lemma plan_pass_walk:
  "plan_pass es \<lparr>plan_live_nodes = h, plan_state = RoundRobin used\<rparr> st =
     (case handle_source.rr_walk h es used st of
        (xs, used', st') \<Rightarrow> (xs, \<lparr>plan_live_nodes = h, plan_state = RoundRobin used'\<rparr>, st'))"
proof (induction es arbitrary: used st)
  case (Cons e es)
  obtain rt now env where e: "e = ((rt, now), env)" by (metis surj_pair)
  obtain x st' where n: "get_next_node_round_robin h rt now used (env st) = (x, st')"
    by (cases "get_next_node_round_robin h rt now used (env st)")
  obtain ys used' s' where "handle_source.rr_walk h es (used \<union> set_option x) st' = (ys, used', s')"
    by (metis surj_pair)
  with n Cons [of "used \<union> set_option x" st'] show ?case
    by (cases x) (simp_all add: e next_node_def)
qed simp

text \<open>Environments of a list of calls that keep the membership of the handle.\<close>

definition keeps_members ::
  "handle \<Rightarrow> (call \<times> ('u live_state \<Rightarrow> 'u live_state)) list \<Rightarrow> bool" where
  "keeps_members h es \<longleftrightarrow> (\<forall>(c, env) \<in> set es. \<forall>s. live_nodes (view_of h (env s)) = live_nodes (view_of h s))"

lemma keeps_members_simps [simp]:
  "keeps_members h []"
  "keeps_members h ((c, env) # es) \<longleftrightarrow>
     (\<forall>s. live_nodes (view_of h (env s)) = live_nodes (view_of h s)) \<and> keeps_members h es"
  "keeps_members h (es @ fs) \<longleftrightarrow> keeps_members h es \<and> keeps_members h fs"
  by (auto simp: keeps_members_def)

lemma pass_covers:
  assumes "keeps_members h es" and "length es = card (set (live_nodes (view_of h st)))"
  shows "\<exists>xs st'. plan_pass es (new_basic h) st = (map Some xs, \<lparr>plan_live_nodes = h, plan_state = RoundRobin (set xs)\<rparr>, st')
    \<and> distinct xs \<and> set xs = set (live_nodes (view_of h st)) \<and> live_nodes (view_of h st') = live_nodes (view_of h st)"
proof -
  obtain xs st' where "handle_source.rr_walk h es {} st = (map Some xs, {} \<union> set xs, st')" "distinct xs"
    "set xs = set (live_nodes (view_of h st))" "live_nodes (view_of h st') = live_nodes (view_of h st)"
    using handle_source.rr_walk_covers [of es h st "{}"] assms by (fastforce simp: keeps_members_def)
  then show ?thesis unfolding new_basic_def plan_pass_walk by auto
qed

lemma full_pass_None:
  assumes "set (live_nodes (view_of h st)) \<subseteq> used"
  shows "fst (next_node c \<lparr>plan_live_nodes = h, plan_state = RoundRobin used\<rparr> st) = None"
  using handle_source.next_None [where h = h and c = c and used = used and s = st] assms
  by (auto simp: next_node_def split_def split: prod.splits option.splits)

text \<open>While a pass has nodes left an attempt does not restart; after it the next attempt does.\<close>

lemma attempts_pass:
  assumes "plan_pass es p st = (map Some xs, p', st')"
  shows "attempts (es @ fs) p st = map Some xs @ attempts fs p' st'"
  using assms
proof (induction es arbitrary: p st xs)
  case (Cons e es)
  obtain c env where e: "e = (c, env)" by (cases e)
  obtain x p1 st1 where n: "next_node c p (env st) = (x, p1, st1)" by (cases "next_node c p (env st)")
  obtain ys r where "plan_pass es p1 st1 = (ys, r)" by (cases "plan_pass es p1 st1")
  with Cons.prems n obtain y zs where "x = Some y" "xs = y # zs" "plan_pass es p1 st1 = (map Some zs, p', st')"
    by (auto simp: e Cons_eq_map_conv)
  with Cons.IH [of p1 st1 zs] n show ?case by (simp add: e next_node_or_restart_def)
qed simp

lemma attempts_restart:
  assumes "set (live_nodes (view_of h (env st))) \<subseteq> used" and "live_nodes (view_of h (env st)) \<noteq> []"
  shows "\<exists>g. attempts ((c, env) # es) \<lparr>plan_live_nodes = h, plan_state = RoundRobin used\<rparr> st
      = attempts ((c, g) # es) (new_basic h) st
    \<and> (\<forall>s. live_nodes (view_of h (g s)) = live_nodes (view_of h (env s)))"
proof -
  let ?p = "\<lparr>plan_live_nodes = h, plan_state = RoundRobin used\<rparr>"
  obtain rt now where c: "c = (rt, now)" by (cases c)
  define g where "g s = snd (get_next_node_round_robin h rt now used (env s))" for s
  have m: "live_nodes (view_of h (g s)) = live_nodes (view_of h (env s))" for s
    using handle_source.next_members [of h "(rt, now)" used "env s"] by (simp add: g_def)
  have first: "next_node c ?p (env st) = (None, ?p, g st)"
    using full_pass_None [OF assms(1), of c]
    by (auto simp: next_node_def c g_def split: prod.splits option.splits)
  have "fst (get_next_node_round_robin h rt now {} (g st)) \<noteq> None"
    using handle_source.next_None [of h "(rt, now)" "{}" "g st"] m assms(2) by simp
  then obtain y p' st' where again: "next_node c (new_basic h) (g st) = (Some y, p', st')"
    by (cases "get_next_node_round_robin h rt now {} (g st)") (auto simp: next_node_def new_basic_def c)
  have "restart ?p = new_basic h" by (simp add: restart_def new_basic_def)
  then show ?thesis
    using first again m by (intro exI [of _ g]) (simp add: next_node_or_restart_def)
qed

lemma attempts_round_robin:
  assumes "keeps_members h es" and "length es = k * card (set (live_nodes (view_of h st)))"
    and "used = {} \<or> set (live_nodes (view_of h st)) \<subseteq> used"
  shows "mset (attempts es \<lparr>plan_live_nodes = h, plan_state = RoundRobin used\<rparr> st)
    = repeat_mset k (image_mset Some (mset_set (set (live_nodes (view_of h st)))))"
  using assms
proof (induction k arbitrary: es st used)
  case (Suc k)
  let ?n = "card (set (live_nodes (view_of h st)))"
  show ?case
  proof (cases "?n = 0")
    case True
    then show ?thesis using Suc.prems by simp
  next
    case False
    have fresh: "mset (attempts fs (new_basic h) st)
        = repeat_mset (Suc k) (image_mset Some (mset_set (set (live_nodes (view_of h st)))))"
      if fs: "keeps_members h fs" "length fs = Suc k * ?n" for fs
    proof -
      have split: "keeps_members h (take ?n fs)" "keeps_members h (drop ?n fs)"
        using fs(1) keeps_members_simps(3) [of h "take ?n fs" "drop ?n fs"] by simp_all
      obtain xs st' where p: "plan_pass (take ?n fs) (new_basic h) st =
            (map Some xs, \<lparr>plan_live_nodes = h, plan_state = RoundRobin (set xs)\<rparr>, st')"
        "distinct xs" "set xs = set (live_nodes (view_of h st))" "live_nodes (view_of h st') = live_nodes (view_of h st)"
        using pass_covers [OF split(1), of st] fs(2) by auto
      have "mset (attempts (drop ?n fs) \<lparr>plan_live_nodes = h, plan_state = RoundRobin (set xs)\<rparr> st')
          = repeat_mset k (image_mset Some (mset_set (set (live_nodes (view_of h st)))))"
        using Suc.IH [OF split(2), of st' "set xs"] p(3,4) fs(2) by simp
      moreover have "mset xs = mset_set (set (live_nodes (view_of h st)))"
        using p(2,3) by (metis mset_set_set)
      ultimately show ?thesis
        using attempts_pass [OF p(1), of "drop ?n fs"] by simp
    qed
    from False Suc.prems(2) obtain c env rest where es: "es = (c, env) # rest"
      by (metis list.exhaust list.size(3) mult_is_0 nat.distinct(1) prod.exhaust_sel)
    show ?thesis
    proof (cases "used = {}")
      case True
      then show ?thesis using fresh [OF Suc.prems(1,2)] by (simp add: new_basic_def)
    next
      case full: False
      have m: "live_nodes (view_of h (env st)) = live_nodes (view_of h st)"
        using Suc.prems(1) by (simp add: es)
      then obtain g where g: "attempts es \<lparr>plan_live_nodes = h, plan_state = RoundRobin used\<rparr> st
            = attempts ((c, g) # rest) (new_basic h) st"
        "\<forall>s. live_nodes (view_of h (g s)) = live_nodes (view_of h (env s))"
        using attempts_restart [of h env st used c rest] full Suc.prems(3) False by (auto simp: es)
      have "keeps_members h ((c, g) # rest)" "length ((c, g) # rest) = Suc k * ?n"
        using g(2) Suc.prems(1,2) by (simp_all add: es)
      from fresh [OF this] show ?thesis unfolding g(1) .
    qed
  qed
qed simp

section \<open>Correctness\<close>

text \<open>
  C22: one pass of a round-robin plan tries every node. While the membership stays the same, and
  whatever other requests do to the shared counter and to discovery between the calls, as many
  calls of \<^verbatim>\<open>next_node\<close> as there are distinct live nodes return each of them exactly once, and
  the next call returns \<^verbatim>\<open>None\<close>.
\<close>

theorem round_robin_pass:
  assumes "\<forall>(c, env) \<in> set es. \<forall>s. live_nodes (view_of h (env s)) = live_nodes (view_of h s)"
    and "length es = card (set (live_nodes (view_of h st)))"
  shows "\<exists>xs p st'. plan_pass es (new_basic h) st = (map Some xs, p, st') \<and> distinct xs
    \<and> set xs = set (live_nodes (view_of h st)) \<and> fst (next_node c p st') = None"
proof -
  obtain xs st' where w: "plan_pass es (new_basic h) st = (map Some xs, \<lparr>plan_live_nodes = h, plan_state = RoundRobin (set xs)\<rparr>, st')"
    "distinct xs" "set xs = set (live_nodes (view_of h st))" "live_nodes (view_of h st') = live_nodes (view_of h st)"
    using pass_covers [of h es st] assms by (auto simp: keeps_members_def)
  then show ?thesis using full_pass_None [of h st' "set xs" c] by auto
qed

theorem round_robin_pass_witness:
  "\<exists>xs p st'. plan_pass [((None, 1), id), ((Some 3, 2), id)] (new_basic OrdinaryHandle)
      \<lparr>ordinary_view = view_new from_cluster [''a'', ''b''], affinity_nodes = None, manager = None\<rparr>
      = (map Some xs, p, st') \<and> distinct xs \<and> set xs = {''a'', ''b''}"
proof -
  let ?st = "\<lparr>ordinary_view = view_new from_cluster [''a'', ''b''], affinity_nodes = None, manager = None\<rparr>"
  let ?es = "[((None, 1), id), ((Some 3, 2), id)] :: (call \<times> (string live_state \<Rightarrow> string live_state)) list"
  have nodes: "live_nodes (view_of OrdinaryHandle ?st) = [''a'', ''b'']"
    by (simp add: view_of_def view_new_def)
  have "\<forall>(c, env) \<in> set ?es. \<forall>s. live_nodes (view_of OrdinaryHandle (env s)) = live_nodes (view_of OrdinaryHandle s)"
    by simp
  moreover have "length ?es = card (set (live_nodes (view_of OrdinaryHandle ?st)))"
    unfolding nodes by simp
  ultimately obtain xs p st' where "plan_pass ?es (new_basic OrdinaryHandle) ?st = (map Some xs, p, st')"
    "distinct xs" "set xs = set (live_nodes (view_of OrdinaryHandle ?st))"
    using round_robin_pass by blast
  then show ?thesis unfolding nodes by auto
qed

text \<open>
  a request is always routed while there is a node. \<^verbatim>\<open>next_node_or_restart\<close> returns
  \<^verbatim>\<open>None\<close> exactly when the round-robin membership, or the captured order of an affinity plan, is
  empty, and what it returns is one of these nodes.
\<close>

theorem next_node_or_restart_routes:
  "let nodes = (case plan_state p of RoundRobin used \<Rightarrow> live_nodes (view_of (plan_live_nodes p) st)
                                   | Ordered ns i \<Rightarrow> ns)
   in (fst (next_node_or_restart c p st) = None \<longleftrightarrow> nodes = [])
    \<and> set_option (fst (next_node_or_restart c p st)) \<subseteq> set nodes"
proof (cases "plan_state p")
  case (Ordered ns i)
  then show ?thesis by (auto simp: next_node_or_restart_def next_node_def restart_def)
next
  case (RoundRobin used)
  let ?h = "plan_live_nodes p"
  obtain rt now where c: "c = (rt, now)" by (cases c)
  obtain x st' where n: "get_next_node_round_robin ?h rt now used st = (x, st')"
    by (cases "get_next_node_round_robin ?h rt now used st")
  obtain y st'' where n': "get_next_node_round_robin ?h rt now {} st' = (y, st'')"
    by (cases "get_next_node_round_robin ?h rt now {} st'")
  have m: "live_nodes (view_of ?h st') = live_nodes (view_of ?h st)"
    using handle_source.next_members [of ?h "(rt, now)" used st] n by simp
  have x: "x = None \<longleftrightarrow> set (live_nodes (view_of ?h st)) \<subseteq> used" "set_option x \<subseteq> set (live_nodes (view_of ?h st))"
    using handle_source.next_None [of ?h "(rt, now)" used st] handle_source.next_Some [of ?h "(rt, now)" used st] n
    by (cases x; auto)+
  have y: "y = None \<longleftrightarrow> live_nodes (view_of ?h st) = []" "set_option y \<subseteq> set (live_nodes (view_of ?h st))"
    using handle_source.next_None [of ?h "(rt, now)" "{}" st'] handle_source.next_Some [of ?h "(rt, now)" "{}" st'] n' m
    by (cases y; auto)+
  show ?thesis using RoundRobin c n n' x y
    by (cases x; cases y) (auto simp: next_node_or_restart_def next_node_def restart_def)
qed

lemma attempts_ordered:
  assumes "ns \<noteq> []" and "i \<le> length ns"
  shows "attempts es \<lparr>plan_live_nodes = h, plan_state = Ordered ns i\<rparr> st =
    map (\<lambda>k. Some (ns ! ((i + k) mod length ns))) [0..<length es]"
  using assms
proof (induction es arbitrary: i st)
  case (Cons e es)
  obtain c env where e: "e = (c, env)" by (cases e)
  let ?i = "if i < length ns then i else 0"
  have "next_node_or_restart c \<lparr>plan_live_nodes = h, plan_state = Ordered ns i\<rparr> (env st)
      = (Some (ns ! (i mod length ns)), \<lparr>plan_live_nodes = h, plan_state = Ordered ns (Suc ?i)\<rparr>, env st)"
    using Cons.prems by (auto simp: next_node_or_restart_def next_node_def restart_def)
  moreover have "(Suc ?i + k) mod length ns = (i + Suc k) mod length ns" for k
    using Cons.prems by (cases "i < length ns") (simp_all add: not_less flip: add_Suc_right)
  moreover have "attempts es \<lparr>plan_live_nodes = h, plan_state = Ordered ns (Suc ?i)\<rparr> (env st) =
      map (\<lambda>k. Some (ns ! ((Suc ?i + k) mod length ns))) [0..<length es]"
    using Cons.prems by (intro Cons.IH) (auto simp: Suc_le_eq)
  ultimately show ?case by (simp add: e map_upt_Suc del: upt_Suc)
qed simp

text \<open>
  the attempts of a request with an affinity plan walk through the captured order and begin
  again after its last node: attempt \<open>k\<close> goes to node \<open>k\<close> modulo the number of nodes, whatever
  happens to the membership meanwhile.
\<close>

theorem affinity_attempts_cycle:
  assumes "plan_state p = Ordered ns 0" and "ns \<noteq> []"
  shows "attempts es p st = map (\<lambda>k. Some (ns ! (k mod length ns))) [0..<length es]"
  using attempts_ordered [of ns 0 es "plan_live_nodes p" st] assms by (cases p) simp

theorem affinity_attempts_cycle_witness:
  "attempts [((None, 0), id), ((None, 1), id), ((None, 2), id)] (new_with_preferred_nodes OrdinaryHandle [''b''] [''a'', ''b''])
     \<lparr>ordinary_view = view_new from_cluster [], affinity_nodes = None, manager = None\<rparr>
   = [Some ''b'', Some ''a'', Some ''b'']"
proof -
  have "plan_state (new_with_preferred_nodes OrdinaryHandle [''b''] [''a'', ''b'']) = Ordered [''b'', ''a''] 0"
    by (simp add: new_with_preferred_nodes_def vec_remove_def)
  from affinity_attempts_cycle [OF this] show ?thesis by (simp add: upt_rec numeral_2_eq_2)
qed

text \<open>
  an affinity plan is a function of the hash and of the set-up of the cluster only: creating
  it does not panic, its order is a permutation of the membership, and two clients (two handles,
  two live states) that see the same nodes in any order get the same plan for the same hash.
\<close>

theorem hash_plan_canonical:
  assumes "url_eq_law U"
    and "mset (live_nodes (view_of h st)) = mset (live_nodes (view_of h' s'))"
  shows "\<exists>ns st1 s1. new_with_hash U h c seed st = Some (\<lparr>plan_live_nodes = h, plan_state = Ordered ns 0\<rparr>, st1)
    \<and> new_with_hash U h' c' seed s' = Some (\<lparr>plan_live_nodes = h', plan_state = Ordered ns 0\<rparr>, s1)
    \<and> mset ns = mset (live_nodes (view_of h st))"
proof -
  have sorted: "sort_key (as_str U) (live_nodes (view_of h st)) = sort_key (as_str U) (live_nodes (view_of h' s'))"
    using assms by (intro sort_key_mset_unique) (auto simp: url_eq_law_def)
  obtain ns where ns: "drain (rng_new seed) (sort_key (as_str U) (live_nodes (view_of h st))) [] = Some ns"
    "mset ns = mset (live_nodes (view_of h st))"
    using drain_perm [of "rng_new seed" "sort_key (as_str U) (live_nodes (view_of h st))" "[]"] by auto
  then show ?thesis using sorted
    by (auto simp: new_with_hash_def sorted_affinity_nodes_def sort_node_urls_def get_live_nodes_def Let_def)
qed

theorem hash_plan_canonical_witness:
  "\<exists>ns st1 s1.
     new_with_hash text_url OrdinaryHandle (None, 0) 42
       \<lparr>ordinary_view = view_new from_cluster [''a'', ''b''], affinity_nodes = None, manager = None\<rparr>
       = Some (\<lparr>plan_live_nodes = OrdinaryHandle, plan_state = Ordered ns 0\<rparr>, st1)
     \<and> new_with_hash text_url OrdinaryHandle (None, 9) 42
       \<lparr>ordinary_view = view_new from_cluster [''b'', ''a''], affinity_nodes = None, manager = None\<rparr>
       = Some (\<lparr>plan_live_nodes = OrdinaryHandle, plan_state = Ordered ns 0\<rparr>, s1)
     \<and> mset ns = {#''a'', ''b''#}"
  using hash_plan_canonical [OF text_url_eq_law, of OrdinaryHandle
      "\<lparr>ordinary_view = view_new from_cluster [''a'', ''b''], affinity_nodes = None, manager = None\<rparr>"
      OrdinaryHandle
      "\<lparr>ordinary_view = view_new from_cluster [''b'', ''a''], affinity_nodes = None, manager = None\<rparr>"
      "(None, 0)" 42 "(None, 9)"]
  by (simp add: view_of_def view_new_def)

text \<open>
  the shortcut agrees with the plan: \<^verbatim>\<open>preferred_node_for_hash\<close> on the sorted snapshot is
  the first node of the plan that \<^verbatim>\<open>new_with_hash\<close> would build from the same membership (and
  \<^verbatim>\<open>None\<close> for an empty one).
\<close>

theorem preferred_node_is_plan_head:
  "\<exists>ns st1. new_with_hash U h c seed st = Some (\<lparr>plan_live_nodes = h, plan_state = Ordered ns 0\<rparr>, st1)
     \<and> preferred_node_for_hash (fst (sorted_affinity_nodes U h c st)) seed
         = (case ns of [] \<Rightarrow> None | n # _ \<Rightarrow> Some n)"
proof -
  let ?s = "fst (sorted_affinity_nodes U h c st)"
  have plan: "new_with_hash U h c seed st = Some (\<lparr>plan_live_nodes = h, plan_state = Ordered ns 0\<rparr>, snd (sorted_affinity_nodes U h c st))"
    if "drain (rng_new seed) ?s [] = Some ns" for ns
    using that by (simp add: new_with_hash_def split_def Let_def)
  show ?thesis
  proof (cases "?s = []")
    case True
    with plan [of "[]"] show ?thesis by (auto simp: preferred_node_for_hash_def)
  next
    case False
    then obtain i g where i: "rng_index (rng_new seed) (length ?s) = Some (i, g)" "i < length ?s"
      using xorshift_source.pick_total [of "length ?s" "rng_new seed"] by auto
    obtain ys where "drain g (snd (swap_remove ?s i)) [fst (swap_remove ?s i)] = Some (fst (swap_remove ?s i) # ys)"
      using drain_perm [of g "snd (swap_remove ?s i)" "[fst (swap_remove ?s i)]"] by auto
    then have "drain (rng_new seed) ?s [] = Some (?s ! i # ys)"
      using drain_step [OF False i(1), of "[]"] swap_remove_mset_pair(2) [OF i(2)] by simp
    with plan show ?thesis using False i by (auto simp: preferred_node_for_hash_def)
  qed
qed

text \<open>
  a voted plan starts with the voted nodes that are in the snapshot, each once and in the
  order of the votes, followed by the other nodes of the snapshot in its order; it is a
  permutation of the snapshot. Votes for nodes outside the snapshot are ignored.
\<close>

theorem preferred_plan_order:
  assumes "distinct snapshot"
  shows "new_with_preferred_nodes h votes snapshot =
    \<lparr>plan_live_nodes = h,
     plan_state = Ordered (first_occurrences {} (filter (\<lambda>v. v \<in> set snapshot) votes)
                           @ filter (\<lambda>n. n \<notin> set votes) snapshot) 0\<rparr>
    \<and> mset (first_occurrences {} (filter (\<lambda>v. v \<in> set snapshot) votes)
            @ filter (\<lambda>n. n \<notin> set votes) snapshot) = mset snapshot"
proof -
  have "preferred_loop votes [] snapshot = first_occurrences {} (filter (\<lambda>v. v \<in> set snapshot) votes)
      @ filter (\<lambda>n. n \<notin> set votes) snapshot"
    using preferred_loop_order [of snapshot "set snapshot" "[]" votes] assms by simp
  then show ?thesis
    using preferred_loop_perm [of votes "[]" snapshot] by (simp add: new_with_preferred_nodes_def)
qed

theorem preferred_plan_order_witness:
  "new_with_preferred_nodes AuxiliaryHandle [''c'', ''x'', ''b''] [''a'', ''b'', ''c''] =
     \<lparr>plan_live_nodes = AuxiliaryHandle, plan_state = Ordered [''c'', ''b'', ''a''] 0\<rparr>"
  using preferred_plan_order [of "[''a'', ''b'', ''c'']" AuxiliaryHandle "[''c'', ''x'', ''b'']"] by simp

end
