(* ===== verification/Hasher.thy ===== *)
theory Hasher
  imports Prelude
begin

text \<open>
  \<^verbatim>\<open>src/src/keyrouting/hasher.rs\<close>: the affinity hash of a partition key. The values are the
  \<^verbatim>\<open>AttributeValue\<close> of the SDK; the MurmurHash3 function of the \<^verbatim>\<open>murmur3\<close> crate is the
  argument \<open>murmur\<close> (bytes and seed to 128 bits).
\<close>

datatype attribute_value =
    AvS string | AvN string | AvB bytes | AvBool bool | AvNull bool
  | AvSs "string list" | AvNs "string list" | AvBs "bytes list"
  | AvL "attribute_value list" | AvM "(string \<times> attribute_value) list" | AvUnknown

type_synonym murmur = "bytes \<Rightarrow> u32 \<Rightarrow> u128"
type_synonym attributes = "(string \<times> attribute_value) list"

definition TYPE_STRING :: u8 where "TYPE_STRING = 0x01"
definition TYPE_NUMBER :: u8 where "TYPE_NUMBER = 0x02"
definition TYPE_BINARY :: u8 where "TYPE_BINARY = 0x03"

definition hash_attribute_value :: "murmur \<Rightarrow> attribute_value \<Rightarrow> u64 option" where
  "hash_attribute_value murmur value =
     (case (case value of
              AvS s \<Rightarrow> Some (TYPE_STRING, string_bytes s)
            | AvN n \<Rightarrow> Some (TYPE_NUMBER, string_bytes n)
            | AvB b \<Rightarrow> Some (TYPE_BINARY, b)
            | _ \<Rightarrow> None) of
        None \<Rightarrow> None
      | Some (pre, bs) \<Rightarrow> Some (ucast (murmur (pre # bs) 0)))"

definition hashable :: "attribute_value \<Rightarrow> bool" where
  "hashable v = (case v of AvS s \<Rightarrow> True | AvN n \<Rightarrow> True | AvB b \<Rightarrow> True | _ \<Rightarrow> False)"

definition key_bytes :: "attribute_value \<Rightarrow> bytes" where
  "key_bytes v = (case v of AvS s \<Rightarrow> TYPE_STRING # string_bytes s
     | AvN n \<Rightarrow> TYPE_NUMBER # string_bytes n | AvB b \<Rightarrow> TYPE_BINARY # b | _ \<Rightarrow> [])"

lemma hash_eq:
  "hash_attribute_value murmur v = (if hashable v then Some (ucast (murmur (key_bytes v) 0)) else None)"
  by (simp add: hash_attribute_value_def hashable_def key_bytes_def split: attribute_value.split)

lemma string_bytes_inj: "string_bytes s = string_bytes t \<Longrightarrow> s = t"
proof -
  have "inj (\<lambda>c. word_of_nat (of_char c :: nat) :: 8 word)"
  proof (rule injI)
    fix c d :: char
    assume "(word_of_nat (of_char c :: nat) :: 8 word) = word_of_nat (of_char d)"
    then have "take_bit 8 (of_char c :: nat) = take_bit 8 (of_char d :: nat)"
      by (simp add: word_of_nat_eq_iff)
    moreover have "(of_char x :: nat) < 256" for x :: char by simp
    ultimately show "c = d" by (simp add: take_bit_nat_eq_self)
  qed
  then show "string_bytes s = string_bytes t \<Longrightarrow> s = t"
    by (simp add: string_bytes_def inj_map_eq_map)
qed

lemma key_bytes_inj: "hashable v \<Longrightarrow> hashable w \<Longrightarrow> key_bytes v = key_bytes w \<Longrightarrow> v = w"
  by (cases v; cases w)
    (auto simp: hashable_def key_bytes_def TYPE_STRING_def TYPE_NUMBER_def TYPE_BINARY_def string_bytes_inj)

text \<open>
  the hashed encoding separates keys: a hash exists exactly for the key types S, N and B, and
  two of these values have the same affinity hash under every hash function only if they are the
  same value of the same type (the string \<open>"42"\<close>, the number 42 and the bytes of \<open>"42"\<close> differ).
\<close>

theorem affinity_hash_separates:
  "(hash_attribute_value murmur v \<noteq> None \<longleftrightarrow> hashable v)
   \<and> ((\<forall>m. hash_attribute_value m v = hash_attribute_value m w) 
       \<longleftrightarrow> (if hashable v \<or> hashable w then v = w else True))"
proof (intro conjI iffI)
  assume eq: "\<forall>m. hash_attribute_value m v = hash_attribute_value m w"
  let ?m = "\<lambda>bs seed. if bs = key_bytes v then 0 else 1"
  have same: "hash_attribute_value ?m v = hash_attribute_value ?m w" using eq by blast
  have "v = w" if h: "hashable v"
  proof -
    have "hashable w" using same h by (auto simp: hash_eq split: if_splits)
    moreover from this have "key_bytes v = key_bytes w" using same h by (auto simp: hash_eq split: if_splits)
    ultimately show ?thesis using key_bytes_inj h by blast
  qed
  moreover have "\<not> hashable w" if "\<not> hashable v" using same that by (auto simp: hash_eq split: if_splits)
  ultimately show "if hashable v \<or> hashable w then v = w else True" by auto
qed (auto simp: hash_eq split: if_splits)

end
