(* ===== verification/Affinity_Config.thy ===== *)
theory Affinity_Config
  imports Prelude
begin

text \<open>
  \<^verbatim>\<open>src/src/keyrouting/affinity_config.rs\<close>: which operations are routed by partition key, and the
  partition key names known in advance. \<^verbatim>\<open>HashMap\<close>s that are only looked up are maps.
\<close>

datatype key_route_affinity_type = AffinityNone | Rmw | AnyWrite

record key_route_affinity_config =
  affinity_type :: key_route_affinity_type
  pk_info_per_table :: "string \<rightharpoonup> string"

record key_route_affinity_config_builder =
  b_affinity_type :: key_route_affinity_type
  b_pk_info_per_table :: "string \<rightharpoonup> string"

definition config_from_type :: "key_route_affinity_type \<Rightarrow> key_route_affinity_config" where
  "config_from_type t = \<lparr>affinity_type = t, pk_info_per_table = Map.empty\<rparr>"

definition affinity_builder :: key_route_affinity_config_builder where
  "affinity_builder = \<lparr>b_affinity_type = AffinityNone, b_pk_info_per_table = Map.empty\<rparr>"

definition with_type ::
  "key_route_affinity_type \<Rightarrow> key_route_affinity_config_builder \<Rightarrow> key_route_affinity_config_builder" where
  "with_type t b = b\<lparr>b_affinity_type := t\<rparr>"

definition with_pk_info ::
  "string \<Rightarrow> string \<Rightarrow> key_route_affinity_config_builder \<Rightarrow> key_route_affinity_config_builder" where
  "with_pk_info table pk b = b\<lparr>b_pk_info_per_table := (b_pk_info_per_table b)(table \<mapsto> pk)\<rparr>"

definition build_affinity :: "key_route_affinity_config_builder \<Rightarrow> key_route_affinity_config" where
  "build_affinity b = \<lparr>affinity_type = b_affinity_type b, pk_info_per_table = b_pk_info_per_table b\<rparr>"

definition is_enabled :: "key_route_affinity_config \<Rightarrow> bool" where
  "is_enabled c \<longleftrightarrow> affinity_type c \<noteq> AffinityNone"

text \<open>A run of the builder's setters: the last type and, per table, the last name win.\<close>

datatype affinity_setter = SetType key_route_affinity_type | SetPk string string

fun run_setter :: "key_route_affinity_config_builder \<Rightarrow> affinity_setter \<Rightarrow> key_route_affinity_config_builder" where
  "run_setter b (SetType t) = with_type t b"
| "run_setter b (SetPk table pk) = with_pk_info table pk b"

fun last_pk :: "string \<Rightarrow> affinity_setter list \<Rightarrow> string option" where
  "last_pk table [] = None"
| "last_pk table (SetPk t pk # ss) =
     (case last_pk table ss of None \<Rightarrow> if t = table then Some pk else None | Some q \<Rightarrow> Some q)"
| "last_pk table (SetType t # ss) = last_pk table ss"

lemma run_setters_pk:
  "b_pk_info_per_table (foldl run_setter b ss) table =
     (case last_pk table ss of None \<Rightarrow> b_pk_info_per_table b table | Some pk \<Rightarrow> Some pk)"
proof (induction ss arbitrary: b)
  case (Cons s ss)
  then show ?case by (cases s) (auto simp: with_type_def with_pk_info_def split: option.splits)
qed simp

end
