(* ===== verification/Classifier.thy ===== *)
theory Classifier
  imports Hasher Affinity_Config
begin

text \<open>
  \<^verbatim>\<open>src/src/keyrouting/classifier.rs\<close>: which requests qualify for partition-key routing and where
  their partition keys may be found. The inputs are the SDK's operation inputs with the fields
  the classifier reads. A \<^verbatim>\<open>HashMap\<close> that is iterated is an association list in an arbitrary
  iteration order.
\<close>

section \<open>Operation inputs\<close>

datatype return_value = RvAllNew | RvAllOld | RvNone | RvUpdatedNew | RvUpdatedOld | RvUnknown string
datatype attribute_action = ActAdd | ActDelete | ActPut | ActUnknown string

record attribute_value_update =
  upd_value :: "attribute_value option"
  upd_action :: "attribute_action option"

record put_item_input =
  put_table_name :: "string option"
  put_item :: "attributes option"
  put_condition_expression :: "string option"
  put_expected :: "(string \<times> attribute_value option) list option"
  put_return_values :: "return_value option"

record delete_item_input =
  del_table_name :: "string option"
  del_key :: "attributes option"
  del_condition_expression :: "string option"
  del_expected :: "(string \<times> attribute_value option) list option"
  del_return_values :: "return_value option"

record update_item_input =
  up_table_name :: "string option"
  up_key :: "attributes option"
  up_update_expression :: "string option"
  up_condition_expression :: "string option"
  up_expected :: "(string \<times> attribute_value option) list option"
  up_return_values :: "return_value option"
  up_attribute_updates :: "(string \<times> attribute_value_update) list option"

record write_request =
  put_request :: "attributes option"
  delete_request :: "attributes option"

record batch_write_item_input =
  request_items :: "(string \<times> write_request list) list option"

text \<open>\<^verbatim>\<open>Input\<close> is type-erased: a downcast succeeds on its own operation only.\<close>

datatype input =
    PutItemInput put_item_input
  | UpdateItemInput update_item_input
  | DeleteItemInput delete_item_input
  | BatchWriteItemInput batch_write_item_input
  | OtherInput

datatype dynamo_op =
    Put put_item_input
  | Update update_item_input
  | Delete delete_item_input
  | BatchWrite batch_write_item_input

record partition_key_candidate =
  cand_table_name :: string
  cand_attributes :: attributes

section \<open>Classification\<close>

fun from_input :: "input \<Rightarrow> dynamo_op option" where
  "from_input (PutItemInput r) = Some (Put r)"
| "from_input (UpdateItemInput r) = Some (Update r)"
| "from_input (DeleteItemInput r) = Some (Delete r)"
| "from_input (BatchWriteItemInput r) = Some (BatchWrite r)"
| "from_input OtherInput = None"

definition is_some_and :: "('a \<Rightarrow> bool) \<Rightarrow> 'a option \<Rightarrow> bool" where
  "is_some_and P x = (case x of None \<Rightarrow> False | Some a \<Rightarrow> P a)"

definition should_apply_put :: "key_route_affinity_type \<Rightarrow> put_item_input \<Rightarrow> bool" where
  "should_apply_put mode r =
     (if mode = AnyWrite then True
      else is_some_and (\<lambda>s. s \<noteq> []) (put_condition_expression r)
        \<or> is_some_and (\<lambda>e. e \<noteq> []) (put_expected r)
        \<or> is_some_and (\<lambda>rv. rv \<noteq> RvNone) (put_return_values r))"

definition should_apply_delete :: "key_route_affinity_type \<Rightarrow> delete_item_input \<Rightarrow> bool" where
  "should_apply_delete mode r =
     (if mode = AnyWrite then True
      else is_some_and (\<lambda>s. s \<noteq> []) (del_condition_expression r)
        \<or> is_some_and (\<lambda>e. e \<noteq> []) (del_expected r)
        \<or> is_some_and (\<lambda>rv. rv \<noteq> RvNone) (del_return_values r))"

fun rmw_updates :: "(string \<times> attribute_value_update) list \<Rightarrow> bool" where
  "rmw_updates [] = False"
| "rmw_updates ((name, u) # us) =
     (case upd_action u of
        None \<Rightarrow> rmw_updates us
      | Some action \<Rightarrow>
          if action = ActAdd then True
          else if action = ActDelete \<and> upd_value u \<noteq> None then True
          else rmw_updates us)"

definition should_apply_update :: "key_route_affinity_type \<Rightarrow> update_item_input \<Rightarrow> bool" where
  "should_apply_update mode r =
     (if mode = AnyWrite then True
      else if is_some_and (\<lambda>s. s \<noteq> []) (up_update_expression r) then True
      else if is_some_and (\<lambda>s. s \<noteq> []) (up_condition_expression r) then True
      else if is_some_and (\<lambda>e. e \<noteq> []) (up_expected r) then True
      else if is_some_and (\<lambda>rv. rv \<in> {RvAllOld, RvUpdatedOld, RvAllNew}) (up_return_values r) then True
      else case up_attribute_updates r of None \<Rightarrow> False | Some updates \<Rightarrow> rmw_updates updates)"

definition should_apply :: "dynamo_op \<Rightarrow> key_route_affinity_type \<Rightarrow> bool" where
  "should_apply op mode =
     (if mode = AffinityNone then False
      else case op of
          Put r \<Rightarrow> should_apply_put mode r
        | Delete r \<Rightarrow> should_apply_delete mode r
        | Update r \<Rightarrow> should_apply_update mode r
        | BatchWrite r \<Rightarrow> mode = AnyWrite)"

section \<open>Partition key candidates\<close>

definition batch_write_request_attributes :: "write_request \<Rightarrow> attributes option" where
  "batch_write_request_attributes w =
     (case delete_request w of Some key \<Rightarrow> Some key | None \<Rightarrow> put_request w)"

definition single_candidate :: "string option \<Rightarrow> attributes option \<Rightarrow> partition_key_candidate list" where
  "single_candidate table attrs =
     (case (table, attrs) of
        (Some t, Some a) \<Rightarrow> [\<lparr>cand_table_name = t, cand_attributes = a\<rparr>]
      | _ \<Rightarrow> [])"

definition table_candidates :: "string \<times> write_request list \<Rightarrow> partition_key_candidate list" where
  "table_candidates tw =
     List.map_filter (\<lambda>w. map_option (\<lambda>a. \<lparr>cand_table_name = fst tw, cand_attributes = a\<rparr>)
       (batch_write_request_attributes w)) (snd tw)"

definition partition_key_candidates :: "dynamo_op \<Rightarrow> partition_key_candidate list" where
  "partition_key_candidates op =
     (case op of
        Put r \<Rightarrow> single_candidate (put_table_name r) (put_item r)
      | Update r \<Rightarrow> single_candidate (up_table_name r) (up_key r)
      | Delete r \<Rightarrow> single_candidate (del_table_name r) (del_key r)
      | BatchWrite r \<Rightarrow>
          (case request_items r of None \<Rightarrow> [] | Some items \<Rightarrow> concat (map table_candidates items)))"

section \<open>Correctness\<close>

lemma rmw_updates_iff:
  "rmw_updates us \<longleftrightarrow> (\<exists>(name, u) \<in> set us. upd_action u = Some ActAdd
      \<or> upd_action u = Some ActDelete \<and> upd_value u \<noteq> None)"
  by (induction us rule: rmw_updates.induct) (auto split: option.splits)

text \<open>The operations that must read the item, field by field.\<close>

definition reads_item :: "dynamo_op \<Rightarrow> bool" where
  "reads_item op =
     (case op of
        Put r \<Rightarrow> put_condition_expression r \<notin> {None, Some []} \<or> put_expected r \<notin> {None, Some []}
          \<or> put_return_values r \<notin> {None, Some RvNone}
      | Delete r \<Rightarrow> del_condition_expression r \<notin> {None, Some []} \<or> del_expected r \<notin> {None, Some []}
          \<or> del_return_values r \<notin> {None, Some RvNone}
      | Update r \<Rightarrow> up_update_expression r \<notin> {None, Some []} \<or> up_condition_expression r \<notin> {None, Some []}
          \<or> up_expected r \<notin> {None, Some []}
          \<or> up_return_values r \<in> {Some RvAllOld, Some RvUpdatedOld, Some RvAllNew}
          \<or> (\<exists>us. up_attribute_updates r = Some us \<and> (\<exists>(name, u) \<in> set us.
                upd_action u = Some ActAdd \<or> upd_action u = Some ActDelete \<and> upd_value u \<noteq> None))
      | BatchWrite r \<Rightarrow> False)"

text \<open>
  the modes are ordered: nothing qualifies under \<^verbatim>\<open>None\<close>, everything the classifier knows
  qualifies under \<^verbatim>\<open>AnyWrite\<close>, and under \<^verbatim>\<open>Rmw\<close> exactly the operations that must read the
  item: a non-empty condition, expectation or update expression, a return value that needs the
  item, or a legacy attribute update that is an ADD or a DELETE of a value, in whatever order the
  attribute updates are iterated. A batch has no such operation.
\<close>

theorem classifier_modes:
  "\<not> should_apply op AffinityNone \<and> should_apply op AnyWrite
   \<and> (should_apply op Rmw \<longleftrightarrow> reads_item op)"
proof (cases op)
  case (Update r)
  then show ?thesis
    by (cases "up_attribute_updates r"; cases "up_return_values r")
      (auto simp: should_apply_def should_apply_update_def reads_item_def is_some_and_def rmw_updates_iff
        split: option.splits)
qed (auto simp: should_apply_def should_apply_put_def should_apply_delete_def
    reads_item_def is_some_and_def split: option.splits)

text \<open>
  the candidates of a batch do not depend on the iteration order of its table map: as a
  multiset they are the same for every order, one candidate per write that has a delete or a put
  request, with the table of the write and, if it has both, the key of the delete.
\<close>

theorem batch_candidates_unordered:
  assumes "request_items r = Some items"
  shows "mset (partition_key_candidates (BatchWrite r)) =
    (\<Sum>(table, writes) \<in># mset items. \<Sum>w \<in># mset writes.
       (case (delete_request w, put_request w) of
          (Some key, _) \<Rightarrow> {#\<lparr>cand_table_name = table, cand_attributes = key\<rparr>#}
        | (None, Some item) \<Rightarrow> {#\<lparr>cand_table_name = table, cand_attributes = item\<rparr>#}
        | (None, None) \<Rightarrow> {#}))"
proof -
  have one: "mset (table_candidates (table, writes)) = (\<Sum>w \<in># mset writes.
       (case (delete_request w, put_request w) of
          (Some key, _) \<Rightarrow> {#\<lparr>cand_table_name = table, cand_attributes = key\<rparr>#}
        | (None, Some item) \<Rightarrow> {#\<lparr>cand_table_name = table, cand_attributes = item\<rparr>#}
        | (None, None) \<Rightarrow> {#}))" for table writes
    by (induction writes)
      (auto simp: table_candidates_def batch_write_request_attributes_def List.map_filter_simps
        split: option.splits)
  have "mset (concat (map table_candidates items)) =
      (\<Sum>(table, writes) \<in># mset items. mset (table_candidates (table, writes)))" for items
    by (induction items) auto
  then show ?thesis using assms by (simp only: partition_key_candidates_def one) simp
qed

theorem batch_candidates_unordered_witness:
  "mset (partition_key_candidates (BatchWrite \<lparr>request_items =
      Some [(''t'', [\<lparr>put_request = Some [(''k'', AvS ''v'')], delete_request = None\<rparr>])]\<rparr>))
   = {#\<lparr>cand_table_name = ''t'', cand_attributes = [(''k'', AvS ''v'')]\<rparr>#}"
  using batch_candidates_unordered
    [of "\<lparr>request_items = Some [(''t'', [\<lparr>put_request = Some [(''k'', AvS ''v'')], delete_request = None\<rparr>])]\<rparr>"
      "[(''t'', [\<lparr>put_request = Some [(''k'', AvS ''v'')], delete_request = None\<rparr>])]"]
  by simp

text \<open>
  of the conditional operations, \<^verbatim>\<open>UpdateItem\<close> differs: a plain update that only asks for
  \<^verbatim>\<open>UPDATED_NEW\<close> is not routed by key under \<^verbatim>\<open>Rmw\<close>, while a put or delete with the same
  return value is.
\<close>

theorem updated_new_not_rmw:
  "\<not> should_apply (Update \<lparr>up_table_name = t, up_key = k, up_update_expression = None,
       up_condition_expression = None, up_expected = None, up_return_values = Some RvUpdatedNew,
       up_attribute_updates = None\<rparr>) Rmw
   \<and> should_apply (Put \<lparr>put_table_name = t, put_item = i, put_condition_expression = None,
       put_expected = None, put_return_values = Some RvUpdatedNew\<rparr>) Rmw
   \<and> should_apply (Delete \<lparr>del_table_name = t, del_key = k, del_condition_expression = None,
       del_expected = None, del_return_values = Some RvUpdatedNew\<rparr>) Rmw"
  by (simp add: should_apply_def should_apply_update_def should_apply_put_def should_apply_delete_def
      is_some_and_def)

end
