(* ===== verification/Resolver.thy ===== *)
theory Resolver
  imports Discovery_Tasks Discovery_Runtime "HOL-Library.Log_Nat"
begin

text \<open>
  \<^verbatim>\<open>src/src/keyrouting/resolver.rs\<close>: the partition key names of tables, configured or found with
  \<^verbatim>\<open>DescribeTable\<close>. \<^verbatim>\<open>DashMap\<close> and \<^verbatim>\<open>DashSet\<close> are their contents. The answers of the service,
  the clock and the random number are arguments. A discovery task owns the marker of its table in
  \<open>in_progress\<close> through its cleanup guard, wherever the future ends.
\<close>

section \<open>State\<close>

definition MAX_RETRIES :: nat where "MAX_RETRIES = 3"
definition INITIAL_RETRY_DELAY_MS :: nat where "INITIAL_RETRY_DELAY_MS = 100"
definition MAX_RETRY_DELAY_MS :: nat where "MAX_RETRY_DELAY_MS = 2000"
definition PERMANENT_FAILURE_COOLDOWN_MS :: nat where
  "PERMANENT_FAILURE_COOLDOWN_MS = 5 * 60 * 1000"

record failure_record =
  fr_timestamp :: instant
  fr_permanent :: bool

record partition_key_resolver =
  r_tasks :: discovery_tasks
  task_table :: "task_id \<rightharpoonup> string"
  discovery_timeout :: "duration option"
  cache :: "string \<rightharpoonup> string"
  in_progress :: "string set"
  failed_tables :: "string \<rightharpoonup> failure_record"

text \<open>\<^verbatim>\<open>as_millis() as u64\<close> truncates to 64 bits.\<close>

definition can_retry :: "instant \<Rightarrow> failure_record \<Rightarrow> bool" where
  "can_retry now rec =
     (if \<not> fr_permanent rec then True
      else ((now - fr_timestamp rec) div 1000000) mod 2 ^ 64 > PERMANENT_FAILURE_COOLDOWN_MS)"

definition new_with_timeout :: "(string \<rightharpoonup> string) \<Rightarrow> duration option \<Rightarrow> partition_key_resolver" where
  "new_with_timeout pk_info timeout =
     \<lparr>r_tasks = new_tasks, task_table = Map.empty, discovery_timeout = timeout, cache = pk_info,
      in_progress = {}, failed_tables = Map.empty\<rparr>"

definition get_partition_key :: "string \<Rightarrow> partition_key_resolver \<Rightarrow> string option" where
  "get_partition_key table r = cache r table"

section \<open>Starting a discovery\<close>

text \<open>
  The part of \<^verbatim>\<open>trigger_discovery\<close> that begins with claiming the marker of the table. Other
  threads may run between it and the checks before it, so it looks at the cache again, and the
  spawn may be refused.
\<close>

definition claim_discovery :: "runtime_id \<Rightarrow> string \<Rightarrow> partition_key_resolver \<Rightarrow> partition_key_resolver" where
  "claim_discovery runtime table r =
     (if table \<in> in_progress r then r
      else let r1 = r\<lparr>in_progress := insert table (in_progress r)\<rparr>
           in if cache r1 table \<noteq> None then r1\<lparr>in_progress := in_progress r1 - {table}\<rparr>
              else let r2 = r1\<lparr>failed_tables := (failed_tables r1)(table := None)\<rparr>
                   in case spawn runtime (r_tasks r2) of
                        (None, d) \<Rightarrow> r2\<lparr>r_tasks := d, in_progress := in_progress r2 - {table}\<rparr>
                      | (Some t, d) \<Rightarrow>
                          r2\<lparr>r_tasks := d, task_table := (task_table r2)(t \<mapsto> table)\<rparr>)"

definition trigger_discovery ::
  "runtime_id option \<Rightarrow> instant \<Rightarrow> string \<Rightarrow> partition_key_resolver \<Rightarrow> partition_key_resolver" where
  "trigger_discovery rt now table r =
     (if is_stopped (r_tasks r) \<or> cache r table \<noteq> None then r
      else if (case failed_tables r table of None \<Rightarrow> False | Some rec \<Rightarrow> \<not> can_retry now rec) then r
      else case rt of None \<Rightarrow> r | Some runtime \<Rightarrow> claim_discovery runtime table r)"

section \<open>The discovery task\<close>

datatype key_type = HashKey | RangeKey | UnknownKey string

record key_schema_element =
  attribute_name :: string
  key_type_of :: key_type

record service_error =
  resource_not_found :: bool
  error_code :: "string option"

record sdk_error =
  as_service_error :: "service_error option"
  raw_status :: "u16 option"

text \<open>The \<^verbatim>\<open>table.key_schema\<close> of a response (either may be missing), or an error.\<close>

datatype describe_result =
    DescribeOk "key_schema_element list option option"
  | DescribeErr sdk_error

definition timeout_error :: sdk_error where
  "timeout_error = \<lparr>as_service_error = None, raw_status = None\<rparr>"

definition is_permanent_failure :: "sdk_error \<Rightarrow> bool" where
  "is_permanent_failure err =
     (case as_service_error err of
        Some svc \<Rightarrow>
          if resource_not_found svc then True
          else if error_code svc = Some ''AccessDeniedException''
                \<or> error_code svc = Some ''ValidationException'' then True
          else raw_status err = Some 403
      | None \<Rightarrow> raw_status err = Some 403)"

text \<open>
  Multiplication of two doubles whose values are integers times powers of two: the exact product
  rounded to 53 bits, half to even. \<^verbatim>\<open>0.2\<close> is the double \<open>3602879701896397 / 2 ^ 54\<close>.
\<close>

definition round53 :: "nat \<Rightarrow> nat" where
  "round53 n =
     (let k = floorlog 2 n - 53; q = n div 2 ^ k; r = n mod 2 ^ k
      in (if 2 ^ k < 2 * r \<or> (2 * r = 2 ^ k \<and> odd q \<and> 0 < k) then q + 1 else q) * 2 ^ k)"

definition jitter_range :: "nat \<Rightarrow> int" where
  "jitter_range base_delay = int (round53 (round53 base_delay * 3602879701896397) div 2 ^ 54)"

text \<open>\<open>rand lo hi\<close> is \<^verbatim>\<open>random_range(lo..=hi)\<close>; the delays that occur are far below the sign bit.\<close>

definition calculate_jittered_delay :: "(int \<Rightarrow> int \<Rightarrow> int) \<Rightarrow> nat \<Rightarrow> nat" where
  "calculate_jittered_delay rand base_delay =
     (let j = jitter_range base_delay
      in if j = 0 then base_delay
         else nat (max 1 (int base_delay + rand (- j) j)))"

definition rand_law :: "(int \<Rightarrow> int \<Rightarrow> int) \<Rightarrow> bool" where
  "rand_law rand \<longleftrightarrow> (\<forall>lo hi. lo \<le> hi \<longrightarrow> lo \<le> rand lo hi \<and> rand lo hi \<le> hi)"

definition saturating_mul2 :: "nat \<Rightarrow> nat" where
  "saturating_mul2 d = min (d * 2) (2 ^ 64 - 1)"

text \<open>
  What happened outside during a discovery: per request its duration and result, per attempt the
  random number source and the time at which the answer is handled.
\<close>

record discovery_world =
  request :: "nat \<Rightarrow> duration \<times> describe_result"
  random :: "nat \<Rightarrow> int \<Rightarrow> int \<Rightarrow> int"
  clock :: "nat \<Rightarrow> instant"

definition response :: "discovery_world \<Rightarrow> duration option \<Rightarrow> nat \<Rightarrow> describe_result" where
  "response w timeout attempt =
     (case timeout of
        Some t \<Rightarrow> if fst (request w attempt) \<le> t then snd (request w attempt) else DescribeErr timeout_error
      | None \<Rightarrow> snd (request w attempt))"

definition hash_key_of :: "key_schema_element list option option \<Rightarrow> string option" where
  "hash_key_of table =
     (case table of
        Some (Some schema) \<Rightarrow> map_option attribute_name (find (\<lambda>k. key_type_of k = HashKey) schema)
      | _ \<Rightarrow> None)"

definition record_failure ::
  "string \<Rightarrow> instant \<Rightarrow> bool \<Rightarrow> partition_key_resolver \<Rightarrow> partition_key_resolver" where
  "record_failure table now permanent r =
     r\<lparr>failed_tables := (failed_tables r)(table \<mapsto> \<lparr>fr_timestamp = now, fr_permanent = permanent\<rparr>)\<rparr>"

text \<open>
  The loop of \<^verbatim>\<open>discover_with_retry\<close>: the sleeps it made and the resolver afterwards. Other
  parts of the resolver may change between the attempts; the task itself only writes at its end,
  so the state it writes to is passed through.
\<close>

function discover_loop ::
  "discovery_world \<Rightarrow> string \<Rightarrow> nat \<Rightarrow> nat \<Rightarrow> partition_key_resolver \<Rightarrow> nat list \<times> partition_key_resolver" where
  "discover_loop w table attempt delay r =
     (case response w (discovery_timeout r) attempt of
        DescribeOk t \<Rightarrow>
          (case hash_key_of t of
             Some pk_name \<Rightarrow> ([], r\<lparr>cache := (cache r)(table \<mapsto> pk_name)\<rparr>)
           | None \<Rightarrow> ([], record_failure table (clock w attempt) True r))
      | DescribeErr err \<Rightarrow>
          if is_permanent_failure err then ([], record_failure table (clock w attempt) True r)
          else if attempt + 1 > MAX_RETRIES then ([], record_failure table (clock w attempt) False r)
          else let (sleeps, r') = discover_loop w table (attempt + 1)
                      (min (saturating_mul2 delay) MAX_RETRY_DELAY_MS) r
               in (calculate_jittered_delay (random w attempt) delay # sleeps, r'))"
  by pat_completeness auto
termination
  by (relation "measure (\<lambda>(w, table, attempt, delay, r). MAX_RETRIES - attempt)") auto

declare discover_loop.simps [simp del]

definition discover_with_retry ::
  "discovery_world \<Rightarrow> string \<Rightarrow> partition_key_resolver \<Rightarrow> nat list \<times> partition_key_resolver" where
  "discover_with_retry w table r = discover_loop w table 0 INITIAL_RETRY_DELAY_MS r"

text \<open>A discovery task that ends, after its body or cut off by the client's stop, drops its guard.\<close>

definition end_task :: "task_id \<Rightarrow> partition_key_resolver \<Rightarrow> partition_key_resolver" where
  "end_task t r =
     (case task_table r t of
        None \<Rightarrow> r
      | Some table \<Rightarrow>
          r\<lparr>r_tasks := drop_task t (r_tasks r), in_progress := in_progress r - {table},
            task_table := (task_table r)(t := None)\<rparr>)"

definition run_task :: "discovery_world \<Rightarrow> task_id \<Rightarrow> partition_key_resolver \<Rightarrow> partition_key_resolver" where
  "run_task w t r =
     (case task_table r t of
        None \<Rightarrow> r
      | Some table \<Rightarrow> end_task t (snd (discover_with_retry w table r)))"

section \<open>Facts on the loop\<close>

definition transient :: "describe_result \<Rightarrow> bool" where
  "transient res = (case res of DescribeOk t \<Rightarrow> False | DescribeErr err \<Rightarrow> \<not> is_permanent_failure err)"

text \<open>How the last answer of a discovery is recorded.\<close>

definition settle :: "string \<Rightarrow> instant \<Rightarrow> describe_result \<Rightarrow> partition_key_resolver \<Rightarrow> partition_key_resolver" where
  "settle table now res r =
     (case res of
        DescribeOk (Some (Some schema)) \<Rightarrow>
          (case [k \<leftarrow> schema. key_type_of k = HashKey] of
             [] \<Rightarrow> record_failure table now True r
           | k # _ \<Rightarrow> r\<lparr>cache := (cache r)(table \<mapsto> attribute_name k)\<rparr>)
      | _ \<Rightarrow> record_failure table now (\<not> transient res) r)"

lemma find_filter: "find P xs = (case filter P xs of [] \<Rightarrow> None | x # _ \<Rightarrow> Some x)"
  by (induction xs) auto

lemma discover_loop_settles:
  "\<not> transient (response w (discovery_timeout r) attempt) \<or> MAX_RETRIES \<le> attempt \<Longrightarrow>
   discover_loop w table attempt delay r = ([], settle table (clock w attempt) (response w (discovery_timeout r) attempt) r)"
  by (subst discover_loop.simps)
    (auto simp: transient_def settle_def hash_key_of_def find_filter split: describe_result.splits option.splits list.splits)

lemma discover_loop_retries:
  "transient (response w (discovery_timeout r) attempt) \<Longrightarrow> attempt < MAX_RETRIES \<Longrightarrow>
   discover_loop w table attempt delay r =
     (let (sleeps, r') = discover_loop w table (Suc attempt) (min (saturating_mul2 delay) MAX_RETRY_DELAY_MS) r
      in (calculate_jittered_delay (random w attempt) delay # sleeps, r'))"
  by (subst discover_loop.simps) (auto simp: transient_def split: describe_result.splits)

lemma discover_loop_eq:
  assumes "attempt \<le> MAX_RETRIES" and "delay = 100 * 2 ^ attempt"
  shows "discover_loop w table attempt delay r =
    (let n = length (takeWhile (\<lambda>i. transient (response w (discovery_timeout r) i)) [attempt..<MAX_RETRIES])
     in (map (\<lambda>i. calculate_jittered_delay (random w i) (100 * 2 ^ i)) [attempt..<attempt + n],
         settle table (clock w (attempt + n)) (response w (discovery_timeout r) (attempt + n)) r))"
  using assms
proof (induction "MAX_RETRIES - attempt" arbitrary: attempt delay)
  case 0
  then show ?case by (simp add: discover_loop_settles)
next
  case (Suc m)
  then have lt: "attempt < MAX_RETRIES" by simp
  show ?case
  proof (cases "transient (response w (discovery_timeout r) attempt)")
    case False
    then show ?thesis using lt by (simp add: discover_loop_settles upt_rec)
  next
    case True
    have "(2 :: nat) ^ Suc attempt \<le> 2 ^ MAX_RETRIES" using lt by (intro power_increasing) auto
    then have "min (saturating_mul2 delay) MAX_RETRY_DELAY_MS = 100 * 2 ^ Suc attempt"
      using Suc.prems(2) by (simp add: saturating_mul2_def MAX_RETRY_DELAY_MS_def MAX_RETRIES_def)
    moreover have "m = MAX_RETRIES - Suc attempt" "Suc attempt \<le> MAX_RETRIES" using Suc(2) by auto
    ultimately show ?thesis
      using Suc(1) [of "Suc attempt" "100 * 2 ^ Suc attempt"] lt True Suc.prems(2)
      by (simp add: discover_loop_retries upt_conv_Cons Let_def del: upt_Suc)
  qed
qed

lemma round53_small: "n < 2 ^ 53 \<Longrightarrow> round53 n = n"
  using floorlog_leI [of n 2 53] by (simp add: round53_def Let_def)

lemma round53_shift:
  assumes "2 ^ (52 + k) \<le> n" and "n < 2 ^ (53 + k)"
  shows "floorlog 2 n - 53 = k"
proof -
  have "floorlog 2 n \<le> 53 + k" by (rule floorlog_leI) (use assms in auto)
  moreover have "53 + k \<le> floorlog 2 n" by (rule floorlog_geI) (use assms in auto)
  ultimately show ?thesis by simp
qed

lemma jitter_range_values: "jitter_range 100 = 20" "jitter_range 200 = 40" "jitter_range 400 = 80"
  using round53_shift [of 6 360287970189639700] round53_shift [of 7 720575940379279400]
    round53_shift [of 8 1441151880758558800]
  by (simp_all add: jitter_range_def round53_small) (simp_all add: round53_def)

lemma jittered_bounds:
  assumes "rand_law rand" and "i < 3"
  shows "80 * 2 ^ i \<le> calculate_jittered_delay rand (100 * 2 ^ i)
    \<and> calculate_jittered_delay rand (100 * 2 ^ i) \<le> 120 * 2 ^ i"
proof -
  have r: "0 \<le> j \<Longrightarrow> - j \<le> rand (- j) j \<and> rand (- j) j \<le> j" for j
    using assms(1) by (auto simp: rand_law_def)
  from assms(2) consider "i = 0" | "i = 1" | "i = 2" by linarith
  then show ?thesis
    using r [of 20] r [of 40] r [of 80]
    by cases (auto simp: calculate_jittered_delay_def jitter_range_values Let_def)
qed

section \<open>Interleavings\<close>

text \<open>A trigger is one event; its second part is also an event of its own, at any time.\<close>

datatype resolver_event =
    Trigger "runtime_id option" instant string
  | Claim runtime_id string
  | RunTask discovery_world task_id
  | EndTask task_id
  | StopResolver

fun resolver_step :: "partition_key_resolver \<Rightarrow> resolver_event \<Rightarrow> partition_key_resolver" where
  "resolver_step r (Trigger rt now table) = trigger_discovery rt now table r"
| "resolver_step r (Claim runtime table) = claim_discovery runtime table r"
| "resolver_step r (RunTask w t) = run_task w t r"
| "resolver_step r (EndTask t) = end_task t r"
| "resolver_step r StopResolver = r\<lparr>r_tasks := stop (r_tasks r)\<rparr>"

definition resolver_inv :: "partition_key_resolver \<Rightarrow> bool" where
  "resolver_inv r \<longleftrightarrow>
     tasks_inv (r_tasks r) \<and> dom (task_table r) = tracked (r_tasks r)
     \<and> in_progress r = ran (task_table r) \<and> (\<forall>t t' table. task_table r t = Some table \<longrightarrow> task_table r t' = Some table \<longrightarrow> t = t')
     \<and> ran (task_table r) \<inter> dom (cache r) = {}"

lemma resolver_inv_new: "resolver_inv (new_with_timeout pk t)"
  by (simp add: resolver_inv_def new_with_timeout_def tasks_inv_def new_tasks_def)

text \<open>When a trigger starts a task.\<close>

definition may_start :: "runtime_id option \<Rightarrow> instant \<Rightarrow> string \<Rightarrow> partition_key_resolver \<Rightarrow> bool" where
  "may_start rt now table r \<longleftrightarrow>
     rt \<noteq> None \<and> \<not> is_stopped (r_tasks r) \<and> cache r table = None \<and> table \<notin> in_progress r
     \<and> (\<forall>rec. failed_tables r table = Some rec \<longrightarrow> can_retry now rec)"

definition started :: "runtime_id \<Rightarrow> string \<Rightarrow> partition_key_resolver \<Rightarrow> partition_key_resolver" where
  "started runtime table r =
     r\<lparr>in_progress := insert table (in_progress r),
       failed_tables := (failed_tables r)(table := None),
       r_tasks := (r_tasks r)\<lparr>tracked := insert (next_task (r_tasks r)) (tracked (r_tasks r)),
                                next_task := Suc (next_task (r_tasks r)),
                                spawned_on := (spawned_on (r_tasks r))(next_task (r_tasks r) \<mapsto> runtime)\<rparr>,
       task_table := (task_table r)(next_task (r_tasks r) \<mapsto> table)\<rparr>"

lemma claim_eq:
  "claim_discovery runtime table r =
     (if table \<in> in_progress r \<or> cache r table \<noteq> None then r
      else if is_stopped (r_tasks r) then r\<lparr>failed_tables := (failed_tables r)(table := None)\<rparr>
      else started runtime table r)"
  by (simp add: claim_discovery_def started_def spawn_def)

lemma trigger_eq:
  "trigger_discovery rt now table r =
     (if may_start rt now table r then started (the rt) table r else r)"
  by (auto simp: trigger_discovery_def claim_eq may_start_def split: option.splits)

lemma ran_remove:
  assumes "\<forall>t t' v. m t = Some v \<longrightarrow> m t' = Some v \<longrightarrow> t = t'" and "m t = Some v"
  shows "ran (m(t := None)) = ran m - {v}"
proof (intro equalityI subsetI)
  fix x assume "x \<in> ran (m(t := None))"
  then obtain a where "a \<noteq> t" "m a = Some x" by (auto simp: ran_def split: if_splits)
  then show "x \<in> ran m - {v}" using assms by (auto simp: ran_def)
next
  fix x assume "x \<in> ran m - {v}"
  then obtain a where "m a = Some x" "x \<noteq> v" by (auto simp: ran_def)
  then have "(m(t := None)) a = Some x" using assms(2) by auto
  then show "x \<in> ran (m(t := None))" by (rule ranI)
qed

lemma resolver_inv_started:
  assumes "resolver_inv r" and "\<not> is_stopped (r_tasks r)" and "cache r table = None" and "table \<notin> in_progress r"
  shows "resolver_inv (started runtime table r)"
proof -
  let ?t = "next_task (r_tasks r)"
  have fresh: "task_table r ?t = None" using assms(1) by (auto simp: resolver_inv_def tasks_inv_def domIff)
  have new: "task_table r t \<noteq> Some table" for t
    using assms(1,4) by (auto simp: resolver_inv_def ran_def)
  show ?thesis
    using assms fresh new
    by (auto simp: resolver_inv_def started_def tasks_inv_def ran_map_upd less_Suc_eq)
qed

lemma resolver_inv_claim:
  assumes "resolver_inv r"
  shows "resolver_inv (claim_discovery runtime table r)"
  using assms resolver_inv_started [OF assms] by (auto simp: claim_eq) (simp add: resolver_inv_def)

lemma resolver_inv_trigger:
  assumes "resolver_inv r"
  shows "resolver_inv (trigger_discovery h now table r)"
  using assms resolver_inv_started [OF assms] by (simp add: trigger_eq may_start_def)

lemma discover_frame:
  fixes w table r
  defines "d \<equiv> snd (discover_with_retry w table r)"
  shows "r_tasks d = r_tasks r" "task_table d = task_table r" "in_progress d = in_progress r"
    "cache d = cache r \<or> (\<exists>pk. cache d = (cache r)(table \<mapsto> pk))"
proof -
  obtain now res where d: "d = settle table now res r"
    by (simp add: d_def discover_with_retry_def discover_loop_eq [of 0] INITIAL_RETRY_DELAY_MS_def Let_def)
  show "r_tasks d = r_tasks r" "task_table d = task_table r" "in_progress d = in_progress r"
    "cache d = cache r \<or> (\<exists>pk. cache d = (cache r)(table \<mapsto> pk))"
    unfolding d settle_def record_failure_def
    by (auto split: describe_result.split option.split list.split)
qed

lemma resolver_inv_end:
  assumes "resolver_inv r"
  shows "resolver_inv (end_task t r)"
proof (cases "task_table r t")
  case (Some table)
  then have "ran ((task_table r)(t := None)) = ran (task_table r) - {table}"
    using assms by (intro ran_remove) (auto simp: resolver_inv_def)
  with assms Some show ?thesis
    by (auto simp: resolver_inv_def end_task_def drop_task_def tasks_inv_def)
qed (use assms in \<open>simp add: end_task_def\<close>)

text \<open>The table of a running task is not cached yet, and the task is the only one to write it.\<close>

lemma run_task_cases:
  assumes "resolver_inv r"
  shows "resolver_inv (run_task w t r) \<and> cache r \<subseteq>\<^sub>m cache (run_task w t r)"
proof (cases "task_table r t")
  case (Some table)
  let ?d = "snd (discover_with_retry w table r)"
  note f = discover_frame [of w table r]
  have ran: "ran ((task_table r)(t := None)) = ran (task_table r) - {table}"
    using assms Some by (intro ran_remove) (auto simp: resolver_inv_def)
  have "table \<in> ran (task_table r)" using Some by (rule ranI)
  then have none: "cache r table = None" using assms by (auto simp: resolver_inv_def)
  have cache: "dom (cache ?d) \<subseteq> insert table (dom (cache r))" "cache r \<subseteq>\<^sub>m cache ?d"
    using f(4) none by (auto simp: map_le_def)
  have run: "run_task w t r = end_task t ?d" using Some by (simp add: run_task_def)
  have "(ran (task_table r) - {table}) \<inter> dom (cache ?d) = {}"
    using cache(1) assms unfolding resolver_inv_def by blast
  then have "resolver_inv (end_task t ?d)"
    using assms Some f(1-3) ran
    by (auto simp: resolver_inv_def end_task_def drop_task_def tasks_inv_def)
  moreover have "cache (end_task t ?d) = cache ?d" using Some f by (simp add: end_task_def)
  ultimately show ?thesis using cache(2) by (simp add: run)
qed (use assms in \<open>simp add: run_task_def\<close>)

lemma resolver_step_inv:
  assumes "resolver_inv r"
  shows "resolver_inv (resolver_step r e) \<and> cache r \<subseteq>\<^sub>m cache (resolver_step r e)"
proof (cases e)
  case (Trigger h now table)
  then show ?thesis using resolver_inv_trigger [OF assms] by (simp add: trigger_eq started_def)
next
  case (Claim w table)
  then show ?thesis using resolver_inv_claim [OF assms, of w table] by (simp add: claim_eq started_def)
next
  case (RunTask w t)
  then show ?thesis using run_task_cases [OF assms] by simp
next
  case (EndTask t)
  then show ?thesis using resolver_inv_end [OF assms] by (simp add: end_task_def split: option.split)
next
  case StopResolver
  then show ?thesis using assms by (simp add: resolver_inv_def tasks_inv_def stop_def)
qed

lemma resolver_run:
  assumes "resolver_inv r"
  shows "resolver_inv (foldl resolver_step r es) \<and> cache r \<subseteq>\<^sub>m cache (foldl resolver_step r es)"
  using assms
proof (induction es arbitrary: r)
  case (Cons e es)
  from resolver_step_inv [OF Cons.prems, of e] Cons.IH [of "resolver_step r e"]
  show ?case by (auto intro: map_le_trans)
qed simp

section \<open>Correctness\<close>

text \<open>
  C23: at most one discovery per table. In every interleaving of triggers, task ends and the stop,
  the marked tables are exactly the tables of the running tasks, two running tasks have different
  tables, and no running task is for a table whose key is already known.
\<close>

theorem one_discovery_per_table:
  "let r = foldl resolver_step (new_with_timeout pk_info timeout) es
   in in_progress r = {table. \<exists>t \<in> tracked (r_tasks r). task_table r t = Some table}
    \<and> inj_on (task_table r) (tracked (r_tasks r))
    \<and> in_progress r \<inter> dom (cache r) = {}"
proof -
  let ?r = "foldl resolver_step (new_with_timeout pk_info timeout) es"
  have inv: "resolver_inv ?r" using resolver_run [OF resolver_inv_new] by blast
  then have dom: "tracked (r_tasks ?r) = dom (task_table ?r)" and ip: "in_progress ?r = ran (task_table ?r)"
    by (simp_all add: resolver_inv_def)
  have "inj_on (task_table ?r) (dom (task_table ?r))"
    using inv unfolding resolver_inv_def inj_on_def by fastforce
  moreover have "in_progress ?r = {table. \<exists>t \<in> dom (task_table ?r). task_table ?r t = Some table}"
    unfolding ip by (auto simp: ran_def)
  moreover have "in_progress ?r \<inter> dom (cache ?r) = {}" using inv by (simp add: resolver_inv_def)
  ultimately show ?thesis unfolding Let_def dom by blast
qed

text \<open>
  a known key name is final: configured names are returned from the start, and once
  \<^verbatim>\<open>get_partition_key\<close> answers for a table, every later answer is the same, whatever triggers,
  discoveries and stops happen.
\<close>

theorem known_key_names_final:
  "pk_info \<subseteq>\<^sub>m (\<lambda>table. get_partition_key table (foldl resolver_step (new_with_timeout pk_info timeout) es))
   \<and> (\<lambda>table. get_partition_key table (foldl resolver_step (new_with_timeout pk_info timeout) es))
      \<subseteq>\<^sub>m (\<lambda>table. get_partition_key table (foldl resolver_step (new_with_timeout pk_info timeout) (es @ fs)))"
proof -
  let ?n = "new_with_timeout pk_info timeout"
  have "resolver_inv (foldl resolver_step ?n es)" "cache ?n \<subseteq>\<^sub>m cache (foldl resolver_step ?n es)"
    using resolver_run [OF resolver_inv_new] by blast+
  with resolver_run [of "foldl resolver_step ?n es" fs] show ?thesis
    by (simp add: get_partition_key_def) (simp add: new_with_timeout_def)
qed

text \<open>
  C24: what one discovery does. It sends one request and then up to three more while the answers
  are transient failures, doubling its jittered sleep from 100 ms; the first other answer, or the
  fourth one, decides: a schema with a HASH key fills the cache with the first such attribute, any
  other answer records a failure that is permanent unless the last answer was a transient one.
\<close>

theorem discovery_outcome:
  "discover_with_retry w table r =
     (let n = length (takeWhile (\<lambda>i. transient (response w (discovery_timeout r) i)) [0..<MAX_RETRIES])
      in (map (\<lambda>i. calculate_jittered_delay (random w i) (100 * 2 ^ i)) [0..<n],
          settle table (clock w n) (response w (discovery_timeout r) n) r))"
  using discover_loop_eq [of 0 100 w table r]
  by (simp add: discover_with_retry_def INITIAL_RETRY_DELAY_MS_def)

text \<open>
  the sleeps are bounded: a discovery sleeps at most three times, the \<open>i\<close>-th time between 80
  and 120 percent of \<open>100 * 2 ^ i\<close> milliseconds, whatever the random numbers in their range are.
\<close>

theorem retry_sleep_bounds:
  assumes "\<forall>i. rand_law (random w i)"
  shows "length (fst (discover_with_retry w table r)) \<le> 3
    \<and> list_all (\<lambda>(i, ms). 80 * 2 ^ i \<le> ms \<and> ms \<le> 120 * 2 ^ i)
        (enumerate 0 (fst (discover_with_retry w table r)))"
proof -
  define n where "n = length (takeWhile (\<lambda>i. transient (response w (discovery_timeout r) i)) [0..<MAX_RETRIES])"
  have n: "n \<le> 3" unfolding n_def using length_takeWhile_le [of _ "[0..<MAX_RETRIES]"] by (simp add: MAX_RETRIES_def)
  have sleeps: "fst (discover_with_retry w table r) =
      map (\<lambda>i. calculate_jittered_delay (random w i) (100 * 2 ^ i)) [0..<n]"
    using discover_loop_eq [of 0 100 w table r]
    by (simp add: discover_with_retry_def INITIAL_RETRY_DELAY_MS_def Let_def n_def)
  have "80 * 2 ^ i \<le> ms \<and> ms \<le> 120 * 2 ^ i"
    if "(i, ms) \<in> set (enumerate 0 (fst (discover_with_retry w table r)))" for i ms
    using that assms n jittered_bounds [of "random w i" i]
    by (auto simp: sleeps in_set_enumerate_eq)
  then show ?thesis using n by (auto simp: sleeps list_all_iff)
qed

theorem retry_sleep_bounds_witness:
  "length (fst (discover_with_retry \<lparr>request = (\<lambda>i. (0, DescribeErr timeout_error)),
      random = (\<lambda>i lo hi. hi), clock = (\<lambda>i. i)\<rparr> ''t'' (new_with_timeout Map.empty None))) \<le> 3"
  using retry_sleep_bounds [of "\<lparr>request = (\<lambda>i. (0, DescribeErr timeout_error)),
      random = (\<lambda>i lo hi. hi), clock = (\<lambda>i. i)\<rparr>" "''t''" "new_with_timeout Map.empty None"]
  by (simp add: rand_law_def)

text \<open>
  when a discovery starts. \<^verbatim>\<open>trigger_discovery\<close> registers one task for the table, marks it in
  progress and forgets its failure, exactly when the client is not stopped, a runtime is there,
  the key is unknown, no discovery of the table runs and there is no permanent failure younger
  than five minutes; in every other case it changes nothing.
\<close>

theorem trigger_discovery_starts:
  assumes "\<And>rec. failed_tables r table = Some rec \<Longrightarrow> now - fr_timestamp rec < 2 ^ 64"
  shows "let r' = trigger_discovery rt now table r in
    if rt \<noteq> None \<and> \<not> is_stopped (r_tasks r) \<and> get_partition_key table r = None \<and> table \<notin> in_progress r
       \<and> (case failed_tables r table of None \<Rightarrow> True
          | Some rec \<Rightarrow> fr_permanent rec \<longrightarrow> fr_timestamp rec + millis (PERMANENT_FAILURE_COOLDOWN_MS + 1) \<le> now)
    then spawn (the rt) (r_tasks r) = (Some (next_task (r_tasks r)), r_tasks r')
       \<and> task_table r' = (task_table r)(next_task (r_tasks r) \<mapsto> table)
       \<and> in_progress r' = insert table (in_progress r)
       \<and> failed_tables r' = (failed_tables r)(table := None) \<and> cache r' = cache r
    else r' = r"
proof -
  have retry: "can_retry now rec \<longleftrightarrow> (fr_permanent rec \<longrightarrow> fr_timestamp rec + millis (PERMANENT_FAILURE_COOLDOWN_MS + 1) \<le> now)"
    if "failed_tables r table = Some rec" for rec
  proof -
    let ?d = "now - fr_timestamp rec"
    have "?d div 1000000 < 2 ^ 64" using assms [OF that] by (meson div_le_dividend le_less_trans)
    then have "(?d div 1000000) mod 2 ^ 64 = ?d div 1000000" by (rule mod_less)
    moreover have "(300000 < ?d div 1000000) = (300001 * 1000000 \<le> ?d)"
      using less_eq_div_iff_mult_less_eq [of 1000000 300001 ?d] by (simp add: Suc_le_eq [symmetric])
    ultimately show ?thesis
      by (auto simp: can_retry_def PERMANENT_FAILURE_COOLDOWN_MS_def millis_def)
  qed
  then have m: "may_start rt now table r \<longleftrightarrow>
      rt \<noteq> None \<and> \<not> is_stopped (r_tasks r) \<and> get_partition_key table r = None \<and> table \<notin> in_progress r
       \<and> (case failed_tables r table of None \<Rightarrow> True
          | Some rec \<Rightarrow> fr_permanent rec \<longrightarrow> fr_timestamp rec + millis (PERMANENT_FAILURE_COOLDOWN_MS + 1) \<le> now)"
    by (auto simp: may_start_def get_partition_key_def split: option.splits)
  show ?thesis
    unfolding Let_def m [symmetric]
    by (cases "may_start rt now table r") (auto simp: trigger_eq started_def spawn_def may_start_def)
qed

theorem trigger_discovery_starts_witness:
  "in_progress (trigger_discovery (Some 1) 5 ''t'' (new_with_timeout [''u'' \<mapsto> ''k''] None)) = {''t''}"
  using trigger_discovery_starts [of "new_with_timeout [''u'' \<mapsto> ''k''] None" "''t''" 5 "Some 1"]
  by (simp add: new_with_timeout_def new_tasks_def is_stopped_def get_partition_key_def Let_def)

end
