(* ===== verification/Http_Message.thy ===== *)
theory Http_Message
  imports Prelude
begin

text \<open>
  What the interceptors use of the SDK's HTTP types. The header map is code outside the crate: it
  is the argument \<open>H\<close>, a record of its operations, and \<open>headers_law\<close> states the documented
  behaviour the crate relies on, for names in their canonical lower-case form (all the names the
  crate uses, and all the names the map iterates over). A body is collected in memory or a stream.
\<close>

section \<open>Headers\<close>

record 'h headers_api =
  get_all :: "'h \<Rightarrow> string \<Rightarrow> string list"
  header_names :: "'h \<Rightarrow> string list"
  header_insert :: "string \<Rightarrow> string \<Rightarrow> 'h \<Rightarrow> 'h"
  header_append :: "string \<Rightarrow> string \<Rightarrow> 'h \<Rightarrow> 'h"
  header_remove :: "string \<Rightarrow> 'h \<Rightarrow> 'h"
  valid_value :: "string \<Rightarrow> bool"

definition canonical_name :: "string \<Rightarrow> bool" where
  "canonical_name n \<longleftrightarrow> to_ascii_lowercase n = n"

definition headers_law :: "('h, 'x) headers_api_scheme \<Rightarrow> bool" where
  "headers_law H \<longleftrightarrow>
     (\<forall>h n. canonical_name n \<longrightarrow> (n \<in> set (header_names H h) \<longleftrightarrow> get_all H h n \<noteq> []))
     \<and> (\<forall>h. list_all canonical_name (header_names H h))
     \<and> (\<forall>h n m v. canonical_name n \<longrightarrow> canonical_name m \<longrightarrow>
          get_all H (header_insert H n v h) m = (if m = n then [v] else get_all H h m)
          \<and> get_all H (header_append H n v h) m = (if m = n then get_all H h m @ [v] else get_all H h m)
          \<and> get_all H (header_remove H n h) m = (if m = n then [] else get_all H h m))"

lemma canonical_literals [simp]:
  "canonical_name ''host''" "canonical_name ''authorization''" "canonical_name ''x-amz-date''"
  "canonical_name ''user-agent''" "canonical_name ''content-encoding''"
  "canonical_name ''content-length''" "canonical_name ''accept-encoding''"
  by code_simp+

definition contains_key :: "('h, 'x) headers_api_scheme \<Rightarrow> 'h \<Rightarrow> string \<Rightarrow> bool" where
  "contains_key H h n \<longleftrightarrow> get_all H h n \<noteq> []"

text \<open>\<^verbatim>\<open>try_insert\<close> refuses a value that is not a valid header value.\<close>

definition header_try_insert ::
  "('h, 'x) headers_api_scheme \<Rightarrow> string \<Rightarrow> string \<Rightarrow> 'h \<Rightarrow> string + 'h" where
  "header_try_insert H n v h = (if valid_value H v then Inr (header_insert H n v h) else Inl ''invalid header value'')"

text \<open>An instance: the pairs of the map in order.\<close>

definition list_headers :: "(string \<times> string) list headers_api" where
  "list_headers =
     \<lparr>get_all = (\<lambda>h n. map snd (filter (\<lambda>p. fst p = to_ascii_lowercase n) h)),
      header_names = (\<lambda>h. map (\<lambda>p. to_ascii_lowercase (fst p)) (filter (\<lambda>p. canonical_name (fst p)) h)),
      header_insert = (\<lambda>n v h. filter (\<lambda>p. fst p \<noteq> n) h @ [(n, v)]),
      header_append = (\<lambda>n v h. h @ [(n, v)]),
      header_remove = (\<lambda>n h. filter (\<lambda>p. fst p \<noteq> n) h),
      valid_value = list_all (\<lambda>c. c \<notin> {CHR 0x0A, CHR 0x0D, CHR 0x00})\<rparr>"

lemma list_get_all: "canonical_name n \<Longrightarrow> get_all list_headers h n = map snd (filter (\<lambda>p. fst p = n) h)"
  by (simp add: list_headers_def canonical_name_def)

lemma list_headers_law: "headers_law list_headers"
proof -
  have f: "filter (\<lambda>p. fst p = m) (filter (\<lambda>p. fst p \<noteq> n) h) =
      (if m = n then [] else filter (\<lambda>p. fst p = m) h)" for m n and h :: "(string \<times> string) list"
    by (induction h) auto
  have names: "n \<in> set (header_names list_headers h) \<longleftrightarrow> get_all list_headers h n \<noteq> []"
    if "canonical_name n" for n h
    using that by (force simp: list_headers_def canonical_name_def filter_empty_conv image_iff)
  have upd: "get_all list_headers (header_insert list_headers n v h) m = (if m = n then [v] else get_all list_headers h m)
      \<and> get_all list_headers (header_append list_headers n v h) m
          = (if m = n then get_all list_headers h m @ [v] else get_all list_headers h m)
      \<and> get_all list_headers (header_remove list_headers n h) m = (if m = n then [] else get_all list_headers h m)"
    if "canonical_name n" "canonical_name m" for n m v h
    using that f [of m n h] by (auto simp: list_headers_def canonical_name_def)
  have canon: "list_all canonical_name (header_names list_headers h)" for h
    by (auto simp: list_headers_def canonical_name_def list_all_iff)
  show ?thesis unfolding headers_law_def using names upd canon by blast
qed

section \<open>Messages\<close>

text \<open>\<open>'s\<close> is the type of bodies that are not collected in memory.\<close>

datatype 's sdk_body = Collected bytes | Streamed 's

fun body_bytes :: "'s sdk_body \<Rightarrow> bytes option" where
  "body_bytes (Collected b) = Some b"
| "body_bytes (Streamed s) = None"

record ('h, 's) request =
  req_headers :: 'h
  req_uri :: string
  req_body :: "'s sdk_body"

text \<open>Facts in the form the components use them.\<close>

lemma headers_lawD:
  assumes "headers_law H" and "canonical_name n" and "canonical_name m"
  shows "get_all H (header_insert H n v h) m = (if m = n then [v] else get_all H h m)"
    "get_all H (header_append H n v h) m = (if m = n then get_all H h m @ [v] else get_all H h m)"
    "get_all H (header_remove H n h) m = (if m = n then [] else get_all H h m)"
    "m \<in> set (header_names H h) \<longleftrightarrow> get_all H h m \<noteq> []"
  using assms by (simp_all add: headers_law_def)

end
