(* ===== verification/Optimize_Headers.thy ===== *)
theory Optimize_Headers
  imports Http_Message
begin

text \<open>
  \<^verbatim>\<open>src/src/optimize_headers.rs\<close>: removing the headers Alternator does not need, without touching
  what a SigV4 signature covers.
\<close>

section \<open>Definitions\<close>

definition BASE_WHITELIST :: "string list" where
  "BASE_WHITELIST = [''host'', ''x-amz-target'', ''content-length'', ''content-type'',
     ''accept-encoding'', ''content-encoding'']"

definition AUTH_WHITELIST :: "string list" where
  "AUTH_WHITELIST = [''authorization'', ''x-amz-date'', ''x-amz-user-agent'', ''x-amz-security-token'']"

definition token_symbols :: "char set" where
  "token_symbols = {CHR ''!'', CHR ''#'', CHR ''$'', CHR ''%'', CHR ''&'', CHR 0x27, CHR ''*'', CHR ''+'',
     CHR ''-'', CHR ''.'', CHR ''^'', CHR ''_'', CHR 0x60, CHR ''|'', CHR ''~''}"

definition is_canonical_header_name :: "string \<Rightarrow> bool" where
  "is_canonical_header_name header \<longleftrightarrow>
     header \<noteq> []
     \<and> list_all (\<lambda>b. is_ascii_lowercase b \<or> is_ascii_digit b \<or> b \<in> token_symbols) header"

text \<open>
  The loop over the authorization parameters: \<open>None\<close> is the early \<^verbatim>\<open>return None\<close>, the accumulator
  is \<^verbatim>\<open>signed_headers\<close>.
\<close>

fun signed_headers_loop :: "string list \<Rightarrow> string option \<Rightarrow> string option option" where
  "signed_headers_loop [] acc = Some acc"
| "signed_headers_loop (param # ps) acc =
     (let param = trim param
      in if param = [] \<or> list_ex is_ascii_whitespace param then None
         else case split_once (CHR ''='') param of
             None \<Rightarrow> None
           | Some (name, value) \<Rightarrow>
               if name = [] \<or> value = [] \<or> CHR ''='' \<in> set value then None
               else if name \<noteq> ''SignedHeaders'' then signed_headers_loop ps acc
               else if acc \<noteq> None then None
               else signed_headers_loop ps (Some (trim value)))"

text \<open>Strict order of all neighbours; \<^verbatim>\<open>str\<close> is compared by its bytes.\<close>

fun byte_less :: "string \<Rightarrow> string \<Rightarrow> bool" where
  "byte_less _ [] = False"
| "byte_less [] (_ # _) = True"
| "byte_less (a # as) (b # bs) =
     ((of_char a :: nat) < of_char b \<or> a = b \<and> byte_less as bs)"

fun windows2_sorted :: "string list \<Rightarrow> bool" where
  "windows2_sorted (a # b # xs) = (byte_less a b \<and> windows2_sorted (b # xs))"
| "windows2_sorted _ = True"

definition parse_signed_headers :: "string \<Rightarrow> string list option" where
  "parse_signed_headers authorization =
     (case split_once (CHR '' '') authorization of
        None \<Rightarrow> None
      | Some (algorithm, parameters) \<Rightarrow>
          if algorithm \<noteq> ''AWS4-HMAC-SHA256'' then None
          else case signed_headers_loop (split_on (CHR '','') parameters) None of
              None \<Rightarrow> None
            | Some None \<Rightarrow> None
            | Some (Some value) \<Rightarrow>
                (let headers = split_on (CHR '';'') value
                 in if windows2_sorted headers \<and> list_all is_canonical_header_name headers
                    then Some headers else None))"

text \<open>The signed headers to keep; \<open>None\<close> means that the request is left intact.\<close>

definition headers_to_preserve ::
  "('h, 'x) headers_api_scheme \<Rightarrow> 'h \<Rightarrow> bool \<Rightarrow> string list option" where
  "headers_to_preserve H h preserve_auth_headers =
     (if preserve_auth_headers then
        (case get_all H h ''authorization'' of
           [authorization] \<Rightarrow> parse_signed_headers authorization
         | _ \<Rightarrow> None)
      else Some [])"

definition strip_headers ::
  "('h, 'x) headers_api_scheme \<Rightarrow> bool \<Rightarrow> ('h, 's) request \<Rightarrow> ('h, 's) request" where
  "strip_headers H preserve_auth_headers r =
     (case headers_to_preserve H (req_headers r) preserve_auth_headers of
        None \<Rightarrow> r
      | Some signed_headers \<Rightarrow>
          let unallowed = filter (\<lambda>key. \<not> (key \<in> set BASE_WHITELIST
                \<or> preserve_auth_headers \<and> (key \<in> set AUTH_WHITELIST \<or> key \<in> set signed_headers)))
                (header_names H (req_headers r))
          in r\<lparr>req_headers := fold (header_remove H) unallowed (req_headers r)\<rparr>)"

section \<open>Facts\<close>

lemma fold_remove_get_all:
  assumes "headers_law H" and "list_all canonical_name ns" and "canonical_name m"
  shows "get_all H (fold (header_remove H) ns h) m = (if m \<in> set ns then [] else get_all H h m)"
  using assms(2)
proof (induction ns arbitrary: h)
  case (Cons n ns)
  then show ?case using headers_lawD(3) [OF assms(1), of n m h] assms(3) by auto
qed simp

lemma strip_get_all:
  assumes "headers_law H" and "canonical_name m"
    and "headers_to_preserve H (req_headers r) preserve = Some kept"
  shows "get_all H (req_headers (strip_headers H preserve r)) m =
    (if m \<in> set BASE_WHITELIST \<or> preserve \<and> (m \<in> set AUTH_WHITELIST \<or> m \<in> set kept)
     then get_all H (req_headers r) m else [])"
proof -
  let ?f = "\<lambda>key. \<not> (key \<in> set BASE_WHITELIST \<or> preserve \<and> (key \<in> set AUTH_WHITELIST \<or> key \<in> set kept))"
  let ?ns = "filter ?f (header_names H (req_headers r))"
  have "list_all canonical_name (header_names H (req_headers r))"
    using assms(1) unfolding headers_law_def by blast
  then have canon: "list_all canonical_name ?ns" by (simp add: list_all_iff del: set_filter) simp
  have mem: "m \<in> set ?ns \<longleftrightarrow> ?f m \<and> get_all H (req_headers r) m \<noteq> []"
    using headers_lawD(4) [OF assms(1) assms(2) assms(2), of "req_headers r"] by auto
  have "get_all H (req_headers (strip_headers H preserve r)) m
      = (if m \<in> set ?ns then [] else get_all H (req_headers r) m)"
    using fold_remove_get_all [OF assms(1) canon assms(2), of "req_headers r"] assms(3)
    unfolding strip_headers_def Let_def by simp
  then show ?thesis unfolding mem by presburger
qed

lemma canonical_header_name: "is_canonical_header_name n \<Longrightarrow> canonical_name n"
proof -
  assume "is_canonical_header_name n"
  then have "\<forall>c \<in> set n. \<not> is_ascii_uppercase c"
    by (auto simp: is_canonical_header_name_def list_all_iff is_ascii_lowercase_def is_ascii_digit_def
        is_ascii_uppercase_def token_symbols_def)
  then have "map ascii_lower n = n" by (induction n) (auto simp: ascii_lower_def)
  then show ?thesis by (simp add: canonical_name_def to_ascii_lowercase_def)
qed

lemma parse_canonical:
  "parse_signed_headers a = Some hs \<Longrightarrow> list_all is_canonical_header_name hs \<and> windows2_sorted hs"
  by (auto simp: parse_signed_headers_def Let_def split: option.splits prod.splits if_splits)

lemma byte_less_trans: "byte_less a b \<Longrightarrow> byte_less b c \<Longrightarrow> byte_less a c"
proof (induction a b arbitrary: c rule: byte_less.induct)
  case (2 b bs)
  then show ?case by (cases c) auto
next
  case (3 a as b bs)
  then show ?case by (cases c) auto
qed simp

lemma byte_less_irrefl: "\<not> byte_less a a"
  by (induction a) auto

lemma windows2_sorted_wrt: "windows2_sorted xs \<longleftrightarrow> sorted_wrt byte_less xs"
proof (induction xs rule: windows2_sorted.induct)
  case (1 a b xs)
  then show ?case using byte_less_trans by auto
qed auto

lemma sorted_byte_less_distinct: "sorted_wrt byte_less xs \<Longrightarrow> distinct xs"
  by (induction xs) (auto simp: byte_less_irrefl)

text \<open>Characters of a well-formed authorization parameter's name or value.\<close>

definition plain :: "string \<Rightarrow> bool" where
  "plain s \<longleftrightarrow> s \<noteq> [] \<and> list_all visible s \<and> CHR '','' \<notin> set s \<and> CHR ''='' \<notin> set s"

lemma visible_no_whitespace: "list_all visible s \<Longrightarrow> \<not> list_ex is_ascii_whitespace s"
  by (auto simp: list_all_iff list_ex_iff visible_def is_ascii_whitespace_def)

lemma loop_param:
  assumes "plain name" and "plain value"
    and p: "p = name @ CHR ''='' # value \<or> p = CHR '' '' # name @ CHR ''='' # value"
  shows "signed_headers_loop (p # ps) acc =
    (if name \<noteq> ''SignedHeaders'' then signed_headers_loop ps acc
     else if acc \<noteq> None then None else signed_headers_loop ps (Some value))"
proof -
  let ?q = "name @ CHR ''='' # value"
  have v: "list_all visible ?q" using assms(1,2) by (simp add: plain_def visible_def)
  have t: "trim p = ?q" using p trim_visible [OF v] trim_space [of ?q] by auto
  have tv: "trim value = value" using assms(2) by (intro trim_visible) (simp add: plain_def)
  show ?thesis
    using assms(1,2) visible_no_whitespace [OF v] tv t
    by (simp add: plain_def Let_def)
qed

lemma plain_literals: "plain ''Credential''" "plain ''SignedHeaders''" "plain ''Signature''"
  by (simp_all add: plain_def visible_def)

text \<open>Header name characters are printable and none of the separators of the value.\<close>

definition name_char :: "char \<Rightarrow> bool" where
  "name_char c \<longleftrightarrow> visible c \<and> c \<noteq> CHR '','' \<and> c \<noteq> CHR ''='' \<and> c \<noteq> CHR '';''"

lemma name_char_kinds:
  "\<forall>c \<in> token_symbols. name_char c" "is_ascii_lowercase c \<Longrightarrow> name_char c" "is_ascii_digit c \<Longrightarrow> name_char c"
  by (simp add: name_char_def visible_def token_symbols_def)
    (auto simp: name_char_def visible_def is_ascii_lowercase_def is_ascii_digit_def)

lemma header_name_char: "is_canonical_header_name h \<Longrightarrow> c \<in> set h \<Longrightarrow> name_char c"
  using name_char_kinds unfolding is_canonical_header_name_def list_all_iff by blast

lemma header_name_chars:
  assumes "is_canonical_header_name h"
  shows "list_all visible h" "CHR '','' \<notin> set h" "CHR ''='' \<notin> set h" "CHR '';'' \<notin> set h" "h \<noteq> []"
  using header_name_char [OF assms] assms
  by (auto simp: list_all_iff name_char_def is_canonical_header_name_def)

lemma set_join: "set (join d ws) \<subseteq> set d \<union> \<Union> (set ` set ws)"
  by (induction d ws rule: join.induct) auto

lemma plain_join:
  assumes "hs \<noteq> []" and "list_all is_canonical_header_name hs"
  shows "plain (join [CHR '';''] hs)"
proof -
  have ne: "join [CHR '';''] hs \<noteq> []"
    using assms header_name_chars(5) by (cases "([CHR '';''], hs)" rule: join.cases) auto
  have "visible c \<and> c \<noteq> CHR '','' \<and> c \<noteq> CHR ''=''" if "c \<in> set (join [CHR '';''] hs)" for c
  proof -
    have "c = CHR '';'' \<or> (\<exists>h \<in> set hs. c \<in> set h)" using set_join [of "[CHR '';'']" hs] that by auto
    then show ?thesis
      using header_name_chars assms(2) by (auto simp: list_all_iff visible_def)
  qed
  then show ?thesis using ne by (auto simp: plain_def list_all_iff)
qed

section \<open>Correctness\<close>

text \<open>
  stripping a signed request keeps what its signature covers. If the request has exactly one
  \<^verbatim>\<open>authorization\<close> value and its signed headers parse, every signed header keeps all its values,
  so do the base and authentication headers, and every other header is gone.
\<close>

theorem strip_keeps_signed_headers:
  assumes "headers_law H" and "get_all H (req_headers r) ''authorization'' = [a]"
    and "parse_signed_headers a = Some hs" and "canonical_name m"
  shows "get_all H (req_headers (strip_headers H True r)) m =
    (if m \<in> set (BASE_WHITELIST @ AUTH_WHITELIST @ hs) then get_all H (req_headers r) m else [])
    \<and> list_all canonical_name hs \<and> req_body (strip_headers H True r) = req_body r
    \<and> req_uri (strip_headers H True r) = req_uri r"
proof -
  have keep: "headers_to_preserve H (req_headers r) True = Some hs"
    using assms(2,3) by (simp add: headers_to_preserve_def)
  have "list_all canonical_name hs"
    using parse_canonical [OF assms(3)] canonical_header_name by (auto simp: list_all_iff)
  then show ?thesis
    using strip_get_all [OF assms(1,4) keep] by (simp add: strip_headers_def keep Let_def)
qed

theorem strip_keeps_signed_headers_witness:
  "get_all list_headers (req_headers (strip_headers list_headers True
      \<lparr>req_headers = [(''authorization'', ''AWS4-HMAC-SHA256 SignedHeaders=x-id''), (''x-id'', ''1''), (''x-other'', ''2'')],
       req_uri = [], req_body = Collected [] :: unit sdk_body\<rparr>)) ''x-id'' = [''1'']"
proof -
  have p: "parse_signed_headers ''AWS4-HMAC-SHA256 SignedHeaders=x-id'' = Some [''x-id'']" by code_simp
  have c: "canonical_name ''x-id''" by code_simp
  let ?r = "\<lparr>req_headers = [(''authorization'', ''AWS4-HMAC-SHA256 SignedHeaders=x-id''), (''x-id'', ''1''), (''x-other'', ''2'')],
        req_uri = [], req_body = Collected []\<rparr> :: ((string \<times> string) list, unit) request"
  have one: "get_all list_headers (req_headers ?r) ''authorization'' = [''AWS4-HMAC-SHA256 SignedHeaders=x-id'']"
    by (simp add: list_get_all)
  show ?thesis
    using strip_keeps_signed_headers [OF list_headers_law one p c] by (simp add: list_get_all c)
qed

text \<open>
  stripping fails safe: if authentication headers must be kept but there is no authorization
  value, or more than one, or one whose signed headers do not parse, the request is left as it is.
\<close>

theorem strip_leaves_unknown_authorization:
  assumes "\<nexists>a hs. get_all H (req_headers r) ''authorization'' = [a] \<and> parse_signed_headers a = Some hs"
  shows "strip_headers H True r = r"
  using assms by (auto simp: strip_headers_def headers_to_preserve_def split: list.splits option.splits)

theorem strip_leaves_unknown_authorization_witness:
  "strip_headers list_headers True \<lparr>req_headers = [(''x-other'', ''2'')], req_uri = [], req_body = Collected []\<rparr>
   = \<lparr>req_headers = [(''x-other'', ''2'')], req_uri = [], req_body = Collected []\<rparr>"
  by (rule strip_leaves_unknown_authorization) (simp add: list_get_all)

text \<open>
  C39: parsing inverts the SigV4 format: for strictly sorted canonical header names and a
  credential and signature without separators, the authorization value that a signer writes
  parses to these names, in their order and without repetition.
\<close>

theorem parse_signed_headers_roundtrip:
  assumes "hs \<noteq> []" and "list_all is_canonical_header_name hs" and "windows2_sorted hs"
    and "plain cred" and "plain sig"
  shows "parse_signed_headers (''AWS4-HMAC-SHA256 Credential='' @ cred @ '', SignedHeaders='' @ join '';'' hs
      @ '', Signature='' @ sig) = Some hs \<and> distinct hs"
proof -
  let ?p1 = "''Credential'' @ CHR ''='' # cred"
  let ?p2 = "CHR '' '' # ''SignedHeaders'' @ CHR ''='' # join '';'' hs"
  let ?p3 = "CHR '' '' # ''Signature'' @ CHR ''='' # sig"
  have pj: "plain (join '';'' hs)" by (rule plain_join [OF assms(1,2)])
  have fmt: "''AWS4-HMAC-SHA256 Credential='' @ cred @ '', SignedHeaders='' @ join '';'' hs
      @ '', Signature='' @ sig = ''AWS4-HMAC-SHA256'' @ CHR '' '' # join '','' [?p1, ?p2, ?p3]"
    by simp
  have split: "split_on CHR '','' (join '','' [?p1, ?p2, ?p3]) = [?p1, ?p2, ?p3]"
    by (rule split_on_join) (use pj assms(4,5) in \<open>simp_all add: plain_def\<close>)
  have "signed_headers_loop [?p1, ?p2, ?p3] None = Some (Some (join '';'' hs))"
    by (subst loop_param [OF plain_literals(1) assms(4)], simp,
        subst loop_param [OF plain_literals(2) pj], simp,
        subst loop_param [OF plain_literals(3) assms(5)], simp, simp)
  moreover have "split_on CHR '';'' (join '';'' hs) = hs"
    using assms(1,2) header_name_chars(4) by (intro split_on_join) (auto simp: list_all_iff)
  moreover have "split_once CHR '' '' (''AWS4-HMAC-SHA256'' @ CHR '' '' # join '','' [?p1, ?p2, ?p3])
      = Some (''AWS4-HMAC-SHA256'', join '','' [?p1, ?p2, ?p3])"
    by (rule split_once_append) simp
  ultimately have "parse_signed_headers (''AWS4-HMAC-SHA256'' @ CHR '' '' # join '','' [?p1, ?p2, ?p3]) = Some hs"
    unfolding parse_signed_headers_def using split assms(2,3) by simp
  then show ?thesis unfolding fmt
    using assms(3) sorted_byte_less_distinct by (simp add: windows2_sorted_wrt)
qed

theorem parse_signed_headers_roundtrip_witness:
  "parse_signed_headers (''AWS4-HMAC-SHA256 Credential='' @ ''AKID/eu'' @ '', SignedHeaders='' @ join '';'' [''host'', ''x-amz-date'']
      @ '', Signature='' @ ''0f'') = Some [''host'', ''x-amz-date'']"
proof -
  have "list_all is_canonical_header_name [''host'', ''x-amz-date'']" "windows2_sorted [''host'', ''x-amz-date'']"
    "plain ''AKID/eu''" "plain ''0f''"
    by (simp_all add: is_canonical_header_name_def is_ascii_lowercase_def token_symbols_def plain_def visible_def)
  from parse_signed_headers_roundtrip [OF _ this] show ?thesis by blast
qed

end
