(* ===== verification/User_Agent.thy ===== *)
theory User_Agent
  imports Http_Message
begin

text \<open>
  \<^verbatim>\<open>src/src/user_agent.rs\<close>: the \<^verbatim>\<open>User-Agent\<close> header. The package version, which the build sets,
  is the argument \<open>version\<close>; a callback is a function.
\<close>

datatype user_agent =
    UaDefault
  | UaDisabled
  | UaValue string
  | UaTransform "string \<Rightarrow> string option"

definition DEFAULT_USER_AGENT :: "string \<Rightarrow> string" where
  "DEFAULT_USER_AGENT version = ''scylladb-alternator-client-rust/'' @ version"

definition ua_disabled :: user_agent where
  "ua_disabled = UaDisabled"

definition ua_value :: "string \<Rightarrow> user_agent" where
  "ua_value s = UaValue s"

definition ua_transform :: "(string \<Rightarrow> string) \<Rightarrow> user_agent" where
  "ua_transform f = UaTransform (\<lambda>d. Some (f d))"

definition ua_transform_optional :: "(string \<Rightarrow> string option) \<Rightarrow> user_agent" where
  "ua_transform_optional f = UaTransform f"

text \<open>\<^verbatim>\<open>Debug\<close>; \<open>debug_str\<close> is the quoting of strings by the standard library.\<close>

definition debug_user_agent :: "(string \<Rightarrow> string) \<Rightarrow> user_agent \<Rightarrow> string" where
  "debug_user_agent debug_str ua =
     (case ua of
        UaDefault \<Rightarrow> ''UserAgent::Default''
      | UaDisabled \<Rightarrow> ''UserAgent::Disabled''
      | UaValue v \<Rightarrow> ''UserAgent::Value('' @ debug_str v @ '')''
      | UaTransform f \<Rightarrow> ''UserAgent::Transform(<callback>)'')"

text \<open>\<^verbatim>\<open>From<String>\<close> and \<^verbatim>\<open>From<&str>\<close>.\<close>

definition user_agent_from :: "string \<Rightarrow> user_agent" where
  "user_agent_from s = UaValue s"

definition resolve :: "string \<Rightarrow> user_agent \<Rightarrow> string option" where
  "resolve version ua =
     (case ua of
        UaDefault \<Rightarrow> Some (DEFAULT_USER_AGENT version)
      | UaDisabled \<Rightarrow> None
      | UaValue v \<Rightarrow> Some v
      | UaTransform f \<Rightarrow> f (DEFAULT_USER_AGENT version))"

text \<open>The request after the call, and the error if the value is not a valid header value.\<close>

definition apply_user_agent ::
  "('h, 'x) headers_api_scheme \<Rightarrow> string \<Rightarrow> user_agent \<Rightarrow> ('h, 's) request \<Rightarrow> ('h, 's) request \<times> string option" where
  "apply_user_agent H version ua r =
     (let h = header_remove H ''user-agent'' (req_headers r)
      in case resolve version ua of
           None \<Rightarrow> (r\<lparr>req_headers := h\<rparr>, None)
         | Some v \<Rightarrow>
             (case header_try_insert H ''user-agent'' v h of
                Inl e \<Rightarrow> (r\<lparr>req_headers := h\<rparr>, Some e)
              | Inr h' \<Rightarrow> (r\<lparr>req_headers := h'\<rparr>, None)))"

text \<open>
  the user agent is final: whatever the SDK put there, after a successful call the request has
  exactly the configured \<^verbatim>\<open>User-Agent\<close> value, or none when it is disabled; every other header is
  untouched. An invalid value is the only error, and then no \<^verbatim>\<open>User-Agent\<close> is left.
\<close>

theorem user_agent_is_final:
  assumes "headers_law H" and "canonical_name m" and "apply_user_agent H version ua r = (r', e)"
  shows "get_all H (req_headers r') m =
      (if m = ''user-agent'' then (if e = None then (case resolve version ua of None \<Rightarrow> [] | Some v \<Rightarrow> [v]) else [])
       else get_all H (req_headers r) m)
    \<and> (e \<noteq> None \<longleftrightarrow> (\<exists>v. resolve version ua = Some v \<and> \<not> valid_value H v))"
  using assms(3) headers_lawD(1,3) [OF assms(1) _ assms(2)]
  by (auto simp: apply_user_agent_def header_try_insert_def Let_def split: option.splits if_splits)

theorem user_agent_is_final_witness:
  "get_all list_headers (req_headers (fst (apply_user_agent list_headers ''1.0'' (UaValue ''me'')
     \<lparr>req_headers = [(''user-agent'', ''sdk'')], req_uri = [], req_body = Collected [] :: unit sdk_body\<rparr>))) ''user-agent'' = [''me'']"
proof -
  obtain r' e where a: "apply_user_agent list_headers ''1.0'' (UaValue ''me'')
     \<lparr>req_headers = [(''user-agent'', ''sdk'')], req_uri = [], req_body = Collected [] :: unit sdk_body\<rparr> = (r', e)" by fastforce
  have "valid_value list_headers ''me''" by (simp add: list_headers_def)
  with user_agent_is_final [OF list_headers_law _ a, of "''user-agent''"] show ?thesis
    by (auto simp: a resolve_def)
qed

end
