(* ===== verification/Compression.thy ===== *)
theory Compression
  imports Http_Message
begin

text \<open>
  \<^verbatim>\<open>src/src/compression.rs\<close>: compression of request bodies and the configuration of response
  compression. The encoders of the \<^verbatim>\<open>flate2\<close> crate are the argument \<open>C\<close>.
\<close>

section \<open>Configuration\<close>

definition DEFAULT_MAX_RESPONSE_ENCODING_LAYERS :: nat where
  "DEFAULT_MAX_RESPONSE_ENCODING_LAYERS = 5"

definition DEFAULT_MAX_DECOMPRESSED_RESPONSE_BYTES :: nat where
  "DEFAULT_MAX_DECOMPRESSED_RESPONSE_BYTES = 32 * 1024 * 1024"

datatype compression_algorithm = Gzip | Deflate

type_synonym compression_level = nat

datatype request_compression =
  RequestCompression "(compression_algorithm \<times> compression_level \<times> nat) option"

definition compression_enabled ::
  "compression_algorithm \<Rightarrow> compression_level \<Rightarrow> nat \<Rightarrow> request_compression" where
  "compression_enabled algorithm level threshold = RequestCompression (Some (algorithm, level, threshold))"

definition compression_disabled :: request_compression where
  "compression_disabled = RequestCompression None"

fun get_request_compression :: "request_compression \<Rightarrow> (compression_algorithm \<times> compression_level \<times> nat) option" where
  "get_request_compression (RequestCompression c) = c"

text \<open>\<open>default_level\<close> is \<^verbatim>\<open>CompressionLevel::default()\<close>.\<close>

definition default_request_compression :: "compression_level \<Rightarrow> request_compression" where
  "default_request_compression default_level = compression_enabled Gzip default_level 1024"

datatype response_compression_algorithm = RGzip | RDeflate

fun accept_encoding_token :: "response_compression_algorithm \<Rightarrow> string" where
  "accept_encoding_token RGzip = ''gzip''"
| "accept_encoding_token RDeflate = ''deflate''"

definition from_content_encoding :: "string \<Rightarrow> response_compression_algorithm option" where
  "from_content_encoding token =
     (let token = to_ascii_lowercase (trim (hd (split_on CHR '';'' token)))
      in if token = ''gzip'' \<or> token = ''x-gzip'' then Some RGzip
         else if token = ''deflate'' then Some RDeflate else None)"

definition all_algorithms :: "response_compression_algorithm list" where
  "all_algorithms = [RGzip, RDeflate]"

definition accept_encoding_header_value :: "response_compression_algorithm list \<Rightarrow> string" where
  "accept_encoding_header_value algorithms = join '', '' (map accept_encoding_token algorithms)"

record response_compression =
  accepted_algorithms :: "response_compression_algorithm list option"
  max_encoding_layers :: nat
  max_decompressed_bytes :: nat

definition response_new :: "response_compression_algorithm list option \<Rightarrow> response_compression" where
  "response_new a =
     \<lparr>accepted_algorithms = a, max_encoding_layers = DEFAULT_MAX_RESPONSE_ENCODING_LAYERS,
      max_decompressed_bytes = DEFAULT_MAX_DECOMPRESSED_RESPONSE_BYTES\<rparr>"

definition response_enabled :: "response_compression_algorithm \<Rightarrow> response_compression" where
  "response_enabled a = response_new (Some [a])"

definition response_enabled_all :: response_compression where
  "response_enabled_all = response_new (Some all_algorithms)"

definition response_enabled_many :: "response_compression_algorithm list \<Rightarrow> response_compression" where
  "response_enabled_many algorithms =
     (let seen = foldl (\<lambda>seen a. if a \<notin> set seen then seen @ [a] else seen) [] algorithms
      in if seen = [] then response_enabled_all else response_new (Some seen))"

definition response_disabled :: response_compression where
  "response_disabled = response_new None"

definition with_max_encoding_layers :: "nat \<Rightarrow> response_compression \<Rightarrow> response_compression" where
  "with_max_encoding_layers n c = c\<lparr>max_encoding_layers := n\<rparr>"

definition with_max_decompressed_bytes :: "nat \<Rightarrow> response_compression \<Rightarrow> response_compression" where
  "with_max_decompressed_bytes n c = c\<lparr>max_decompressed_bytes := n\<rparr>"

section \<open>Compressing a request\<close>

text \<open>An encoder reads the body to its end, or fails.\<close>

record encoders =
  gzip_encode :: "bytes \<Rightarrow> compression_level \<Rightarrow> bytes option"
  zlib_encode :: "bytes \<Rightarrow> compression_level \<Rightarrow> bytes option"

definition compress_gzip :: "encoders \<Rightarrow> bytes \<Rightarrow> compression_level \<Rightarrow> bytes option" where
  "compress_gzip C content level = gzip_encode C content level"

definition compress_zlib :: "encoders \<Rightarrow> bytes \<Rightarrow> compression_level \<Rightarrow> bytes option" where
  "compress_zlib C content level = zlib_encode C content level"

text \<open>\<^verbatim>\<open>usize::to_string\<close>.\<close>

function decimal :: "nat \<Rightarrow> string" where
  "decimal n = (if n < 10 then [char_of (48 + n)] else decimal (n div 10) @ [char_of (48 + n mod 10)])"
  by pat_completeness auto
termination by (relation "measure id") auto

declare decimal.simps [simp del]

definition compress_request ::
  "('h, 'x) headers_api_scheme \<Rightarrow> encoders \<Rightarrow> compression_algorithm \<Rightarrow> compression_level \<Rightarrow> nat \<Rightarrow>
   ('h, 's) request \<Rightarrow> ('h, 's) request" where
  "compress_request H C algorithm level threshold r =
     (if contains_key H (req_headers r) ''content-encoding'' then r
      else case body_bytes (req_body r) of
          None \<Rightarrow> r
        | Some body \<Rightarrow>
            if length body < threshold then r
            else let (compressed, http_code) =
                       (case algorithm of
                          Gzip \<Rightarrow> (compress_gzip C body level, ''gzip'')
                        | Deflate \<Rightarrow> (compress_zlib C body level, ''deflate''))
                 in case compressed of
                      None \<Rightarrow> r
                    | Some c \<Rightarrow>
                        let h1 = header_append H ''content-encoding'' http_code (req_headers r);
                            h2 = header_insert H ''content-length'' (decimal (length c)) h1
                        in r\<lparr>req_headers := h2, req_body := Collected c\<rparr>)"

section \<open>Facts\<close>

lemma decimal_digits: "list_all is_ascii_digit (decimal n)"
proof (induction n rule: decimal.induct)
  case (1 n)
  have d: "k < 10 \<Longrightarrow> is_ascii_digit (char_of (48 + k :: nat))" for k
    by (simp add: is_ascii_digit_def of_char_of)
  show ?case by (subst decimal.simps) (use 1 d in \<open>auto\<close>)
qed

text \<open>Reading a decimal number back.\<close>

fun read_decimal :: "nat \<Rightarrow> string \<Rightarrow> nat" where
  "read_decimal acc [] = acc"
| "read_decimal acc (c # cs) = read_decimal (10 * acc + (of_char c - 48)) cs"

lemma read_decimal_append: "read_decimal acc (s @ t) = read_decimal (read_decimal acc s) t"
  by (induction acc s rule: read_decimal.induct) auto

lemma read_decimal: "read_decimal 0 (decimal n) = n"
proof (induction n rule: decimal.induct)
  case (1 n)
  show ?case by (subst decimal.simps) (use 1 in \<open>auto simp: read_decimal_append of_char_of\<close>)
qed

lemma token_visible: "list_all visible (accept_encoding_token a)" "CHR '','' \<notin> set (accept_encoding_token a)"
    "CHR '';'' \<notin> set (accept_encoding_token a)"
  by (cases a; simp add: visible_def)+

lemma from_content_encoding_token:
  "from_content_encoding (accept_encoding_token a) = Some a
   \<and> from_content_encoding (CHR '' '' # accept_encoding_token a) = Some a"
proof -
  have s: "split_on CHR '';'' (accept_encoding_token a) = [accept_encoding_token a]"
    "split_on CHR '';'' (CHR '' '' # accept_encoding_token a) = [CHR '' '' # accept_encoding_token a]"
    using token_visible(3) [of a] by (simp_all add: split_on_no_sep)
  have l: "to_ascii_lowercase (accept_encoding_token a) = accept_encoding_token a"
  proof -
    have "to_ascii_lowercase ''gzip'' = ''gzip''" "to_ascii_lowercase ''deflate'' = ''deflate''" by code_simp+
    then show ?thesis by (cases a) simp_all
  qed
  show ?thesis
    unfolding from_content_encoding_def Let_def s list.sel trim_space trim_visible [OF token_visible(1)] l
    by (cases a) auto
qed

lemma split_header_value:
  "as \<noteq> [] \<Longrightarrow> split_on CHR '','' (accept_encoding_header_value as) =
     accept_encoding_token (hd as) # map (\<lambda>a. CHR '' '' # accept_encoding_token a) (tl as)"
proof (induction as)
  case (Cons a as)
  show ?case
  proof (cases as)
    case Nil
    then show ?thesis using token_visible(2) [of a]
      by (simp add: accept_encoding_header_value_def split_on_no_sep)
  next
    case (Cons b bs)
    have "accept_encoding_header_value (a # as)
        = accept_encoding_token a @ CHR '','' # CHR '' '' # accept_encoding_header_value as"
      by (simp add: accept_encoding_header_value_def Cons)
    moreover have "split_on CHR '','' (CHR '' '' # accept_encoding_header_value as)
        = (CHR '' '' # accept_encoding_token (hd as)) # map (\<lambda>a. CHR '' '' # accept_encoding_token a) (tl as)"
      using Cons.IH Cons by (simp split: list.split)
    ultimately show ?thesis
      using token_visible(2) [of a] by (simp add: split_on_append Cons)
  qed
qed simp

lemma enabled_many_limits:
  "max_encoding_layers (response_enabled_many algorithms) = 5"
  "max_decompressed_bytes (response_enabled_many algorithms) = 33554432"
  by (simp_all add: response_enabled_many_def Let_def response_enabled_all_def response_new_def
      DEFAULT_MAX_RESPONSE_ENCODING_LAYERS_def DEFAULT_MAX_DECOMPRESSED_RESPONSE_BYTES_def)

section \<open>Correctness\<close>

text \<open>
  what the client announces is what it understands: splitting the \<^verbatim>\<open>Accept-Encoding\<close> value
  at its commas and reading each token as a \<^verbatim>\<open>Content-Encoding\<close> gives back the announced
  algorithms in their order of preference.
\<close>

theorem accept_encoding_roundtrip:
  assumes "algorithms \<noteq> []"
  shows "map from_content_encoding (split_on CHR '','' (accept_encoding_header_value algorithms)) = map Some algorithms"
  using assms from_content_encoding_token by (cases algorithms) (simp_all add: split_header_value)

theorem accept_encoding_roundtrip_witness:
  "map from_content_encoding (split_on CHR '','' (accept_encoding_header_value [RDeflate, RGzip])) = [Some RDeflate, Some RGzip]"
  using accept_encoding_roundtrip [of "[RDeflate, RGzip]"] by simp

text \<open>
  compressing a request. It happens exactly when there is no \<^verbatim>\<open>Content-Encoding\<close> yet, the
  body is in memory and at least as long as the threshold, and the encoder succeeds; then the
  body is the encoder's output, \<^verbatim>\<open>Content-Encoding\<close> is the one token of the algorithm,
  \<^verbatim>\<open>Content-Length\<close> is the decimal length of the new body, and every other header and the URI
  are as before. Otherwise the request is untouched.
\<close>

theorem compress_request_effect:
  assumes "headers_law H" and "canonical_name m"
  shows "case (if get_all H (req_headers r) ''content-encoding'' = [] then body_bytes (req_body r) else None) of
      None \<Rightarrow> compress_request H C algorithm level threshold r = r
    | Some body \<Rightarrow>
       (case (if threshold \<le> length body
              then (if algorithm = Gzip then gzip_encode C body level else zlib_encode C body level) else None) of
          None \<Rightarrow> compress_request H C algorithm level threshold r = r
        | Some c \<Rightarrow>
           (let r' = compress_request H C algorithm level threshold r
            in req_body r' = Collected c \<and> req_uri r' = req_uri r
             \<and> get_all H (req_headers r') m =
                (if m = ''content-encoding'' then [if algorithm = Gzip then ''gzip'' else ''deflate'']
                 else if m = ''content-length'' then [decimal (length c)]
                 else get_all H (req_headers r) m)
             \<and> read_decimal 0 (decimal (length c)) = length c))"
  using headers_lawD(1,2) [OF assms(1) _ assms(2)]
  by (cases algorithm)
    (auto simp: compress_request_def contains_key_def compress_gzip_def compress_zlib_def Let_def read_decimal
      split: option.splits)

theorem compress_request_effect_witness:
  "req_body (compress_request list_headers \<lparr>gzip_encode = (\<lambda>b l. Some (0 # b)), zlib_encode = (\<lambda>b l. None)\<rparr> Gzip 6 1
     \<lparr>req_headers = [], req_uri = [], req_body = Collected [7] :: unit sdk_body\<rparr>) = Collected [0, 7]"
  using compress_request_effect [OF list_headers_law, where m = "''host''" and threshold = 1 and
      algorithm = Gzip and level = 6 and C = "\<lparr>gzip_encode = (\<lambda>b l. Some (0 # b)), zlib_encode = (\<lambda>b l. None)\<rparr>" and
      r = "\<lparr>req_headers = [], req_uri = [], req_body = Collected [7] :: unit sdk_body\<rparr>"]
  by (simp add: list_get_all Let_def)

text \<open>
  the announced algorithms have no duplicates: \<^verbatim>\<open>enabled_many\<close> keeps the first occurrence of
  each and announces all supported ones for an empty choice; its limits are the defaults.
\<close>

theorem enabled_many_distinct:
  "let c = response_enabled_many algorithms in
     (\<exists>as. accepted_algorithms c = Some as \<and> distinct as \<and> as \<noteq> []
       \<and> as = (if algorithms = [] then [RGzip, RDeflate] else first_occurrences {} algorithms)
       \<and> set as = (if algorithms = [] then UNIV else set algorithms))
     \<and> max_encoding_layers c = 5 \<and> max_decompressed_bytes c = 33554432"
proof -
  have u: "set [RGzip, RDeflate] = UNIV" using response_compression_algorithm.exhaust by auto
  have e: "first_occurrences {} algorithms = [] \<longleftrightarrow> algorithms = []"
    using first_occurrences_set [of "{}" algorithms] by (metis Diff_empty set_empty)
  show ?thesis
    using u e first_occurrences_distinct [of "{}" algorithms] first_occurrences_set [of "{}" algorithms]
    by (simp add: response_enabled_many_def foldl_first_occurrences Let_def response_enabled_all_def
        response_new_def all_algorithms_def DEFAULT_MAX_RESPONSE_ENCODING_LAYERS_def
        DEFAULT_MAX_DECOMPRESSED_RESPONSE_BYTES_def)
qed

end
