(* ===== verification/Decompression.thy ===== *)
theory Decompression
  imports Compression
begin

text \<open>
  \<^verbatim>\<open>src/src/decompression.rs\<close>: streaming decompression of a response body, with a limit on the
  number of layers and on the bytes each layer produces. The two readers of the file are modelled
  poll by poll over any inner reader; the composition in \<^verbatim>\<open>wrap_decompressed_body\<close> is modelled on
  whole streams here, and poll by poll in theory \<^verbatim>\<open>Body_Polls\<close>, which refines it. The gzip and zlib decoders of
  \<^verbatim>\<open>async-compression\<close> are arguments.
\<close>

section \<open>Readers\<close>

datatype io_error = DecompressedResponseSizeLimitExceeded nat | OtherIo string

text \<open>One poll: not ready, bytes put into the buffer (none at the end of the stream), an error.\<close>

datatype poll = Pending | Ready bytes | Failed io_error

datatype ending = Eof | Fail io_error

text \<open>
  The contract of an \<^verbatim>\<open>AsyncRead\<close>: what its state still has to deliver, and how that ends. Reads
  have room for at least one byte.
\<close>

locale async_reader =
  fixes read :: "nat \<Rightarrow> 's \<Rightarrow> poll \<times> 's"
    and out :: "'s \<Rightarrow> bytes"
    and fin :: "'s \<Rightarrow> ending"
  assumes at_end: "0 < n \<Longrightarrow> read n s = (Ready [], s') \<Longrightarrow> out s = [] \<and> fin s = Eof"
    and data: "0 < n \<Longrightarrow> read n s = (Ready bs, s') \<Longrightarrow> bs \<noteq> [] \<Longrightarrow>
      length bs \<le> n \<and> out s = bs @ out s' \<and> fin s' = fin s"
    and failed: "0 < n \<Longrightarrow> read n s = (Failed x, s') \<Longrightarrow> out s = [] \<and> fin s = Fail x"
    and pending: "0 < n \<Longrightarrow> read n s = (Pending, s') \<Longrightarrow> out s' = out s \<and> fin s' = fin s"

text \<open>A consumer polls with the given buffer sizes until the stream ends or fails.\<close>

fun read_with :: "(nat \<Rightarrow> 's \<Rightarrow> poll \<times> 's) \<Rightarrow> nat list \<Rightarrow> 's \<Rightarrow> bytes \<times> ending option" where
  "read_with rd [] s = ([], None)"
| "read_with rd (n # ns) s =
     (case rd n s of
        (Pending, s') \<Rightarrow> read_with rd ns s'
      | (Ready bs, s') \<Rightarrow>
          if bs = [] then ([], Some Eof)
          else (let (o', e) = read_with rd ns s' in (bs @ o', e))
      | (Failed x, s') \<Rightarrow> ([], Some (Fail x)))"

context async_reader
begin

text \<open>What a consumer received is a prefix of what the state delivers, all of it at the end.\<close>

lemma read_with_sound:
  assumes "\<forall>n \<in> set ns. 0 < n"
  shows "(\<exists>rest. out s = fst (read_with read ns s) @ rest)
    \<and> (case snd (read_with read ns s) of None \<Rightarrow> True
       | Some e \<Rightarrow> fst (read_with read ns s) = out s \<and> e = fin s)"
  using assms
proof (induction ns arbitrary: s)
  case (Cons n ns)
  have pos: "0 < n" using Cons.prems by simp
  obtain p s' where r: "read n s = (p, s')" by (cases "read n s")
  show ?case
  proof (cases p)
    case Pending
    then show ?thesis using pending [OF pos, of s s'] r Cons.IH [of s'] Cons.prems by (auto split: option.splits)
  next
    case (Ready bs)
    show ?thesis
    proof (cases "bs = []")
      case True
      then show ?thesis using at_end [OF pos, of s s'] r Ready by simp
    next
      case False
      then show ?thesis using data [OF pos, of s bs s'] r Ready Cons.IH [of s'] Cons.prems
        by (auto simp: split_def Let_def split: option.splits)
    qed
  next
    case (Failed x)
    then show ?thesis using failed [OF pos] r by simp
  qed
qed simp

end

subsection \<open>The body of a response\<close>

text \<open>
  \<^verbatim>\<open>BodyStream\<close> filtered to its data frames, read through a \<^verbatim>\<open>StreamReader\<close>; \<open>NotReady\<close> is a
  pending poll of the transport.
\<close>

datatype body_frame = DataFrame bytes | TrailersFrame | NotReady

type_synonym body_stream = "body_frame list \<times> ending"

fun body_read :: "nat \<Rightarrow> body_stream \<Rightarrow> poll \<times> body_stream" where
  "body_read n ([], e) = (case e of Eof \<Rightarrow> Ready [] | Fail x \<Rightarrow> Failed x, ([], e))"
| "body_read n (TrailersFrame # fs, e) = body_read n (fs, e)"
| "body_read n (NotReady # fs, e) = (Pending, (fs, e))"
| "body_read n (DataFrame bs # fs, e) =
     (if bs = [] then body_read n (fs, e)
      else (Ready (take n bs), (if length bs \<le> n then fs else DataFrame (drop n bs) # fs, e)))"

fun frame_bytes :: "body_frame \<Rightarrow> bytes" where
  "frame_bytes (DataFrame bs) = bs"
| "frame_bytes TrailersFrame = []"
| "frame_bytes NotReady = []"

definition body_out :: "body_stream \<Rightarrow> bytes" where
  "body_out b = concat (map frame_bytes (fst b))"

lemma body_read_cases:
  "0 < n \<Longrightarrow> body_read n b = (p, b') \<Longrightarrow>
     (case p of Pending \<Rightarrow> body_out b' = body_out b \<and> snd b' = snd b
      | Ready bs \<Rightarrow> if bs = [] then body_out b = [] \<and> snd b = Eof
          else length bs \<le> n \<and> body_out b = bs @ body_out b' \<and> snd b' = snd b
      | Failed x \<Rightarrow> body_out b = [] \<and> snd b = Fail x)"
  by (induction n b rule: body_read.induct)
    (auto simp: body_out_def split: poll.splits ending.splits if_splits)

interpretation body_reader: async_reader body_read body_out snd
  by unfold_locales (auto dest: body_read_cases)

subsection \<open>The size limit\<close>

text \<open>\<open>take_limit\<close> is what \<^verbatim>\<open>tokio::io::Take\<close> still lets through.\<close>

record 's size_limited_reader =
  take_limit :: nat
  sl_limit :: nat
  sl_inner :: 's

definition size_limited_new :: "'s \<Rightarrow> nat \<Rightarrow> 's size_limited_reader" where
  "size_limited_new inner limit = \<lparr>take_limit = limit, sl_limit = limit, sl_inner = inner\<rparr>"

definition take_read ::
  "(nat \<Rightarrow> 's \<Rightarrow> poll \<times> 's) \<Rightarrow> nat \<Rightarrow> 's size_limited_reader \<Rightarrow> poll \<times> 's size_limited_reader" where
  "take_read rd remaining r =
     (if take_limit r = 0 then (Ready [], r)
      else case rd (min remaining (take_limit r)) (sl_inner r) of
          (Ready bs, s) \<Rightarrow> (Ready bs, r\<lparr>sl_inner := s, take_limit := take_limit r - length bs\<rparr>)
        | (p, s) \<Rightarrow> (p, r\<lparr>sl_inner := s\<rparr>))"

definition size_limited_read ::
  "(nat \<Rightarrow> 's \<Rightarrow> poll \<times> 's) \<Rightarrow> nat \<Rightarrow> 's size_limited_reader \<Rightarrow> poll \<times> 's size_limited_reader" where
  "size_limited_read rd remaining r =
     (if 0 < take_limit r \<or> remaining = 0 then take_read rd remaining r
      else case rd 1 (sl_inner r) of
          (Ready [], s) \<Rightarrow> (Ready [], r\<lparr>sl_inner := s\<rparr>)
        | (Ready (b # bs), s) \<Rightarrow>
            (Failed (DecompressedResponseSizeLimitExceeded (sl_limit r)), r\<lparr>sl_inner := s\<rparr>)
        | (Failed x, s) \<Rightarrow> (Failed x, r\<lparr>sl_inner := s\<rparr>)
        | (Pending, s) \<Rightarrow> (Pending, r\<lparr>sl_inner := s\<rparr>))"

text \<open>What it delivers: the first bytes, and an explicit error if there are more.\<close>

definition limited_out :: "('s \<Rightarrow> bytes) \<Rightarrow> 's size_limited_reader \<Rightarrow> bytes" where
  "limited_out out r = take (take_limit r) (out (sl_inner r))"

definition limited_fin :: "('s \<Rightarrow> bytes) \<Rightarrow> ('s \<Rightarrow> ending) \<Rightarrow> 's size_limited_reader \<Rightarrow> ending" where
  "limited_fin out fin r =
     (if length (out (sl_inner r)) \<le> take_limit r then fin (sl_inner r)
      else Fail (DecompressedResponseSizeLimitExceeded (sl_limit r)))"

lemma reader_cases:
  assumes "async_reader rd out fin" and "0 < n" and "rd n s = (p, s')"
  shows "case p of Pending \<Rightarrow> out s' = out s \<and> fin s' = fin s
      | Ready bs \<Rightarrow> if bs = [] then out s = [] \<and> fin s = Eof
          else length bs \<le> n \<and> out s = bs @ out s' \<and> fin s' = fin s
      | Failed x \<Rightarrow> out s = [] \<and> fin s = Fail x"
proof -
  show ?thesis
    using assms(2,3) async_reader.at_end [OF assms(1)] async_reader.data [OF assms(1)]
      async_reader.failed [OF assms(1)] async_reader.pending [OF assms(1)]
    by (cases p) auto
qed

lemma size_limited_cases:
  assumes "async_reader rd out fin" and "0 < n" and "size_limited_read rd n r = (p, r')"
  shows "case p of Pending \<Rightarrow> limited_out out r' = limited_out out r \<and> limited_fin out fin r' = limited_fin out fin r
      | Ready bs \<Rightarrow> if bs = [] then limited_out out r = [] \<and> limited_fin out fin r = Eof
          else length bs \<le> n \<and> limited_out out r = bs @ limited_out out r' \<and> limited_fin out fin r' = limited_fin out fin r
      | Failed x \<Rightarrow> limited_out out r = [] \<and> limited_fin out fin r = Fail x"
proof (cases "0 < take_limit r")
  case True
  let ?n = "min n (take_limit r)"
  have pos: "0 < ?n" using True assms(2) by simp
  obtain q s where q: "rd ?n (sl_inner r) = (q, s)" by (cases "rd ?n (sl_inner r)")
  have law: "case q of Pending \<Rightarrow> out s = out (sl_inner r) \<and> fin s = fin (sl_inner r)
      | Ready bs \<Rightarrow> if bs = [] then out (sl_inner r) = [] \<and> fin (sl_inner r) = Eof
          else length bs \<le> ?n \<and> out (sl_inner r) = bs @ out s \<and> fin s = fin (sl_inner r)
      | Failed x \<Rightarrow> out (sl_inner r) = [] \<and> fin (sl_inner r) = Fail x"
    by (rule reader_cases [OF assms(1) pos q])
  show ?thesis using assms(3) True q law
    by (cases q) (auto simp: size_limited_read_def take_read_def limited_out_def limited_fin_def
        split: if_splits)
next
  case False
  obtain q s where q: "rd 1 (sl_inner r) = (q, s)" by (cases "rd 1 (sl_inner r)")
  note law = reader_cases [OF assms(1) zero_less_one q]
  show ?thesis using assms(2,3) False q law
    by (cases q) (auto simp: size_limited_read_def limited_out_def limited_fin_def split: list.splits if_splits)
qed

lemma size_limited_async:
  assumes "async_reader rd out fin"
  shows "async_reader (size_limited_read rd) (limited_out out) (limited_fin out fin)"
  by unfold_locales (auto dest: size_limited_cases [OF assms])

interpretation limited_body: async_reader "size_limited_read body_read" "limited_out body_out" "limited_fin body_out snd"
  by (rule size_limited_async) (rule body_reader.async_reader_axioms)

subsection \<open>Draining a decoder's input\<close>

text \<open>
  A decoder of \<^verbatim>\<open>async-compression\<close> with its buffered input: \<open>poll_decode\<close> produces decoded bytes
  (none when the compressed member is complete), \<open>poll_input\<close> reads what is left of the input.
\<close>

record 'd decoder_api =
  poll_decode :: "response_compression_algorithm \<Rightarrow> nat \<Rightarrow> 'd \<Rightarrow> poll \<times> 'd"
  poll_input :: "response_compression_algorithm \<Rightarrow> nat \<Rightarrow> 'd \<Rightarrow> poll \<times> 'd"

record 'd complete_stage_decoder =
  dec_algorithm :: response_compression_algorithm
  dec_inner :: 'd
  decoding_complete :: bool

definition drain_read :: "('d, 'x) decoder_api_scheme \<Rightarrow> 'd complete_stage_decoder \<Rightarrow> poll \<times> 'd complete_stage_decoder" where
  "drain_read D st =
     (case poll_input D (dec_algorithm st) 8192 (dec_inner st) of
        (Ready [], d) \<Rightarrow> (Ready [], st\<lparr>dec_inner := d\<rparr>)
      | (Ready (b # bs), d) \<Rightarrow> (Pending, st\<lparr>dec_inner := d\<rparr>)
      | (p, d) \<Rightarrow> (p, st\<lparr>dec_inner := d\<rparr>))"

definition complete_read ::
  "('d, 'x) decoder_api_scheme \<Rightarrow> nat \<Rightarrow> 'd complete_stage_decoder \<Rightarrow> poll \<times> 'd complete_stage_decoder" where
  "complete_read D remaining st =
     (if remaining = 0 then (Ready [], st)
      else if \<not> decoding_complete st then
        (case poll_decode D (dec_algorithm st) remaining (dec_inner st) of
           (Ready [], d) \<Rightarrow> drain_read D (st\<lparr>dec_inner := d, decoding_complete := True\<rparr>)
         | (p, d) \<Rightarrow> (p, st\<lparr>dec_inner := d\<rparr>))
      else drain_read D st)"

text \<open>
  What the crate relies on: a decoder state has decoded bytes to come, possibly a decoding error
  after them, and an ending of its input, and both polls report them in order. A finished member
  may leave input unread.
\<close>

definition decoder_law ::
  "('d, 'x) decoder_api_scheme \<Rightarrow> (response_compression_algorithm \<Rightarrow> 'd \<Rightarrow> bytes) \<Rightarrow>
   (response_compression_algorithm \<Rightarrow> 'd \<Rightarrow> io_error option) \<Rightarrow> ('d \<Rightarrow> ending) \<Rightarrow> bool" where
  "decoder_law D out err inp \<longleftrightarrow>
     (\<forall>a n d p d'. 0 < n \<longrightarrow> poll_decode D a n d = (p, d') \<longrightarrow>
        (case p of Pending \<Rightarrow> out a d' = out a d \<and> err a d' = err a d \<and> inp d' = inp d
         | Ready bs \<Rightarrow> if bs = [] then out a d = [] \<and> err a d = None \<and> inp d' = inp d
             else length bs \<le> n \<and> out a d = bs @ out a d' \<and> err a d' = err a d \<and> inp d' = inp d
         | Failed x \<Rightarrow> out a d = [] \<and> (case err a d of Some y \<Rightarrow> y = x | None \<Rightarrow> inp d = Fail x)))
     \<and> (\<forall>a n d p d'. 0 < n \<longrightarrow> poll_input D a n d = (p, d') \<longrightarrow>
        (case p of Pending \<Rightarrow> inp d' = inp d
         | Ready bs \<Rightarrow> if bs = [] then inp d = Eof else inp d' = inp d
         | Failed x \<Rightarrow> inp d = Fail x))"

definition stage_out :: "(response_compression_algorithm \<Rightarrow> 'd \<Rightarrow> bytes) \<Rightarrow> 'd complete_stage_decoder \<Rightarrow> bytes" where
  "stage_out out st = (if decoding_complete st then [] else out (dec_algorithm st) (dec_inner st))"

definition stage_fin ::
  "(response_compression_algorithm \<Rightarrow> 'd \<Rightarrow> io_error option) \<Rightarrow> ('d \<Rightarrow> ending) \<Rightarrow> 'd complete_stage_decoder \<Rightarrow> ending" where
  "stage_fin err inp st =
     (if decoding_complete st then inp (dec_inner st)
      else case err (dec_algorithm st) (dec_inner st) of Some x \<Rightarrow> Fail x | None \<Rightarrow> inp (dec_inner st))"

lemma decoder_decode:
  assumes "decoder_law D out err inp" and "0 < n" and "poll_decode D a n d = (p, d')"
  shows "case p of Pending \<Rightarrow> out a d' = out a d \<and> err a d' = err a d \<and> inp d' = inp d
      | Ready bs \<Rightarrow> if bs = [] then out a d = [] \<and> err a d = None \<and> inp d' = inp d
          else length bs \<le> n \<and> out a d = bs @ out a d' \<and> err a d' = err a d \<and> inp d' = inp d
      | Failed x \<Rightarrow> out a d = [] \<and> (case err a d of Some y \<Rightarrow> y = x | None \<Rightarrow> inp d = Fail x)"
  using assms unfolding decoder_law_def by blast

lemma decoder_input:
  assumes "decoder_law D out err inp" and "0 < n" and "poll_input D a n d = (p, d')"
  shows "case p of Pending \<Rightarrow> inp d' = inp d
      | Ready bs \<Rightarrow> if bs = [] then inp d = Eof else inp d' = inp d
      | Failed x \<Rightarrow> inp d = Fail x"
  using assms unfolding decoder_law_def by blast

lemma drain_read_cases:
  assumes "decoder_law D out err inp" and "decoding_complete st" and "drain_read D st = (p, st')"
  shows "decoding_complete st' \<and> dec_algorithm st' = dec_algorithm st \<and> (case p of Pending \<Rightarrow> inp (dec_inner st') = inp (dec_inner st)
      | Ready bs \<Rightarrow> bs = [] \<and> inp (dec_inner st) = Eof
      | Failed x \<Rightarrow> inp (dec_inner st) = Fail x)"
proof -
  obtain q d where q: "poll_input D (dec_algorithm st) 8192 (dec_inner st) = (q, d)"
    by (cases "poll_input D (dec_algorithm st) 8192 (dec_inner st)")
  have law: "case q of Pending \<Rightarrow> inp d = inp (dec_inner st)
      | Ready bs \<Rightarrow> if bs = [] then inp (dec_inner st) = Eof else inp d = inp (dec_inner st)
      | Failed x \<Rightarrow> inp (dec_inner st) = Fail x"
    by (rule decoder_input [OF assms(1) _ q]) simp
  show ?thesis using assms(2,3) q law
    by (cases q) (auto simp: drain_read_def split: list.splits)
qed

lemma complete_read_cases:
  assumes "decoder_law D out err inp" and "0 < n" and "complete_read D n st = (p, st')"
  shows "case p of Pending \<Rightarrow> stage_out out st' = stage_out out st \<and> stage_fin err inp st' = stage_fin err inp st
      | Ready bs \<Rightarrow> if bs = [] then stage_out out st = [] \<and> stage_fin err inp st = Eof
          else length bs \<le> n \<and> stage_out out st = bs @ stage_out out st' \<and> stage_fin err inp st' = stage_fin err inp st
      | Failed x \<Rightarrow> stage_out out st = [] \<and> stage_fin err inp st = Fail x"
proof (cases "decoding_complete st")
  case True
  then have "drain_read D st = (p, st')" using assms(2,3) by (simp add: complete_read_def)
  from drain_read_cases [OF assms(1) True this] True show ?thesis
    by (cases p) (auto simp: stage_out_def stage_fin_def)
next
  case False
  obtain q d where q: "poll_decode D (dec_algorithm st) n (dec_inner st) = (q, d)"
    by (cases "poll_decode D (dec_algorithm st) n (dec_inner st)")
  note law = decoder_decode [OF assms(1,2) q]
  show ?thesis
  proof (cases "q = Ready []")
    case True
    let ?st = "st\<lparr>dec_inner := d, decoding_complete := True\<rparr>"
    have "drain_read D ?st = (p, st')" using True q False assms(2,3) by (simp add: complete_read_def)
    from drain_read_cases [OF assms(1) _ this] True law False show ?thesis
      by (cases p) (auto simp: stage_out_def stage_fin_def)
  next
    case notend: False
    then have "p = q" "st' = st\<lparr>dec_inner := d\<rparr>" using q False assms(2,3)
      by (cases q; auto simp: complete_read_def split: list.splits)+
    with law notend False show ?thesis
      by (cases q) (auto simp: stage_out_def stage_fin_def split: option.splits)
  qed
qed

lemma complete_read_async:
  assumes "decoder_law D out err inp"
  shows "async_reader (complete_read D) (stage_out out) (stage_fin err inp)"
  by unfold_locales (auto dest: complete_read_cases [OF assms])

text \<open>An instance: the identity coding, whose member is the first frame of its input.\<close>

definition stored_decoder :: "(bytes \<times> body_stream) decoder_api" where
  "stored_decoder =
     \<lparr>poll_decode = (\<lambda>a n (m, b). (Ready (take n m), (drop n m, b))),
      poll_input = (\<lambda>a n (m, b). let (p, b') = body_read n b in (p, (m, b')))\<rparr>"

lemma stored_decoder_input:
  assumes "0 < n" and "poll_input stored_decoder a n d = (p, d')"
  shows "case p of Pending \<Rightarrow> snd (snd d') = snd (snd d)
      | Ready bs \<Rightarrow> if bs = [] then snd (snd d) = Eof else snd (snd d') = snd (snd d)
      | Failed x \<Rightarrow> snd (snd d) = Fail x"
proof -
  obtain m b where d: "d = (m, b)" by (cases d)
  obtain b' where "body_read n b = (p, b')" "d' = (m, b')"
    using assms(2) d by (cases "body_read n b") (auto simp: stored_decoder_def)
  with body_read_cases [OF assms(1) this(1)] d show ?thesis by (cases p) (auto split: if_splits)
qed

lemma stored_decoder_law: "decoder_law stored_decoder (\<lambda>a. fst) (\<lambda>a d. None) (\<lambda>d. snd (snd d))"
  unfolding decoder_law_def
proof (intro conjI allI impI, goal_cases)
  case (1 a n d p d')
  then show ?case by (cases d) (auto simp: stored_decoder_def)
next
  case (2 a n d p d')
  then show ?case by (rule stored_decoder_input)
qed

interpretation stored_stage: async_reader "complete_read stored_decoder" "stage_out (\<lambda>a. fst)"
  "stage_fin (\<lambda>a d. None) (\<lambda>d. snd (snd d))"
  by (rule complete_read_async) (rule stored_decoder_law)

section \<open>The whole body\<close>

text \<open>A stream as a whole: its bytes and its ending.\<close>

type_synonym byte_stream = "bytes \<times> ending"

definition limit_stage :: "nat \<Rightarrow> byte_stream \<Rightarrow> byte_stream" where
  "limit_stage limit s =
     (if length (fst s) \<le> limit then s
      else (take limit (fst s), Fail (DecompressedResponseSizeLimitExceeded limit)))"

text \<open>How a decoder ends on the bytes of its input: its member is complete, or it lacks bytes, or
  the bytes are not valid.\<close>

datatype decode_end = MemberComplete | InputTooShort io_error | InvalidData io_error

type_synonym decoders = "response_compression_algorithm \<Rightarrow> bytes \<Rightarrow> bytes \<times> decode_end"

definition decode_stage :: "decoders \<Rightarrow> response_compression_algorithm \<Rightarrow> byte_stream \<Rightarrow> byte_stream" where
  "decode_stage dec a s =
     (let (o', e) = dec a (fst s)
      in (o', case e of
            MemberComplete \<Rightarrow> snd s
          | InputTooShort x \<Rightarrow> (case snd s of Eof \<Rightarrow> Fail x | Fail y \<Rightarrow> Fail y)
          | InvalidData x \<Rightarrow> Fail x))"

definition body_stream_of :: "body_stream \<Rightarrow> byte_stream" where
  "body_stream_of b = (body_out b, snd b)"

text \<open>The error holds the number of layers and the maximum.\<close>

definition validate_response_encoding_layer_count :: "nat \<Rightarrow> nat \<Rightarrow> (nat \<times> nat) option" where
  "validate_response_encoding_layer_count layers maximum =
     (if layers > maximum then Some (layers, maximum) else None)"

definition display_layer_limit :: "nat \<times> nat \<Rightarrow> string" where
  "display_layer_limit e =
     ''response Content-Encoding has '' @ decimal (fst e) @ '' layers; maximum supported is '' @ decimal (snd e)"

definition display_size_limit :: "nat \<Rightarrow> string" where
  "display_size_limit limit = ''decompressed response exceeds '' @ decimal limit @ '' byte limit''"

text \<open>
  \<^verbatim>\<open>CompleteStageDecoder::new\<close>; \<open>decoder_new\<close> is the decoder of \<^verbatim>\<open>async-compression\<close> for the
  algorithm over the buffered reader.
\<close>

definition complete_new ::
  "(response_compression_algorithm \<Rightarrow> 's \<Rightarrow> 'd) \<Rightarrow> 's \<Rightarrow> response_compression_algorithm \<Rightarrow> 'd complete_stage_decoder" where
  "complete_new decoder_new reader algorithm =
     \<lparr>dec_algorithm = algorithm, dec_inner = decoder_new algorithm reader, decoding_complete = False\<rparr>"

text \<open>
  \<^verbatim>\<open>StreamingDecompressedBody::poll_frame\<close> over the \<^verbatim>\<open>poll_next\<close> of its chunk stream: a chunk is a
  data frame, errors and the end are passed on.
\<close>

datatype stream_poll = ChunkReady bytes | ChunkError io_error | StreamDone | StreamPending

datatype frame_poll = FrameReady body_frame | FrameError io_error | BodyDone | BodyPending

definition poll_frame :: "('s \<Rightarrow> stream_poll \<times> 's) \<Rightarrow> 's \<Rightarrow> frame_poll \<times> 's" where
  "poll_frame poll_next inner =
     (case poll_next inner of
        (ChunkReady chunk, inner') \<Rightarrow> (FrameReady (DataFrame chunk), inner')
      | (ChunkError e, inner') \<Rightarrow> (FrameError e, inner')
      | (StreamDone, inner') \<Rightarrow> (BodyDone, inner')
      | (StreamPending, inner') \<Rightarrow> (BodyPending, inner'))"

definition wrap_decompressed_body ::
  "decoders \<Rightarrow> body_stream \<Rightarrow> response_compression_algorithm list \<Rightarrow> nat \<Rightarrow> nat \<Rightarrow> (nat \<times> nat) + byte_stream" where
  "wrap_decompressed_body dec body encodings max_layers max_bytes =
     (case validate_response_encoding_layer_count (length encodings) max_layers of
        Some e \<Rightarrow> Inl e
      | None \<Rightarrow> Inr (fold (\<lambda>a s. limit_stage max_bytes (decode_stage dec a s)) (rev encodings)
                      (body_stream_of body)))"

section \<open>Facts on whole bodies\<close>

text \<open>Decoding every layer completely and within the limit.\<close>

fun decode_layers :: "decoders \<Rightarrow> nat \<Rightarrow> response_compression_algorithm list \<Rightarrow> bytes \<Rightarrow> bytes option" where
  "decode_layers dec limit [] bs = Some bs"
| "decode_layers dec limit (a # as) bs =
     (case dec a bs of
        (o', MemberComplete) \<Rightarrow> if length o' \<le> limit then decode_layers dec limit as o' else None
      | _ \<Rightarrow> None)"

lemma stage_Eof:
  "limit_stage limit (decode_stage dec a s) = (bs, Eof) \<longleftrightarrow>
     snd s = Eof \<and> dec a (fst s) = (bs, MemberComplete) \<and> length bs \<le> limit"
  by (cases "dec a (fst s)") (auto simp: limit_stage_def decode_stage_def split: decode_end.splits ending.splits if_splits)

lemma stages_Eof:
  "fold (\<lambda>a s. limit_stage limit (decode_stage dec a s)) as s = (bs, Eof) \<longleftrightarrow>
     snd s = Eof \<and> decode_layers dec limit as (fst s) = Some bs"
proof (induction as arbitrary: s)
  case (Cons a as)
  let ?s = "limit_stage limit (decode_stage dec a s)"
  have "snd ?s = Eof \<longleftrightarrow> snd s = Eof \<and> dec a (fst s) = (fst ?s, MemberComplete) \<and> length (fst ?s) \<le> limit"
    using stage_Eof [of limit dec a s "fst ?s"] by (metis prod.collapse prod.inject)
  then show ?case using Cons [of ?s]
    by (cases "dec a (fst s)"; cases "snd (dec a (fst s))")
      (auto simp: limit_stage_def decode_stage_def split: if_splits ending.splits)
qed (cases s, auto)

lemma stages_length:
  "as \<noteq> [] \<Longrightarrow> length (fst (fold (\<lambda>a s. limit_stage limit (decode_stage dec a s)) as s)) \<le> limit"
proof (induction as arbitrary: s rule: rev_induct)
  case (snoc a as)
  show ?case by (simp add: limit_stage_def)
qed simp

text \<open>Encoding in application order.\<close>

definition encode_layers ::
  "(response_compression_algorithm \<Rightarrow> bytes \<Rightarrow> bytes) \<Rightarrow> response_compression_algorithm list \<Rightarrow> bytes \<Rightarrow> bytes" where
  "encode_layers enc as bs = foldl (\<lambda>b a. enc a b) bs as"

lemma decode_encoded:
  assumes "\<And>a b. dec a (enc a b) = (b, MemberComplete)"
    and "\<forall>k < length as. length (encode_layers enc (take k as) bs) \<le> limit"
  shows "decode_layers dec limit (rev as) (encode_layers enc as bs) = Some bs"
  using assms(2)
proof (induction as rule: rev_induct)
  case (snoc a as)
  have le: "length (encode_layers enc as bs) \<le> limit"
    using snoc.prems [rule_format, of "length as"] by simp
  have pre: "\<forall>k < length as. length (encode_layers enc (take k as) bs) \<le> limit"
  proof (intro allI impI)
    fix k assume "k < length as"
    then show "length (encode_layers enc (take k as) bs) \<le> limit"
      using snoc.prems [rule_format, of k] by simp
  qed
  have "encode_layers enc (as @ [a]) bs = enc a (encode_layers enc as bs)"
    by (simp add: encode_layers_def)
  then show ?case using snoc.IH [OF pre] le assms(1) by simp
qed (simp add: encode_layers_def)

section \<open>Correctness\<close>

text \<open>
  C29: the size limit is exact and never silent. Over any inner reader and any sequence of polls, a
  \<^verbatim>\<open>SizeLimitedReader\<close> with limit \<open>limit\<close> hands out at most \<open>limit\<close> bytes, a prefix of the inner
  stream; it reports the end only after the whole inner stream was handed out and had ended, and
  the limit error only if the inner stream is longer than the limit.
\<close>

theorem size_limit_exact:
  assumes "async_reader rd out fin" and "\<forall>n \<in> set ns. 0 < n"
    and "read_with (size_limited_read rd) ns (size_limited_new s limit) = (bs, e)"
  shows "length bs \<le> limit \<and> (\<exists>rest. out s = bs @ rest)
    \<and> (e = Some Eof \<longrightarrow> bs = out s \<and> fin s = Eof)
    \<and> (\<forall>x. e = Some (Fail x) \<longrightarrow>
         (if length (out s) \<le> limit then bs = out s \<and> fin s = Fail x
          else bs = take limit (out s) \<and> x = DecompressedResponseSizeLimitExceeded limit))"
proof -
  let ?r = "size_limited_new s limit"
  have out: "limited_out out ?r = take limit (out s)"
    and fin: "limited_fin out fin ?r = (if length (out s) \<le> limit then fin s
       else Fail (DecompressedResponseSizeLimitExceeded limit))"
    by (simp_all add: limited_out_def limited_fin_def size_limited_new_def)
  from async_reader.read_with_sound [OF size_limited_async [OF assms(1)] assms(2), of ?r] assms(3)
  obtain rest where pre: "take limit (out s) = bs @ rest"
    and res: "case e of None \<Rightarrow> True | Some e' \<Rightarrow> bs = take limit (out s) \<and> e' = limited_fin out fin ?r"
    by (cases e) (auto simp: out)
  have "length bs \<le> limit" using pre by (metis length_append length_take min.cobounded2 le_add1 le_trans min.commute)
  moreover have "out s = bs @ (rest @ drop limit (out s))" using pre by (metis append.assoc append_take_drop_id)
  ultimately show ?thesis using res fin by (auto split: option.splits if_splits)
qed

theorem size_limit_exact_witness:
  "fst (read_with (size_limited_read body_read) [4, 4, 4]
      (size_limited_new ([DataFrame [1, 2], NotReady, DataFrame [3]], Eof) 2)) = [1, 2]"
proof -
  obtain bs e where r: "read_with (size_limited_read body_read) [4, 4, 4]
      (size_limited_new ([DataFrame [1, 2], NotReady, DataFrame [3]], Eof) 2) = (bs, e)" by fastforce
  have e: "e = Some (Fail (DecompressedResponseSizeLimitExceeded 2))"
    using r by (simp add: size_limited_read_def take_read_def size_limited_new_def)
  from size_limit_exact [OF body_reader.async_reader_axioms _ r] e r
  show ?thesis by (simp add: body_out_def)
qed

text \<open>
  a finished decoder does not hide its input. Over any decoder that keeps its contract, a
  \<^verbatim>\<open>CompleteStageDecoder\<close> reports the end only if the decoded bytes were handed out completely and
  the input of the decoder was drained to its end as well; an error of the undrained input, such
  as the size limit of the preceding layer, is reported instead.
\<close>

theorem stage_drains_input:
  assumes "decoder_law D out err inp" and "\<forall>n \<in> set ns. 0 < n"
    and "read_with (complete_read D) ns \<lparr>dec_algorithm = a, dec_inner = d, decoding_complete = False\<rparr> = (bs, e)"
  shows "(\<exists>rest. out a d = bs @ rest)
    \<and> (e = Some Eof \<longrightarrow> bs = out a d \<and> err a d = None \<and> inp d = Eof)
    \<and> (\<forall>x. e = Some (Fail x) \<longrightarrow> bs = out a d \<and> (case err a d of Some y \<Rightarrow> x = y | None \<Rightarrow> inp d = Fail x))"
  using async_reader.read_with_sound [OF complete_read_async [OF assms(1)] assms(2),
      of "\<lparr>dec_algorithm = a, dec_inner = d, decoding_complete = False\<rparr>"] assms(3)
  by (auto simp: stage_out_def stage_fin_def split: option.splits)

theorem stage_drains_input_witness:
  "read_with (complete_read stored_decoder) [8, 8, 8, 8, 8]
     \<lparr>dec_algorithm = RGzip, dec_inner = ([1, 2], ([DataFrame [9]], Fail (OtherIo ''x''))), decoding_complete = False\<rparr>
   = ([1, 2], Some (Fail (OtherIo ''x'')))"
proof -
  obtain bs e where r: "read_with (complete_read stored_decoder) [8, 8, 8, 8, 8]
     \<lparr>dec_algorithm = RGzip, dec_inner = ([1, 2], ([DataFrame [9]], Fail (OtherIo ''x''))), decoding_complete = False\<rparr> = (bs, e)"
    by fastforce
  have "e = Some (Fail (OtherIo ''x''))" using r
    by (simp add: complete_read_def drain_read_def stored_decoder_def)
  with stage_drains_input [OF stored_decoder_law _ r] show ?thesis unfolding r by simp
qed

text \<open>
  C18: a decompressed body is complete or fails. The wrapped body ends without an error exactly
  when the layers are within their maximum, the transport delivered the whole body, and decoding
  from the last listed encoding to the first completes every layer with at most \<open>max_bytes\<close>
  bytes; its content is then that decoding. With at least one layer it never delivers more than
  \<open>max_bytes\<close> bytes, error or not.
\<close>

theorem decompressed_body_complete:
  "((\<exists>s. wrap_decompressed_body dec body encodings max_layers max_bytes = Inr s \<and> s = (bs, Eof)) \<longleftrightarrow>
      length encodings \<le> max_layers \<and> snd body = Eof
      \<and> decode_layers dec max_bytes (rev encodings) (body_out body) = Some bs)
   \<and> (case wrap_decompressed_body dec body encodings max_layers max_bytes of
        Inl e \<Rightarrow> e = (length encodings, max_layers) \<and> max_layers < length encodings
      | Inr s \<Rightarrow> length (fst s) \<le> (if encodings = [] then length (body_out body) else max_bytes))"
  using stages_Eof [of max_bytes dec "rev encodings" "body_stream_of body" bs]
    stages_length [of "rev encodings" max_bytes dec "body_stream_of body"]
  by (auto simp: wrap_decompressed_body_def validate_response_encoding_layer_count_def body_stream_of_def)

text \<open>
  decompression inverts compression: a body to which the listed encodings were applied in
  their order, delivered in any frames, is decoded to the original, if the layers and the size of
  every intermediate result are within the limits and the decoders invert the encoders.
\<close>

theorem decompression_roundtrip:
  assumes "\<And>a b. dec a (enc a b) = (b, MemberComplete)"
    and "length encodings \<le> max_layers"
    and "\<forall>k < length encodings. length (encode_layers enc (take k encodings) original) \<le> max_bytes"
    and "body_out body = encode_layers enc encodings original" and "snd body = Eof"
  shows "wrap_decompressed_body dec body encodings max_layers max_bytes = Inr (original, Eof)"
  using decode_encoded [of dec enc encodings original max_bytes, OF assms(1,3)] assms(2,4,5)
    stages_Eof [of max_bytes dec "rev encodings" "body_stream_of body" original]
  by (simp add: wrap_decompressed_body_def validate_response_encoding_layer_count_def body_stream_of_def)

theorem decompression_roundtrip_witness:
  "wrap_decompressed_body (\<lambda>a b. (rev b, MemberComplete)) ([DataFrame [1], DataFrame [2, 3]], Eof) [RGzip, RDeflate] 5 100
   = Inr ([1, 2, 3], Eof)"
  by (rule decompression_roundtrip [where enc = "\<lambda>a b. rev b"])
    (auto simp: body_out_def encode_layers_def less_Suc_eq numeral_2_eq_2)

end
