(* ===== verification/Interceptors.thy ===== *)
theory Interceptors
  imports Query_Plan Classifier Resolver Optimize_Headers User_Agent Decompression
    "HOL-Library.Product_Lexorder"
begin

text \<open>
  \<^verbatim>\<open>src/src/interceptors.rs\<close>: the hooks the driver installs in the SDK client. The part of the
  \<^verbatim>\<open>ConfigBag\<close> that a request's hooks share is a record of the stored values. A hook returns the
  request or response it leaves behind together with its error, if any.
\<close>

section \<open>State\<close>

record 'u interceptor_state =
  query_plan_store :: "'u query_plan option"
  request_compression_store :: "request_compression option"
  response_compression_store :: "response_compression option"
  preserve_auth_headers_store :: "bool option"

definition empty_interceptor_state :: "'u interceptor_state" where
  "empty_interceptor_state =
     \<lparr>query_plan_store = None, request_compression_store = None, response_compression_store = None,
      preserve_auth_headers_store = None\<rparr>"

record alternator_interceptor =
  i_request_compression :: request_compression
  i_response_compression :: response_compression
  i_optimize_headers :: bool
  i_user_agent :: user_agent
  i_preserve_auth_headers :: bool

section \<open>The main interceptor\<close>

definition load_request_compression ::
  "alternator_interceptor \<Rightarrow> 'u interceptor_state \<Rightarrow> request_compression" where
  "load_request_compression i cfg =
     (case request_compression_store cfg of Some c \<Rightarrow> c | None \<Rightarrow> i_request_compression i)"

definition load_response_compression ::
  "alternator_interceptor \<Rightarrow> 'u interceptor_state \<Rightarrow> response_compression" where
  "load_response_compression i cfg =
     (case response_compression_store cfg of Some c \<Rightarrow> c | None \<Rightarrow> i_response_compression i)"

definition modify_before_retry_loop ::
  "('h, 'x) headers_api_scheme \<Rightarrow> encoders \<Rightarrow> alternator_interceptor \<Rightarrow> 'u interceptor_state \<Rightarrow>
   ('h, 's) request \<Rightarrow> ('h, 's) request" where
  "modify_before_retry_loop H C i cfg r =
     (let r1 = (case get_request_compression (load_request_compression i cfg) of
                  Some (algorithm, level, threshold) \<Rightarrow> compress_request H C algorithm level threshold r
                | None \<Rightarrow> r)
      in case accepted_algorithms (load_response_compression i cfg) of
           Some algorithms \<Rightarrow>
             r1\<lparr>req_headers := header_insert H ''accept-encoding''
                  (accept_encoding_header_value algorithms) (req_headers r1)\<rparr>
         | None \<Rightarrow> r1)"

definition modify_before_transmit ::
  "('h, 'x) headers_api_scheme \<Rightarrow> string \<Rightarrow> alternator_interceptor \<Rightarrow> 'u interceptor_state \<Rightarrow>
   ('h, 's) request \<Rightarrow> ('h, 's) request \<times> string option" where
  "modify_before_transmit H version i cfg r =
     (let preserve = (case preserve_auth_headers_store cfg of
                        Some p \<Rightarrow> p | None \<Rightarrow> i_preserve_auth_headers i);
          r1 = (if i_optimize_headers i then strip_headers H preserve r else r)
      in apply_user_agent H version (i_user_agent i) r1)"

definition read_after_signing ::
  "('h, 'x) headers_api_scheme \<Rightarrow> ('h, 's) request \<Rightarrow> 'u interceptor_state \<Rightarrow> 'u interceptor_state" where
  "read_after_signing H r cfg =
     (if contains_key H (req_headers r) ''authorization'' \<and> contains_key H (req_headers r) ''x-amz-date''
      then cfg\<lparr>preserve_auth_headers_store := Some True\<rparr> else cfg)"

datatype routing_error = NoLiveNode | UriParse url_error | CannotSetScheme | CannotSetHost | CannotSetPort | InvalidUri

text \<open>
  \<^verbatim>\<open>modify_before_signing\<close>; \<open>uri_ok\<close> is what \<^verbatim>\<open>Request::set_uri\<close> accepts. The plan in the store is
  shared behind a mutex, so its new state stays also when a later step fails.
\<close>

definition route_uri ::
  "('u, 'x) url_api_scheme \<Rightarrow> (string \<Rightarrow> bool) \<Rightarrow> 'u \<Rightarrow> string \<Rightarrow> routing_error + string" where
  "route_uri U uri_ok target uri =
     (case url_parse U uri of
        Inl e \<Rightarrow> Inl (UriParse e)
      | Inr c0 \<Rightarrow>
          (case set_scheme_of U (url_scheme U target) c0 of
             None \<Rightarrow> Inl CannotSetScheme
           | Some c1 \<Rightarrow>
               (case set_host_of U (host_str U target) c1 of
                  None \<Rightarrow> Inl CannotSetHost
                | Some c2 \<Rightarrow>
                    (case set_port_of U (url_port U target) c2 of
                       None \<Rightarrow> Inl CannotSetPort
                     | Some current \<Rightarrow>
                         if uri_ok (as_str U current) then Inr (as_str U current) else Inl InvalidUri))))"

definition modify_before_signing ::
  "('u, 'x) url_api_scheme \<Rightarrow> (string \<Rightarrow> bool) \<Rightarrow> call \<Rightarrow> 'u interceptor_state \<Rightarrow> 'u live_state \<Rightarrow>
   ('h, 's) request \<Rightarrow> ('h, 's) request \<times> routing_error option \<times> 'u interceptor_state \<times> 'u live_state" where
  "modify_before_signing U uri_ok c cfg st r =
     (case query_plan_store cfg of
        None \<Rightarrow> (r, None, cfg, st)
      | Some plan \<Rightarrow>
          (case next_node_or_restart c plan st of
             (None, plan', st') \<Rightarrow> (r, Some NoLiveNode, cfg\<lparr>query_plan_store := Some plan'\<rparr>, st')
           | (Some node, plan', st') \<Rightarrow>
               (case route_uri U uri_ok node (req_uri r) of
                  Inl e \<Rightarrow> (r, Some e, cfg\<lparr>query_plan_store := Some plan'\<rparr>, st')
                | Inr uri \<Rightarrow> (r\<lparr>req_uri := uri\<rparr>, None, cfg\<lparr>query_plan_store := Some plan'\<rparr>, st'))))"

datatype decode_error = TooManyLayers "nat \<times> nat" | UnsupportedEncoding string

text \<open>The tokens of one header value, and the loop over all of them.\<close>

definition encoding_tokens :: "string list \<Rightarrow> string list" where
  "encoding_tokens header_values = filter (\<lambda>t. t \<noteq> []) (map trim (concat (map (split_on CHR '','') header_values)))"

fun collect_encodings ::
  "nat \<Rightarrow> string list \<Rightarrow> response_compression_algorithm list \<Rightarrow> decode_error + response_compression_algorithm list" where
  "collect_encodings max_layers [] algorithms = Inr algorithms"
| "collect_encodings max_layers (token # ts) algorithms =
     (case validate_response_encoding_layer_count (length algorithms + 1) max_layers of
        Some e \<Rightarrow> Inl (TooManyLayers e)
      | None \<Rightarrow>
          (case from_content_encoding token of
             Some algo \<Rightarrow> collect_encodings max_layers ts (algorithms @ [algo])
           | None \<Rightarrow> Inl (UnsupportedEncoding token)))"

text \<open>Response bodies: streams before and after decoding.\<close>

definition modify_before_deserialization ::
  "('h, 'x) headers_api_scheme \<Rightarrow> decoders \<Rightarrow> alternator_interceptor \<Rightarrow> 'u interceptor_state \<Rightarrow>
   'h \<Rightarrow> body_stream \<Rightarrow> decode_error + 'h \<times> (body_stream + byte_stream)" where
  "modify_before_deserialization H dec i cfg h body =
     (let rc = load_response_compression i cfg
      in case collect_encodings (max_encoding_layers rc) (encoding_tokens (get_all H h ''content-encoding'')) [] of
           Inl e \<Rightarrow> Inl e
         | Inr algorithms \<Rightarrow>
             if algorithms = [] then Inr (h, Inl body)
             else (case wrap_decompressed_body dec body algorithms (max_encoding_layers rc) (max_decompressed_bytes rc) of
                     Inl e \<Rightarrow> Inl (TooManyLayers e)
                   | Inr s \<Rightarrow> Inr (header_remove H ''content-length'' (header_remove H ''content-encoding'' h), Inr s)))"

section \<open>Per-operation overrides\<close>

definition override_request_compression :: "request_compression \<Rightarrow> 'u interceptor_state \<Rightarrow> 'u interceptor_state" where
  "override_request_compression c cfg = cfg\<lparr>request_compression_store := Some c\<rparr>"

definition override_response_compression :: "response_compression \<Rightarrow> 'u interceptor_state \<Rightarrow> 'u interceptor_state" where
  "override_response_compression c cfg = cfg\<lparr>response_compression_store := Some c\<rparr>"

section \<open>Query plans\<close>

text \<open>\<^verbatim>\<open>RoundRobinQueryPlanInterceptor\<close>.\<close>

definition round_robin_before_serialization :: "handle \<Rightarrow> 'u interceptor_state \<Rightarrow> 'u interceptor_state" where
  "round_robin_before_serialization h cfg = cfg\<lparr>query_plan_store := Some (new_basic h)\<rparr>"

text \<open>The handles and the configuration of \<^verbatim>\<open>AffinityQueryPlanInterceptor\<close>; its resolver is shared
  state and passed along.\<close>

record affinity_interceptor =
  a_config :: key_route_affinity_config
  a_routing_nodes :: handle
  a_affinity_nodes :: handle

definition candidate_partition_key_hash ::
  "murmur \<Rightarrow> call \<Rightarrow> partition_key_candidate \<Rightarrow> partition_key_resolver \<Rightarrow> u64 option \<times> partition_key_resolver" where
  "candidate_partition_key_hash murmur c candidate res =
     (case get_partition_key (cand_table_name candidate) res of
        None \<Rightarrow> (None, trigger_discovery (fst c) (snd c) (cand_table_name candidate) res)
      | Some pk_name \<Rightarrow>
          (case map_of (cand_attributes candidate) pk_name of
             None \<Rightarrow> (None, res)
           | Some v \<Rightarrow> (hash_attribute_value murmur v, res)))"

text \<open>The first candidate of a single-item operation that has a hash.\<close>

fun first_hash ::
  "murmur \<Rightarrow> call \<Rightarrow> partition_key_candidate list \<Rightarrow> partition_key_resolver \<Rightarrow> u64 option \<times> partition_key_resolver" where
  "first_hash murmur c [] res = (None, res)"
| "first_hash murmur c (cand # cands) res =
     (case candidate_partition_key_hash murmur c cand res of
        (Some hash, res') \<Rightarrow> (Some hash, res')
      | (None, res') \<Rightarrow> first_hash murmur c cands res')"

text \<open>
  \<^verbatim>\<open>*votes.entry(node).or_insert(0) += 1\<close>. The map is an association list; nothing depends on its
  order, because \<open>vote_preference_order\<close> sorts it by a total order.
\<close>

fun add_vote :: "'u \<Rightarrow> ('u \<times> nat) list \<Rightarrow> ('u \<times> nat) list" where
  "add_vote u [] = [(u, 1)]"
| "add_vote u ((v, n) # vs) = (if v = u then (v, n + 1) # vs else (v, n) # add_vote u vs)"

text \<open>The voting loop; the outer \<open>None\<close> is the early return on an empty membership.\<close>

fun collect_votes ::
  "murmur \<Rightarrow> call \<Rightarrow> 'u list \<Rightarrow> partition_key_candidate list \<Rightarrow> ('u \<times> nat) list \<Rightarrow> partition_key_resolver \<Rightarrow>
   ('u \<times> nat) list option \<times> partition_key_resolver" where
  "collect_votes murmur c nodes [] votes res = (Some votes, res)"
| "collect_votes murmur c nodes (cand # cands) votes res =
     (case candidate_partition_key_hash murmur c cand res of
        (None, res') \<Rightarrow> collect_votes murmur c nodes cands votes res'
      | (Some hash, res') \<Rightarrow>
          (case preferred_node_for_hash nodes hash of
             None \<Rightarrow> (None, res')
           | Some node \<Rightarrow> collect_votes murmur c nodes cands (add_vote node votes) res'))"

definition vote_preference_order :: "('u, 'x) url_api_scheme \<Rightarrow> ('u \<times> nat) list \<Rightarrow> 'u list option" where
  "vote_preference_order U votes =
     (if votes = [] then None
      else Some (map fst (sort_key (\<lambda>(node, n). (- int n, as_str U node)) votes)))"

definition try_affinity_plan ::
  "('u, 'x) url_api_scheme \<Rightarrow> murmur \<Rightarrow> affinity_interceptor \<Rightarrow> call \<Rightarrow> input \<Rightarrow>
   partition_key_resolver \<Rightarrow> 'u live_state \<Rightarrow>
   'u query_plan option \<times> partition_key_resolver \<times> 'u live_state" where
  "try_affinity_plan U murmur i c inp res st =
     (if \<not> is_enabled (a_config i) then (None, res, st)
      else case from_input inp of
          None \<Rightarrow> (None, res, st)
        | Some op \<Rightarrow>
            if \<not> should_apply op (affinity_type (a_config i)) then (None, res, st)
            else let candidates = partition_key_candidates op
                 in if (case op of BatchWrite r \<Rightarrow> False | _ \<Rightarrow> True) then
                      (case first_hash murmur c candidates res of
                         (None, res') \<Rightarrow> (None, res', st)
                       | (Some hash, res') \<Rightarrow>
                           (case new_with_hash U (a_affinity_nodes i) c hash st of
                              None \<Rightarrow> (None, res', st)
                            | Some (plan, st') \<Rightarrow> (Some plan, res', st')))
                    else
                      (let (nodes, st') = sorted_affinity_nodes U (a_affinity_nodes i) c st;
                           (votes, res') = collect_votes murmur c nodes candidates [] res
                       in case Option.bind votes (vote_preference_order U) of
                            None \<Rightarrow> (None, res', st')
                          | Some preferred \<Rightarrow>
                              (Some (new_with_preferred_nodes (a_affinity_nodes i) preferred nodes), res', st')))"

definition get_query_plan ::
  "('u, 'x) url_api_scheme \<Rightarrow> murmur \<Rightarrow> affinity_interceptor \<Rightarrow> call \<Rightarrow> input \<Rightarrow>
   partition_key_resolver \<Rightarrow> 'u live_state \<Rightarrow> 'u query_plan \<times> partition_key_resolver \<times> 'u live_state" where
  "get_query_plan U murmur i c inp res st =
     (case try_affinity_plan U murmur i c inp res st of
        (Some plan, r) \<Rightarrow> (plan, r)
      | (None, r) \<Rightarrow> (new_basic (a_routing_nodes i), r))"

definition affinity_before_serialization ::
  "('u, 'x) url_api_scheme \<Rightarrow> murmur \<Rightarrow> affinity_interceptor \<Rightarrow> call \<Rightarrow> input \<Rightarrow> 'u interceptor_state \<Rightarrow>
   partition_key_resolver \<Rightarrow> 'u live_state \<Rightarrow> 'u interceptor_state \<times> partition_key_resolver \<times> 'u live_state" where
  "affinity_before_serialization U murmur i c inp cfg res st =
     (let (plan, r) = get_query_plan U murmur i c inp res st
      in (cfg\<lparr>query_plan_store := Some plan\<rparr>, r))"

end
