(* ===== verification/Sdk.thy ===== *)
theory Sdk
  imports Interceptors
begin

text \<open>
  The part of the AWS SDK for DynamoDB that \<^verbatim>\<open>src/src/config.rs\<close> and \<^verbatim>\<open>src/src/client.rs\<close> talk
  to. The SDK's own code is not here: its configuration builder and configuration are the types
  \<open>'b\<close> and \<open>'c\<close>, and what it does with them is the argument \<open>S\<close>. \<open>sdk_call\<close> lists the builder
  methods that the driver calls, \<open>sdk_settings\<close> the settings that it can observe, and \<open>sdk_law\<close>
  states what the SDK documents of each call. \<open>record_sdk\<close> is an instance.
\<close>

section \<open>Values\<close>

datatype shared_interceptor =
    UserInterceptor sdk_object
  | AlternatorInterceptor alternator_interceptor
  | RoundRobinQueryPlanInterceptor handle
  | AffinityQueryPlanInterceptor affinity_interceptor
  | RequestCompressionOverride request_compression
  | ResponseCompressionOverride response_compression

record timeout_config =
  connect_timeout :: "duration option"
  read_timeout :: "duration option"
  operation_timeout :: "duration option"
  operation_attempt_timeout :: "duration option"

definition timeout_builder :: timeout_config where
  "timeout_builder =
     \<lparr>connect_timeout = None, read_timeout = None, operation_timeout = None,
      operation_attempt_timeout = None\<rparr>"

section \<open>The builder methods\<close>

text \<open>
  A fluent method of the SDK (\<^verbatim>\<open>http_client(c)\<close>, \<^verbatim>\<open>allow_no_auth()\<close>) is the same call
  as its mutable twin (\<^verbatim>\<open>set_http_client(Some(c))\<close>, \<^verbatim>\<open>set_allow_no_auth()\<close>).
\<close>

datatype sdk_call =
    SetBehaviorVersion "string option"
  | SetEndpointUrl "string option"
  | EmitInputAttributes "string list"
  | CaptureInputAttributes "string list"
  | SetStalledStreamProtection "sdk_object option"
  | SetHttpClient "http_client option"
  | AllowNoAuth
  | SetRetryConfig "sdk_object option"
  | SetSleepImpl "sdk_object option"
  | SetTimeoutConfig "timeout_config option"
  | SetRetryPartition "sdk_object option"
  | SetIdentityCache identity_cache
  | PushInterceptor shared_interceptor
  | SetInterceptors "shared_interceptor list"
  | SetTimeSource "sdk_object option"
  | PushRetryClassifier sdk_object
  | SetRetryClassifiers "sdk_object list"
  | SetAppName "string option"
  | PushFrameworkMetadata "string \<times> string option"
  | SetDisableClockSkewCorrection "bool option"
  | SetInvocationIdGenerator "sdk_object option"
  | SetRegion "string option"
  | SetCredentialsProvider "sdk_object option"

record sdk_settings =
  s_behavior_version :: "string option"
  s_endpoint_url :: "string option"
  s_stalled_stream_protection :: "sdk_object option"
  s_http_client :: "http_client option"
  s_allow_no_auth :: bool
  s_retry_config :: "sdk_object option"
  s_timeout_config :: "timeout_config option"
  s_retry_partition :: "sdk_object option"
  s_identity_cache :: "identity_cache option"
  s_interceptors :: "shared_interceptor list"
  s_retry_classifiers :: "sdk_object list"
  s_app_name :: "string option"
  s_framework_metadata :: "(string \<times> string option) list"
  s_disable_clock_skew_correction :: "bool option"
  s_invocation_id_generator :: "sdk_object option"
  s_region :: "string option"
  s_credentials_provider :: "sdk_object option"

definition empty_settings :: sdk_settings where
  "empty_settings =
     \<lparr>s_behavior_version = None, s_endpoint_url = None, s_stalled_stream_protection = None,
      s_http_client = None, s_allow_no_auth = False, s_retry_config = None, s_timeout_config = None,
      s_retry_partition = None, s_identity_cache = None, s_interceptors = [],
      s_retry_classifiers = [], s_app_name = None, s_framework_metadata = [],
      s_disable_clock_skew_correction = None, s_invocation_id_generator = None, s_region = None,
      s_credentials_provider = None\<rparr>"

text \<open>
  The documented effect of a call: \<open>None\<close> clears a setting, except for the retry, timeout and
  retry-partition setters, where it has no effect; framework metadata are kept in first-seen
  order without duplicates; the no-auth escape hatch cannot be taken back. The sleep
  implementation, the time source and the captured input attributes are not observed here.
\<close>

fun settings_after :: "sdk_call \<Rightarrow> sdk_settings \<Rightarrow> sdk_settings" where
  "settings_after (SetBehaviorVersion v) s = s\<lparr>s_behavior_version := v\<rparr>"
| "settings_after (SetEndpointUrl u) s = s\<lparr>s_endpoint_url := u\<rparr>"
| "settings_after (EmitInputAttributes ns) s = s"
| "settings_after (CaptureInputAttributes ns) s = s"
| "settings_after (SetStalledStreamProtection p) s = s\<lparr>s_stalled_stream_protection := p\<rparr>"
| "settings_after (SetHttpClient h) s = s\<lparr>s_http_client := h\<rparr>"
| "settings_after AllowNoAuth s = s\<lparr>s_allow_no_auth := True\<rparr>"
| "settings_after (SetRetryConfig c) s =
     (case c of None \<Rightarrow> s | Some c \<Rightarrow> s\<lparr>s_retry_config := Some c\<rparr>)"
| "settings_after (SetSleepImpl i) s = s"
| "settings_after (SetTimeoutConfig c) s =
     (case c of None \<Rightarrow> s | Some c \<Rightarrow> s\<lparr>s_timeout_config := Some c\<rparr>)"
| "settings_after (SetRetryPartition p) s =
     (case p of None \<Rightarrow> s | Some p \<Rightarrow> s\<lparr>s_retry_partition := Some p\<rparr>)"
| "settings_after (SetIdentityCache c) s = s\<lparr>s_identity_cache := Some c\<rparr>"
| "settings_after (PushInterceptor i) s = s\<lparr>s_interceptors := s_interceptors s @ [i]\<rparr>"
| "settings_after (SetInterceptors is) s = s\<lparr>s_interceptors := is\<rparr>"
| "settings_after (SetTimeSource t) s = s"
| "settings_after (PushRetryClassifier c) s = s\<lparr>s_retry_classifiers := s_retry_classifiers s @ [c]\<rparr>"
| "settings_after (SetRetryClassifiers cs) s = s\<lparr>s_retry_classifiers := cs\<rparr>"
| "settings_after (SetAppName n) s = s\<lparr>s_app_name := n\<rparr>"
| "settings_after (PushFrameworkMetadata m) s =
     (if m \<in> set (s_framework_metadata s) then s
      else s\<lparr>s_framework_metadata := s_framework_metadata s @ [m]\<rparr>)"
| "settings_after (SetDisableClockSkewCorrection d) s = s\<lparr>s_disable_clock_skew_correction := d\<rparr>"
| "settings_after (SetInvocationIdGenerator g) s = s\<lparr>s_invocation_id_generator := g\<rparr>"
| "settings_after (SetRegion r) s = s\<lparr>s_region := r\<rparr>"
| "settings_after (SetCredentialsProvider c) s = s\<lparr>s_credentials_provider := c\<rparr>"

section \<open>The SDK as an argument\<close>

record ('b, 'c) sdk_api =
  sdk_default :: 'b
  sdk_do :: "sdk_call \<Rightarrow> 'b \<Rightarrow> 'b"
  sdk_build :: "'b \<Rightarrow> 'c"
  sdk_to_builder :: "'c \<Rightarrow> 'b"
  c_settings :: "'c \<Rightarrow> sdk_settings"
  c_sleep_impl :: "'c \<Rightarrow> sdk_object option"
  c_time_source :: "'c \<Rightarrow> sdk_object option"

definition b_settings :: "('b, 'c, 'x) sdk_api_scheme \<Rightarrow> 'b \<Rightarrow> sdk_settings" where
  "b_settings S b = c_settings S (sdk_build S b)"

definition sdk_law :: "('b, 'c, 'x) sdk_api_scheme \<Rightarrow> bool" where
  "sdk_law S \<longleftrightarrow>
     b_settings S (sdk_default S) = empty_settings
   \<and> (\<forall>k b. b_settings S (sdk_do S k b) = settings_after k (b_settings S b))
   \<and> (\<forall>c. b_settings S (sdk_to_builder S c) = c_settings S c)"

lemma sdk_lawD:
  assumes "sdk_law S"
  shows "b_settings S (sdk_default S) = empty_settings"
    and "b_settings S (sdk_do S k b) = settings_after k (b_settings S b)"
    and "b_settings S (sdk_to_builder S c) = c_settings S c"
    and "c_settings S (sdk_build S b) = b_settings S b"
  using assms by (auto simp: sdk_law_def b_settings_def)

definition record_sdk :: "(sdk_settings, sdk_settings) sdk_api" where
  "record_sdk =
     \<lparr>sdk_default = empty_settings, sdk_do = settings_after, sdk_build = id, sdk_to_builder = id,
      c_settings = id, c_sleep_impl = (\<lambda>_. None), c_time_source = (\<lambda>_. None)\<rparr>"

lemma record_sdk_law: "sdk_law record_sdk"
  by (simp add: sdk_law_def record_sdk_def b_settings_def)

end
