(* ===== verification/Config.thy ===== *)
theory Config
  imports Sdk
begin

text \<open>
  \<^verbatim>\<open>src/src/config.rs\<close> and \<^verbatim>\<open>src/src/customize.rs\<close>: the client configuration, its builder, and
  the per-operation compression override. A field of \<^verbatim>\<open>AlternatorExtensions\<close> has the prefix
  \<open>x_\<close>, a getter of \<^verbatim>\<open>AlternatorConfig\<close> the prefix \<open>config_\<close>, a fluent method of
  \<^verbatim>\<open>AlternatorBuilder\<close> the prefix \<open>builder_\<close>; a mutable setter keeps its name. \<open>None\<close> as the
  result of a setter is its panic. \<open>S\<close> is the AWS SDK (theory \<open>Sdk\<close>), \<open>U\<close> the \<^verbatim>\<open>url\<close> crate.
\<close>

section \<open>State\<close>

record alternator_extensions =
  x_request_compression :: "request_compression option"
  x_response_compression :: "response_compression option"
  x_optimize_headers :: "bool option"
  x_user_agent :: "user_agent option"
  x_credentials_provider :: "sdk_object option"
  x_require_auth :: bool
  x_allow_no_auth :: bool
  x_active_interval :: "duration option"
  x_idle_interval :: "duration option"
  x_discovery_timeout :: "duration option"
  x_routing_scope :: "routing_scope option"
  x_scheme :: "string option"
  x_port :: "u16 option"
  x_seed_hosts :: "string list option"
  x_without_discovery :: bool
  x_key_route_affinity :: "key_route_affinity_config option"
  x_stalled_stream_protection_explicitly_unset :: bool

definition default_extensions :: alternator_extensions where
  "default_extensions =
     \<lparr>x_request_compression = None, x_response_compression = None, x_optimize_headers = None, x_user_agent = None, x_credentials_provider = None, x_require_auth = False, x_allow_no_auth = False, x_active_interval = None, x_idle_interval = None, x_discovery_timeout = None, x_routing_scope = None, x_scheme = None, x_port = None, x_seed_hosts = None, x_without_discovery = False, x_key_route_affinity = None, x_stalled_stream_protection_explicitly_unset = False\<rparr>"

record 'c alternator_config =
  dynamodb_config :: 'c
  config_ext :: alternator_extensions

record 'b alternator_builder =
  dynamodb_builder :: 'b
  alternator_ext :: alternator_extensions

record operation_builder =
  o_request_compression :: "request_compression option"
  o_response_compression :: "response_compression option"

text \<open>\<open>behavior_version\<close> is \<^verbatim>\<open>BehaviorVersion::v2026_01_12()\<close>, an SDK constant named here by its date.\<close>

definition ALTERNATOR_BEHAVIOR_VERSION :: string where
  "ALTERNATOR_BEHAVIOR_VERSION = ''2026-01-12''"

definition endpoint_url :: "('u, 'x) url_api_scheme \<Rightarrow> alternator_extensions \<Rightarrow> string option" where
  "endpoint_url U x =
     (case x_seed_hosts x of
        None \<Rightarrow> None
      | Some [] \<Rightarrow> None
      | Some (seed_host # _) \<Rightarrow>
          (let scheme = (case x_scheme x of None \<Rightarrow> ''http'' | Some s \<Rightarrow> s)
           in case build_seed_url U scheme seed_host (x_port x) of
                Inl _ \<Rightarrow> None
              | Inr url \<Rightarrow> Some (as_str U url)))"

section \<open>Builders and configurations\<close>

definition builder_new :: "('b, 'c, 'x) sdk_api_scheme \<Rightarrow> 'b alternator_builder" where
  "builder_new S = \<lparr>dynamodb_builder = sdk_default S, alternator_ext = default_extensions\<rparr>"

definition config_builder :: "('b, 'c, 'x) sdk_api_scheme \<Rightarrow> 'b alternator_builder" where
  "config_builder S = builder_new S"

definition to_builder ::
  "('b, 'c, 'x) sdk_api_scheme \<Rightarrow> 'c alternator_config \<Rightarrow> 'b alternator_builder" where
  "to_builder S c =
     \<lparr>dynamodb_builder = sdk_to_builder S (dynamodb_config c), alternator_ext = config_ext c\<rparr>"

definition build ::
  "('b, 'c, 'x) sdk_api_scheme \<Rightarrow> ('u, 'y) url_api_scheme \<Rightarrow> 'b alternator_builder \<Rightarrow> 'c alternator_config" where
  "build S U b =
     (let b1 = sdk_do S (SetBehaviorVersion (Some ALTERNATOR_BEHAVIOR_VERSION)) (dynamodb_builder b);
          b2 = sdk_do S (SetEndpointUrl (endpoint_url U (alternator_ext b))) b1
      in \<lparr>dynamodb_config = sdk_build S b2, config_ext = alternator_ext b\<rparr>)"

definition operation_builder_new :: operation_builder where
  "operation_builder_new = \<lparr>o_request_compression = None, o_response_compression = None\<rparr>"

definition operation_request_compression :: "request_compression \<Rightarrow> operation_builder \<Rightarrow> operation_builder" where
  "operation_request_compression c b = b\<lparr>o_request_compression := Some c\<rparr>"

definition operation_response_compression :: "response_compression \<Rightarrow> operation_builder \<Rightarrow> operation_builder" where
  "operation_response_compression c b = b\<lparr>o_response_compression := Some c\<rparr>"

text \<open>
  \<^verbatim>\<open>alternator_config_override\<close>, on the interceptors of the SDK's \<^verbatim>\<open>CustomizableOperation\<close>.
\<close>

definition alternator_config_override ::
  "operation_builder \<Rightarrow> shared_interceptor list \<Rightarrow> shared_interceptor list" where
  "alternator_config_override config_override this =
     (let this1 = (case o_request_compression config_override of
                     None \<Rightarrow> this | Some c \<Rightarrow> this @ [RequestCompressionOverride c])
      in case o_response_compression config_override of
           None \<Rightarrow> this1 | Some c \<Rightarrow> this1 @ [ResponseCompressionOverride c])"

section \<open>Getters\<close>

definition config_optimize_headers :: "'c alternator_config \<Rightarrow> bool option" where
  "config_optimize_headers c = x_optimize_headers (config_ext c)"

definition config_user_agent :: "'c alternator_config \<Rightarrow> user_agent option" where
  "config_user_agent c = x_user_agent (config_ext c)"

definition config_request_compression :: "'c alternator_config \<Rightarrow> request_compression option" where
  "config_request_compression c = x_request_compression (config_ext c)"

definition config_response_compression :: "'c alternator_config \<Rightarrow> response_compression option" where
  "config_response_compression c = x_response_compression (config_ext c)"

definition config_credentials_provider :: "'c alternator_config \<Rightarrow> sdk_object option" where
  "config_credentials_provider c = x_credentials_provider (config_ext c)"

definition config_requires_auth :: "'c alternator_config \<Rightarrow> bool" where
  "config_requires_auth c = x_require_auth (config_ext c)"

definition config_allows_no_auth :: "'c alternator_config \<Rightarrow> bool" where
  "config_allows_no_auth c = x_allow_no_auth (config_ext c)"

definition config_active_interval :: "'c alternator_config \<Rightarrow> duration option" where
  "config_active_interval c = x_active_interval (config_ext c)"

definition config_idle_interval :: "'c alternator_config \<Rightarrow> duration option" where
  "config_idle_interval c = x_idle_interval (config_ext c)"

definition config_discovery_timeout :: "'c alternator_config \<Rightarrow> duration option" where
  "config_discovery_timeout c = x_discovery_timeout (config_ext c)"

definition config_routing_scope :: "'c alternator_config \<Rightarrow> routing_scope option" where
  "config_routing_scope c = x_routing_scope (config_ext c)"

definition config_scheme :: "'c alternator_config \<Rightarrow> string option" where
  "config_scheme c = x_scheme (config_ext c)"

definition config_port :: "'c alternator_config \<Rightarrow> u16 option" where
  "config_port c = x_port (config_ext c)"

definition config_seed_hosts :: "'c alternator_config \<Rightarrow> string list option" where
  "config_seed_hosts c = x_seed_hosts (config_ext c)"

definition config_without_discovery :: "'c alternator_config \<Rightarrow> bool" where
  "config_without_discovery c = x_without_discovery (config_ext c)"

definition config_key_route_affinity :: "'c alternator_config \<Rightarrow> key_route_affinity_config option" where
  "config_key_route_affinity c = x_key_route_affinity (config_ext c)"

definition config_endpoint_url :: "('u, 'x) url_api_scheme \<Rightarrow> 'c alternator_config \<Rightarrow> string option" where
  "config_endpoint_url U c = endpoint_url U (config_ext c)"

text \<open>The SDK passthroughs of \<^verbatim>\<open>AlternatorConfig\<close> read the SDK configuration.\<close>

definition config_stalled_stream_protection ::
  "('b, 'c, 'x) sdk_api_scheme \<Rightarrow> 'c alternator_config \<Rightarrow> sdk_object option" where
  "config_stalled_stream_protection S c = s_stalled_stream_protection (c_settings S (dynamodb_config c))"

definition config_http_client ::
  "('b, 'c, 'x) sdk_api_scheme \<Rightarrow> 'c alternator_config \<Rightarrow> http_client option" where
  "config_http_client S c = s_http_client (c_settings S (dynamodb_config c))"

definition config_retry_config ::
  "('b, 'c, 'x) sdk_api_scheme \<Rightarrow> 'c alternator_config \<Rightarrow> sdk_object option" where
  "config_retry_config S c = s_retry_config (c_settings S (dynamodb_config c))"

definition config_timeout_config ::
  "('b, 'c, 'x) sdk_api_scheme \<Rightarrow> 'c alternator_config \<Rightarrow> timeout_config option" where
  "config_timeout_config S c = s_timeout_config (c_settings S (dynamodb_config c))"

definition config_retry_partition ::
  "('b, 'c, 'x) sdk_api_scheme \<Rightarrow> 'c alternator_config \<Rightarrow> sdk_object option" where
  "config_retry_partition S c = s_retry_partition (c_settings S (dynamodb_config c))"

definition config_identity_cache ::
  "('b, 'c, 'x) sdk_api_scheme \<Rightarrow> 'c alternator_config \<Rightarrow> identity_cache option" where
  "config_identity_cache S c = s_identity_cache (c_settings S (dynamodb_config c))"

definition config_interceptors ::
  "('b, 'c, 'x) sdk_api_scheme \<Rightarrow> 'c alternator_config \<Rightarrow> shared_interceptor list" where
  "config_interceptors S c = s_interceptors (c_settings S (dynamodb_config c))"

definition config_retry_classifiers ::
  "('b, 'c, 'x) sdk_api_scheme \<Rightarrow> 'c alternator_config \<Rightarrow> sdk_object list" where
  "config_retry_classifiers S c = s_retry_classifiers (c_settings S (dynamodb_config c))"

definition config_app_name ::
  "('b, 'c, 'x) sdk_api_scheme \<Rightarrow> 'c alternator_config \<Rightarrow> string option" where
  "config_app_name S c = s_app_name (c_settings S (dynamodb_config c))"

definition config_framework_metadata ::
  "('b, 'c, 'x) sdk_api_scheme \<Rightarrow> 'c alternator_config \<Rightarrow> (string \<times> string option) list" where
  "config_framework_metadata S c = s_framework_metadata (c_settings S (dynamodb_config c))"

definition config_disable_clock_skew_correction ::
  "('b, 'c, 'x) sdk_api_scheme \<Rightarrow> 'c alternator_config \<Rightarrow> bool option" where
  "config_disable_clock_skew_correction S c = s_disable_clock_skew_correction (c_settings S (dynamodb_config c))"

definition config_invocation_id_generator ::
  "('b, 'c, 'x) sdk_api_scheme \<Rightarrow> 'c alternator_config \<Rightarrow> sdk_object option" where
  "config_invocation_id_generator S c = s_invocation_id_generator (c_settings S (dynamodb_config c))"

definition config_region ::
  "('b, 'c, 'x) sdk_api_scheme \<Rightarrow> 'c alternator_config \<Rightarrow> string option" where
  "config_region S c = s_region (c_settings S (dynamodb_config c))"

definition config_sleep_impl ::
  "('b, 'c, 'x) sdk_api_scheme \<Rightarrow> 'c alternator_config \<Rightarrow> sdk_object option" where
  "config_sleep_impl S c = c_sleep_impl S (dynamodb_config c)"

definition config_time_source ::
  "('b, 'c, 'x) sdk_api_scheme \<Rightarrow> 'c alternator_config \<Rightarrow> sdk_object option" where
  "config_time_source S c = c_time_source S (dynamodb_config c)"

section \<open>Alternator settings\<close>

definition set_optimize_headers :: "bool \<Rightarrow> 'b alternator_builder \<Rightarrow> 'b alternator_builder" where
  "set_optimize_headers v b = b\<lparr>alternator_ext := (alternator_ext b)\<lparr>x_optimize_headers := Some v\<rparr>\<rparr>"

definition builder_optimize_headers :: "bool \<Rightarrow> 'b alternator_builder \<Rightarrow> 'b alternator_builder" where
  "builder_optimize_headers v b = set_optimize_headers v b"

definition set_request_compression :: "request_compression \<Rightarrow> 'b alternator_builder \<Rightarrow> 'b alternator_builder" where
  "set_request_compression v b = b\<lparr>alternator_ext := (alternator_ext b)\<lparr>x_request_compression := Some v\<rparr>\<rparr>"

definition builder_request_compression :: "request_compression \<Rightarrow> 'b alternator_builder \<Rightarrow> 'b alternator_builder" where
  "builder_request_compression v b = set_request_compression v b"

definition set_response_compression :: "response_compression \<Rightarrow> 'b alternator_builder \<Rightarrow> 'b alternator_builder" where
  "set_response_compression v b = b\<lparr>alternator_ext := (alternator_ext b)\<lparr>x_response_compression := Some v\<rparr>\<rparr>"

definition builder_response_compression :: "response_compression \<Rightarrow> 'b alternator_builder \<Rightarrow> 'b alternator_builder" where
  "builder_response_compression v b = set_response_compression v b"

definition set_active_interval :: "duration \<Rightarrow> 'b alternator_builder \<Rightarrow> 'b alternator_builder" where
  "set_active_interval v b = b\<lparr>alternator_ext := (alternator_ext b)\<lparr>x_active_interval := Some v\<rparr>\<rparr>"

definition builder_active_interval :: "duration \<Rightarrow> 'b alternator_builder \<Rightarrow> 'b alternator_builder" where
  "builder_active_interval v b = set_active_interval v b"

definition set_idle_interval :: "duration \<Rightarrow> 'b alternator_builder \<Rightarrow> 'b alternator_builder" where
  "set_idle_interval v b = b\<lparr>alternator_ext := (alternator_ext b)\<lparr>x_idle_interval := Some v\<rparr>\<rparr>"

definition builder_idle_interval :: "duration \<Rightarrow> 'b alternator_builder \<Rightarrow> 'b alternator_builder" where
  "builder_idle_interval v b = set_idle_interval v b"

definition set_routing_scope :: "routing_scope \<Rightarrow> 'b alternator_builder \<Rightarrow> 'b alternator_builder" where
  "set_routing_scope v b = b\<lparr>alternator_ext := (alternator_ext b)\<lparr>x_routing_scope := Some v\<rparr>\<rparr>"

definition builder_routing_scope :: "routing_scope \<Rightarrow> 'b alternator_builder \<Rightarrow> 'b alternator_builder" where
  "builder_routing_scope v b = set_routing_scope v b"

definition set_port :: "u16 \<Rightarrow> 'b alternator_builder \<Rightarrow> 'b alternator_builder" where
  "set_port v b = b\<lparr>alternator_ext := (alternator_ext b)\<lparr>x_port := Some v\<rparr>\<rparr>"

definition builder_port :: "u16 \<Rightarrow> 'b alternator_builder \<Rightarrow> 'b alternator_builder" where
  "builder_port v b = set_port v b"

definition set_seed_hosts :: "string list \<Rightarrow> 'b alternator_builder \<Rightarrow> 'b alternator_builder" where
  "set_seed_hosts v b = b\<lparr>alternator_ext := (alternator_ext b)\<lparr>x_seed_hosts := Some v\<rparr>\<rparr>"

definition builder_seed_hosts :: "string list \<Rightarrow> 'b alternator_builder \<Rightarrow> 'b alternator_builder" where
  "builder_seed_hosts v b = set_seed_hosts v b"

definition set_user_agent :: "user_agent option \<Rightarrow> 'b alternator_builder \<Rightarrow> 'b alternator_builder" where
  "set_user_agent v b = b\<lparr>alternator_ext := (alternator_ext b)\<lparr>x_user_agent := v\<rparr>\<rparr>"

definition builder_user_agent :: "user_agent \<Rightarrow> 'b alternator_builder \<Rightarrow> 'b alternator_builder" where
  "builder_user_agent v b = set_user_agent (Some v) b"

definition set_without_user_agent :: "'b alternator_builder \<Rightarrow> 'b alternator_builder" where
  "set_without_user_agent b = b\<lparr>alternator_ext := (alternator_ext b)\<lparr>x_user_agent := Some UaDisabled\<rparr>\<rparr>"

definition builder_without_user_agent :: "'b alternator_builder \<Rightarrow> 'b alternator_builder" where
  "builder_without_user_agent b = set_without_user_agent b"

definition set_discovery_timeout :: "duration option \<Rightarrow> 'b alternator_builder \<Rightarrow> 'b alternator_builder" where
  "set_discovery_timeout v b = b\<lparr>alternator_ext := (alternator_ext b)\<lparr>x_discovery_timeout := v\<rparr>\<rparr>"

definition builder_discovery_timeout :: "duration \<Rightarrow> 'b alternator_builder \<Rightarrow> 'b alternator_builder" where
  "builder_discovery_timeout v b = set_discovery_timeout (Some v) b"

definition normalize_scheme :: "string \<Rightarrow> string" where
  "normalize_scheme s =
     (case strip_suffix ''://'' s of
        Some t \<Rightarrow> t
      | None \<Rightarrow> (case strip_suffix '':'' s of Some t \<Rightarrow> t | None \<Rightarrow> s))"

definition set_scheme :: "string \<Rightarrow> 'b alternator_builder \<Rightarrow> 'b alternator_builder" where
  "set_scheme s b = b\<lparr>alternator_ext := (alternator_ext b)\<lparr>x_scheme := Some (normalize_scheme s)\<rparr>\<rparr>"

definition builder_scheme :: "string \<Rightarrow> 'b alternator_builder \<Rightarrow> 'b alternator_builder" where
  "builder_scheme v b = set_scheme v b"

definition set_without_discovery :: "bool \<Rightarrow> 'b alternator_builder \<Rightarrow> 'b alternator_builder" where
  "set_without_discovery v b = b\<lparr>alternator_ext := (alternator_ext b)\<lparr>x_without_discovery := v\<rparr>\<rparr>"

definition builder_without_discovery :: "'b alternator_builder \<Rightarrow> 'b alternator_builder" where
  "builder_without_discovery b = set_without_discovery True b"

definition set_key_route_affinity :: "key_route_affinity_config \<Rightarrow> 'b alternator_builder \<Rightarrow> 'b alternator_builder" where
  "set_key_route_affinity v b = b\<lparr>alternator_ext := (alternator_ext b)\<lparr>x_key_route_affinity := Some v\<rparr>\<rparr>"

definition builder_key_route_affinity :: "key_route_affinity_config \<Rightarrow> 'b alternator_builder \<Rightarrow> 'b alternator_builder" where
  "builder_key_route_affinity v b = set_key_route_affinity v b"

definition set_credentials_provider :: "sdk_object option \<Rightarrow> 'b alternator_builder \<Rightarrow> 'b alternator_builder" where
  "set_credentials_provider v b = b\<lparr>alternator_ext := (alternator_ext b)\<lparr>x_credentials_provider := v\<rparr>\<rparr>"

definition builder_credentials_provider :: "sdk_object \<Rightarrow> 'b alternator_builder \<Rightarrow> 'b alternator_builder" where
  "builder_credentials_provider v b =
     b\<lparr>alternator_ext := (alternator_ext b)\<lparr>x_credentials_provider := Some v\<rparr>\<rparr>"

section \<open>Authentication\<close>

definition set_require_auth :: "bool \<Rightarrow> 'b alternator_builder \<Rightarrow> 'b alternator_builder option" where
  "set_require_auth require b =
     (if require \<and> x_allow_no_auth (alternator_ext b) then None
      else Some (b\<lparr>alternator_ext := (alternator_ext b)\<lparr>x_require_auth := require\<rparr>\<rparr>))"

definition builder_require_auth :: "'b alternator_builder \<Rightarrow> 'b alternator_builder option" where
  "builder_require_auth b = set_require_auth True b"

definition set_allow_no_auth ::
  "('b, 'c, 'x) sdk_api_scheme \<Rightarrow> 'b alternator_builder \<Rightarrow> 'b alternator_builder option" where
  "set_allow_no_auth S b =
     (if x_require_auth (alternator_ext b) then None
      else Some (b\<lparr>alternator_ext := (alternator_ext b)\<lparr>x_allow_no_auth := True\<rparr>,
                  dynamodb_builder := sdk_do S AllowNoAuth (dynamodb_builder b)\<rparr>))"

definition builder_allow_no_auth ::
  "('b, 'c, 'x) sdk_api_scheme \<Rightarrow> 'b alternator_builder \<Rightarrow> 'b alternator_builder option" where
  "builder_allow_no_auth S b =
     (if x_require_auth (alternator_ext b) then None
      else Some (b\<lparr>alternator_ext := (alternator_ext b)\<lparr>x_allow_no_auth := True\<rparr>,
                  dynamodb_builder := sdk_do S AllowNoAuth (dynamodb_builder b)\<rparr>))"

section \<open>SDK passthroughs\<close>

definition passthrough ::
  "('b, 'c, 'x) sdk_api_scheme \<Rightarrow> sdk_call \<Rightarrow> 'b alternator_builder \<Rightarrow> 'b alternator_builder" where
  "passthrough S k b = b\<lparr>dynamodb_builder := sdk_do S k (dynamodb_builder b)\<rparr>"

definition set_stalled_stream_protection ::
  "('b, 'c, 'x) sdk_api_scheme \<Rightarrow> sdk_object option \<Rightarrow> 'b alternator_builder \<Rightarrow> 'b alternator_builder" where
  "set_stalled_stream_protection S v b =
     passthrough S (SetStalledStreamProtection v)
       (b\<lparr>alternator_ext := (alternator_ext b)\<lparr>x_stalled_stream_protection_explicitly_unset := (v = None)\<rparr>\<rparr>)"

definition builder_stalled_stream_protection ::
  "('b, 'c, 'x) sdk_api_scheme \<Rightarrow> sdk_object \<Rightarrow> 'b alternator_builder \<Rightarrow> 'b alternator_builder" where
  "builder_stalled_stream_protection S v b = set_stalled_stream_protection S (Some v) b"

definition builder_http_client ::
  "('b, 'c, 'x) sdk_api_scheme \<Rightarrow> http_client \<Rightarrow> 'b alternator_builder \<Rightarrow> 'b alternator_builder" where
  "builder_http_client S v b = passthrough S (SetHttpClient (Some v)) b"

definition set_http_client ::
  "('b, 'c, 'x) sdk_api_scheme \<Rightarrow> http_client option \<Rightarrow> 'b alternator_builder \<Rightarrow> 'b alternator_builder" where
  "set_http_client S v b = passthrough S (SetHttpClient v) b"

definition builder_retry_config ::
  "('b, 'c, 'x) sdk_api_scheme \<Rightarrow> sdk_object \<Rightarrow> 'b alternator_builder \<Rightarrow> 'b alternator_builder" where
  "builder_retry_config S v b = passthrough S (SetRetryConfig (Some v)) b"

definition set_retry_config ::
  "('b, 'c, 'x) sdk_api_scheme \<Rightarrow> sdk_object option \<Rightarrow> 'b alternator_builder \<Rightarrow> 'b alternator_builder" where
  "set_retry_config S v b = passthrough S (SetRetryConfig v) b"

definition builder_sleep_impl ::
  "('b, 'c, 'x) sdk_api_scheme \<Rightarrow> sdk_object \<Rightarrow> 'b alternator_builder \<Rightarrow> 'b alternator_builder" where
  "builder_sleep_impl S v b = passthrough S (SetSleepImpl (Some v)) b"

definition set_sleep_impl ::
  "('b, 'c, 'x) sdk_api_scheme \<Rightarrow> sdk_object option \<Rightarrow> 'b alternator_builder \<Rightarrow> 'b alternator_builder" where
  "set_sleep_impl S v b = passthrough S (SetSleepImpl v) b"

definition builder_timeout_config ::
  "('b, 'c, 'x) sdk_api_scheme \<Rightarrow> timeout_config \<Rightarrow> 'b alternator_builder \<Rightarrow> 'b alternator_builder" where
  "builder_timeout_config S v b = passthrough S (SetTimeoutConfig (Some v)) b"

definition set_timeout_config ::
  "('b, 'c, 'x) sdk_api_scheme \<Rightarrow> timeout_config option \<Rightarrow> 'b alternator_builder \<Rightarrow> 'b alternator_builder" where
  "set_timeout_config S v b = passthrough S (SetTimeoutConfig v) b"

definition builder_retry_partition ::
  "('b, 'c, 'x) sdk_api_scheme \<Rightarrow> sdk_object \<Rightarrow> 'b alternator_builder \<Rightarrow> 'b alternator_builder" where
  "builder_retry_partition S v b = passthrough S (SetRetryPartition (Some v)) b"

definition set_retry_partition ::
  "('b, 'c, 'x) sdk_api_scheme \<Rightarrow> sdk_object option \<Rightarrow> 'b alternator_builder \<Rightarrow> 'b alternator_builder" where
  "set_retry_partition S v b = passthrough S (SetRetryPartition v) b"

definition builder_time_source ::
  "('b, 'c, 'x) sdk_api_scheme \<Rightarrow> sdk_object \<Rightarrow> 'b alternator_builder \<Rightarrow> 'b alternator_builder" where
  "builder_time_source S v b = passthrough S (SetTimeSource (Some v)) b"

definition set_time_source ::
  "('b, 'c, 'x) sdk_api_scheme \<Rightarrow> sdk_object option \<Rightarrow> 'b alternator_builder \<Rightarrow> 'b alternator_builder" where
  "set_time_source S v b = passthrough S (SetTimeSource v) b"

definition builder_app_name ::
  "('b, 'c, 'x) sdk_api_scheme \<Rightarrow> string \<Rightarrow> 'b alternator_builder \<Rightarrow> 'b alternator_builder" where
  "builder_app_name S v b = passthrough S (SetAppName (Some v)) b"

definition set_app_name ::
  "('b, 'c, 'x) sdk_api_scheme \<Rightarrow> string option \<Rightarrow> 'b alternator_builder \<Rightarrow> 'b alternator_builder" where
  "set_app_name S v b = passthrough S (SetAppName v) b"

definition builder_invocation_id_generator ::
  "('b, 'c, 'x) sdk_api_scheme \<Rightarrow> sdk_object \<Rightarrow> 'b alternator_builder \<Rightarrow> 'b alternator_builder" where
  "builder_invocation_id_generator S v b = passthrough S (SetInvocationIdGenerator (Some v)) b"

definition set_invocation_id_generator ::
  "('b, 'c, 'x) sdk_api_scheme \<Rightarrow> sdk_object option \<Rightarrow> 'b alternator_builder \<Rightarrow> 'b alternator_builder" where
  "set_invocation_id_generator S v b = passthrough S (SetInvocationIdGenerator v) b"

definition builder_disable_clock_skew_correction ::
  "('b, 'c, 'x) sdk_api_scheme \<Rightarrow> bool option \<Rightarrow> 'b alternator_builder \<Rightarrow> 'b alternator_builder" where
  "builder_disable_clock_skew_correction S v b = passthrough S (SetDisableClockSkewCorrection v) b"

definition set_disable_clock_skew_correction ::
  "('b, 'c, 'x) sdk_api_scheme \<Rightarrow> bool option \<Rightarrow> 'b alternator_builder \<Rightarrow> 'b alternator_builder" where
  "set_disable_clock_skew_correction S v b = passthrough S (SetDisableClockSkewCorrection v) b"

definition builder_region ::
  "('b, 'c, 'x) sdk_api_scheme \<Rightarrow> string option \<Rightarrow> 'b alternator_builder \<Rightarrow> 'b alternator_builder" where
  "builder_region S v b = passthrough S (SetRegion v) b"

definition set_region ::
  "('b, 'c, 'x) sdk_api_scheme \<Rightarrow> string option \<Rightarrow> 'b alternator_builder \<Rightarrow> 'b alternator_builder" where
  "set_region S v b = passthrough S (SetRegion v) b"

definition builder_identity_cache ::
  "('b, 'c, 'x) sdk_api_scheme \<Rightarrow> identity_cache \<Rightarrow> 'b alternator_builder \<Rightarrow> 'b alternator_builder" where
  "builder_identity_cache S v b = passthrough S (SetIdentityCache v) b"

definition set_identity_cache ::
  "('b, 'c, 'x) sdk_api_scheme \<Rightarrow> identity_cache \<Rightarrow> 'b alternator_builder \<Rightarrow> 'b alternator_builder" where
  "set_identity_cache S v b = passthrough S (SetIdentityCache v) b"

definition builder_interceptor ::
  "('b, 'c, 'x) sdk_api_scheme \<Rightarrow> shared_interceptor \<Rightarrow> 'b alternator_builder \<Rightarrow> 'b alternator_builder" where
  "builder_interceptor S v b = passthrough S (PushInterceptor v) b"

definition push_interceptor ::
  "('b, 'c, 'x) sdk_api_scheme \<Rightarrow> shared_interceptor \<Rightarrow> 'b alternator_builder \<Rightarrow> 'b alternator_builder" where
  "push_interceptor S v b = passthrough S (PushInterceptor v) b"

definition builder_retry_classifier ::
  "('b, 'c, 'x) sdk_api_scheme \<Rightarrow> sdk_object \<Rightarrow> 'b alternator_builder \<Rightarrow> 'b alternator_builder" where
  "builder_retry_classifier S v b = passthrough S (PushRetryClassifier v) b"

definition push_retry_classifier ::
  "('b, 'c, 'x) sdk_api_scheme \<Rightarrow> sdk_object \<Rightarrow> 'b alternator_builder \<Rightarrow> 'b alternator_builder" where
  "push_retry_classifier S v b = passthrough S (PushRetryClassifier v) b"

definition builder_framework_metadata ::
  "('b, 'c, 'x) sdk_api_scheme \<Rightarrow> string \<times> string option \<Rightarrow> 'b alternator_builder \<Rightarrow> 'b alternator_builder" where
  "builder_framework_metadata S v b = passthrough S (PushFrameworkMetadata v) b"

definition push_framework_metadata ::
  "('b, 'c, 'x) sdk_api_scheme \<Rightarrow> string \<times> string option \<Rightarrow> 'b alternator_builder \<Rightarrow> 'b alternator_builder" where
  "push_framework_metadata S v b = passthrough S (PushFrameworkMetadata v) b"

definition set_interceptors ::
  "('b, 'c, 'x) sdk_api_scheme \<Rightarrow> shared_interceptor list \<Rightarrow> 'b alternator_builder \<Rightarrow> 'b alternator_builder" where
  "set_interceptors S v b = passthrough S (SetInterceptors v) b"

definition set_retry_classifiers ::
  "('b, 'c, 'x) sdk_api_scheme \<Rightarrow> sdk_object list \<Rightarrow> 'b alternator_builder \<Rightarrow> 'b alternator_builder" where
  "set_retry_classifiers S v b = passthrough S (SetRetryClassifiers v) b"

definition builder_emit_input_attributes ::
  "('b, 'c, 'x) sdk_api_scheme \<Rightarrow> string list \<Rightarrow> 'b alternator_builder \<Rightarrow> 'b alternator_builder" where
  "builder_emit_input_attributes S v b = passthrough S (EmitInputAttributes v) b"

definition builder_capture_input_attributes ::
  "('b, 'c, 'x) sdk_api_scheme \<Rightarrow> string list \<Rightarrow> 'b alternator_builder \<Rightarrow> 'b alternator_builder" where
  "builder_capture_input_attributes S v b = passthrough S (CaptureInputAttributes v) b"

end
