(* ===== verification/Live_Nodes_Build.thy ===== *)
theory Live_Nodes_Build
  imports Config
begin

text \<open>
  \<^verbatim>\<open>LiveNodes::try_new\<close> of \<^verbatim>\<open>src/src/live_nodes.rs\<close>: from a configuration to the initial
  discovery state, or to the error that refuses it. \<open>env\<close> is the host's TLS environment
  (theory \<open>Discovery_Http\<close>), \<open>now\<close> the clock.
\<close>

section \<open>Definitions\<close>

definition build_discovery_http_client ::
  "('b, 'c, 'x) sdk_api_scheme \<Rightarrow> 'y host_env_scheme \<Rightarrow> 'c alternator_config \<Rightarrow> string \<Rightarrow>
   live_nodes_build_error + discovery_http_client \<times> bool" where
  "build_discovery_http_client S env config scheme =
     (case config_http_client S config of
        Some http_client \<Rightarrow>
          Inr (Smithy http_client (config_sleep_impl S config) (config_time_source S config), False)
      | None \<Rightarrow> build_default_discovery_http_client env scheme
          (case config_discovery_timeout config of
             None \<Rightarrow> DISCOVERY_HTTP_OPERATION_TIMEOUT | Some t \<Rightarrow> t))"

fun collect_seed_urls ::
  "('u, 'x) url_api_scheme \<Rightarrow> string \<Rightarrow> u16 option \<Rightarrow> string list \<Rightarrow> live_nodes_build_error + 'u list" where
  "collect_seed_urls U scheme port [] = Inr []"
| "collect_seed_urls U scheme port (seed_host # rest) =
     (case build_seed_url U scheme seed_host port of
        Inl source \<Rightarrow> Inl (InvalidSeedHost seed_host source)
      | Inr url \<Rightarrow>
          (case collect_seed_urls U scheme port rest of
             Inl e \<Rightarrow> Inl e | Inr urls \<Rightarrow> Inr (url # urls)))"

definition is_http :: "string \<Rightarrow> bool" where
  "is_http scheme \<longleftrightarrow> eq_ignore_ascii_case scheme ''http''"

definition is_https :: "string \<Rightarrow> bool" where
  "is_https scheme \<longleftrightarrow> eq_ignore_ascii_case scheme ''https''"

definition scheme_or_http :: "'c alternator_config \<Rightarrow> string" where
  "scheme_or_http config = (case config_scheme config of None \<Rightarrow> ''http'' | Some s \<Rightarrow> s)"

text \<open>The last part of \<^verbatim>\<open>try_new\<close>, once the seed URLs are there.\<close>

definition build_live_nodes ::
  "('b, 'c, 'x) sdk_api_scheme \<Rightarrow> ('u, 'z) url_api_scheme \<Rightarrow> 'y host_env_scheme \<Rightarrow> instant \<Rightarrow>
   'c alternator_config \<Rightarrow> 'u list \<Rightarrow> live_nodes_build_error + 'u live_state" where
  "build_live_nodes S U env now config urls =
     (let active_interval = (case config_active_interval config of
            None \<Rightarrow> DEFAULT_ACTIVE_REFRESH_INTERVAL | Some t \<Rightarrow> t);
          idle_interval = (case config_idle_interval config of
            None \<Rightarrow> DEFAULT_IDLE_REFRESH_INTERVAL | Some t \<Rightarrow> t);
          routing_scope = (case config_routing_scope config of None \<Rightarrow> from_cluster | Some s \<Rightarrow> s);
          seed_urls = sort_key (as_str U) urls
      in case build_discovery_http_client S env config (url_scheme U (hd seed_urls)) of
           Inl e \<Rightarrow> Inl e
         | Inr (client, usable) \<Rightarrow>
             Inr \<lparr>ordinary_view = view_new routing_scope seed_urls, affinity_nodes = None,
                  manager = Some (new_manager
                    \<lparr>inputs_timeout = config_discovery_timeout config, seed_urls = seed_urls,
                     alternator_scheme = scheme_or_http config, inputs_port = config_port config,
                     discovery_client = client, native_roots_usable = usable\<rparr>
                    active_interval idle_interval now)\<rparr>)"

definition try_new ::
  "('b, 'c, 'x) sdk_api_scheme \<Rightarrow> ('u, 'z) url_api_scheme \<Rightarrow> 'y host_env_scheme \<Rightarrow> instant \<Rightarrow>
   'c alternator_config \<Rightarrow> live_nodes_build_error + 'u live_state option" where
  "try_new S U env now config =
     (let scheme = scheme_or_http config; port = config_port config
      in case config_seed_hosts config of
           None \<Rightarrow> Inl MissingRoutingTarget
         | Some [] \<Rightarrow> Inl MissingRoutingTarget
         | Some (first_seed # seeds) \<Rightarrow>
             if config_without_discovery config
             then if \<not> is_valid_uri_scheme scheme
                     \<or> (config_http_client S config = None \<and> \<not> is_http scheme \<and> \<not> is_https scheme)
                  then Inl (InvalidScheme scheme)
                  else case build_seed_url U scheme first_seed port of
                      Inl source \<Rightarrow> Inl (InvalidSeedHost first_seed source)
                    | Inr _ \<Rightarrow> Inr None
             else if \<not> is_http scheme \<and> \<not> is_https scheme then Inl (InvalidScheme scheme)
             else case collect_seed_urls U scheme port (first_seed # seeds) of
                 Inl e \<Rightarrow> Inl e
               | Inr urls \<Rightarrow>
                   (case build_live_nodes S U env now config urls of
                      Inl e \<Rightarrow> Inl e | Inr nodes \<Rightarrow> Inr (Some nodes)))"

definition has_usable_native_roots :: "'u live_state \<Rightarrow> bool" where
  "has_usable_native_roots st =
     (case manager st of None \<Rightarrow> False | Some m \<Rightarrow> native_roots_usable (m_inputs m))"

text \<open>\<^verbatim>\<open>LiveNodes::tasks\<close>; a handle of a client has its manager.\<close>

definition tasks :: "'u live_state \<Rightarrow> discovery_tasks option" where
  "tasks st = map_option m_tasks (manager st)"

text \<open>
  The network of a discovery loop: the \<open>n\<close>-th request of a refresh, unless \<open>tokio::time::timeout\<close>
  elapsed first.
\<close>

definition discovery_network ::
  "('u, 'x) discovery_transport_scheme \<Rightarrow> ('u, 'y) url_api_scheme \<Rightarrow> 'u discovery_inputs \<Rightarrow>
   (nat \<Rightarrow> 'u \<Rightarrow> bool) \<Rightarrow> 'u network" where
  "discovery_network T U inp elapsed n url =
     (let request_timeout = (case inputs_timeout inp of
            None \<Rightarrow> DISCOVERY_HTTP_OPERATION_TIMEOUT | Some t \<Rightarrow> t)
      in if elapsed n url then None
         else client_get_live_nodes T U ALTERNATOR_BEHAVIOR_VERSION (discovery_client inp) url request_timeout)"

section \<open>Facts\<close>

lemma collect_seed_urls_Inr:
  "collect_seed_urls U scheme port hosts = Inr urls \<longleftrightarrow>
     list_all2 (\<lambda>h u. build_seed_url U scheme h port = Inr u) hosts urls"
proof (induction hosts arbitrary: urls)
  case (Cons h hosts)
  show ?case
    by (cases "build_seed_url U scheme h port"; cases "collect_seed_urls U scheme port hosts"; cases urls)
      (simp_all add: Cons.IH [symmetric])
qed auto

lemma collect_seed_urls_Inl:
  "collect_seed_urls U scheme port hosts = Inl e \<longleftrightarrow>
     (\<exists>pre h post err. hosts = pre @ h # post \<and> build_seed_url U scheme h port = Inl err
        \<and> e = InvalidSeedHost h err \<and> (\<forall>x \<in> set pre. \<exists>u. build_seed_url U scheme x port = Inr u))"
proof (induction hosts)
  case (Cons x hosts)
  show ?case
  proof (cases "build_seed_url U scheme x port")
    case (Inl err)
    have "e = InvalidSeedHost x err"
      if "x # hosts = pre @ h # post" "build_seed_url U scheme h port = Inl er" "e = InvalidSeedHost h er"
        "\<forall>y \<in> set pre. \<exists>u. build_seed_url U scheme y port = Inr u" for pre h post er
      using that Inl by (cases pre) auto
    moreover have "collect_seed_urls U scheme port (x # hosts) = Inl e \<longleftrightarrow> e = InvalidSeedHost x err"
      using Inl by auto
    ultimately show ?thesis using Inl by (metis append_Nil empty_iff list.set(1))
  next
    case (Inr u)
    have "collect_seed_urls U scheme port (x # hosts) = Inl e \<longleftrightarrow> collect_seed_urls U scheme port hosts = Inl e"
      using Inr by (auto split: sum.splits)
    moreover have "(\<exists>pre h post err. x # hosts = pre @ h # post \<and> build_seed_url U scheme h port = Inl err
        \<and> e = InvalidSeedHost h err \<and> (\<forall>x \<in> set pre. \<exists>u. build_seed_url U scheme x port = Inr u)) \<longleftrightarrow>
      (\<exists>pre h post err. hosts = pre @ h # post \<and> build_seed_url U scheme h port = Inl err
        \<and> e = InvalidSeedHost h err \<and> (\<forall>x \<in> set pre. \<exists>u. build_seed_url U scheme x port = Inr u))"
      (is "?l \<longleftrightarrow> ?r")
    proof
      assume ?l
      then obtain pre h post err where l: "x # hosts = pre @ h # post" "build_seed_url U scheme h port = Inl err"
        "e = InvalidSeedHost h err" "\<forall>x \<in> set pre. \<exists>u. build_seed_url U scheme x port = Inr u" by blast
      with Inr obtain pre' where "pre = x # pre'" by (cases pre) auto
      with l show ?r by auto
    next
      assume ?r
      then obtain pre h post err where r: "hosts = pre @ h # post" "build_seed_url U scheme h port = Inl err"
        "e = InvalidSeedHost h err" "\<forall>x \<in> set pre. \<exists>u. build_seed_url U scheme x port = Inr u" by blast
      with Inr show ?l by (intro exI [of _ "x # pre"]) auto
    qed
    ultimately show ?thesis using Cons.IH by simp
  qed
qed simp

lemma build_live_nodes_Inr:
  assumes "build_live_nodes S U env now config urls = Inr st"
  obtains client usable where
    "build_discovery_http_client S env config (url_scheme U (hd (sort_key (as_str U) urls))) = Inr (client, usable)"
    and "ordinary_view st = view_new (case config_routing_scope config of None \<Rightarrow> from_cluster | Some s \<Rightarrow> s)
           (sort_key (as_str U) urls)"
    and "\<exists>active idle. manager st = Some (new_manager
           \<lparr>inputs_timeout = config_discovery_timeout config, seed_urls = sort_key (as_str U) urls,
            alternator_scheme = scheme_or_http config, inputs_port = config_port config,
            discovery_client = client, native_roots_usable = usable\<rparr> active idle now)"
  using assms unfolding build_live_nodes_def Let_def
  by (simp split: sum.splits prod.splits) (metis live_state.select_convs(1,3))

text \<open>Which schemes are refused, and which seed hosts are looked at.\<close>

definition scheme_refused :: "('b, 'c, 'x) sdk_api_scheme \<Rightarrow> 'c alternator_config \<Rightarrow> bool" where
  "scheme_refused S config \<longleftrightarrow>
     (if config_without_discovery config
      then \<not> is_valid_uri_scheme (scheme_or_http config)
        \<or> config_http_client S config = None
          \<and> \<not> is_http (scheme_or_http config) \<and> \<not> is_https (scheme_or_http config)
      else \<not> is_http (scheme_or_http config) \<and> \<not> is_https (scheme_or_http config))"

lemma build_client_errors:
  "build_discovery_http_client S env config scheme = Inl e \<Longrightarrow>
     (\<exists>m. e = TlsConfiguration m) \<or> (\<exists>m. e = HttpClientError m)"
  by (auto simp: build_discovery_http_client_def build_default_discovery_http_client_def
      discovery_http_client_builder_with_root_status_def Let_def
      split: option.splits sum.splits prod.splits if_splits)

lemma build_live_nodes_errors:
  "build_live_nodes S U env now config urls = Inl e \<Longrightarrow>
     (\<exists>m. e = TlsConfiguration m) \<or> (\<exists>m. e = HttpClientError m)"
  unfolding build_live_nodes_def Let_def
  by (rule build_client_errors) (simp split: sum.splits prod.splits)

definition probed_seeds :: "'c alternator_config \<Rightarrow> string list" where
  "probed_seeds config =
     (case config_seed_hosts config of
        None \<Rightarrow> [] | Some hosts \<Rightarrow> if config_without_discovery config then take 1 hosts else hosts)"

lemma try_new_cases:
  "try_new S U env now config =
     (if config_seed_hosts config = None \<or> config_seed_hosts config = Some [] then Inl MissingRoutingTarget
      else if scheme_refused S config then Inl (InvalidScheme (scheme_or_http config))
      else case collect_seed_urls U (scheme_or_http config) (config_port config) (probed_seeds config) of
          Inl e \<Rightarrow> Inl e
        | Inr urls \<Rightarrow>
            if config_without_discovery config then Inr None
            else (case build_live_nodes S U env now config urls of Inl e \<Rightarrow> Inl e | Inr nodes \<Rightarrow> Inr (Some nodes)))"
  by (cases "config_without_discovery config")
    (simp_all add: try_new_def scheme_refused_def probed_seeds_def Let_def split: option.split list.split sum.split)

text \<open>
  a discovering client starts from its seeds. When construction gives discovery state, the
  first membership consists of the URLs of all configured seed hosts, as many times as they are
  listed, in URL order, none of them missing, and is not empty; the scope is the configured one
  or the whole cluster; nothing is running yet, and every request of the discovery client is
  bounded: its connection deadline is at most two seconds and at most its request deadline.
\<close>

theorem discovery_starts_from_seeds:
  assumes "try_new S U env now config = Inr (Some st)"
  shows "\<exists>hosts. config_seed_hosts config = Some hosts
      \<and> image_mset Inr (mset (live_nodes (ordinary_view st))) =
        image_mset (\<lambda>h. build_seed_url U (scheme_or_http config) h (config_port config)) (mset hosts)
      \<and> live_nodes (ordinary_view st) \<noteq> []
      \<and> sorted (map (as_str U) (live_nodes (ordinary_view st)))
      \<and> view_scope (ordinary_view st) = (case config_routing_scope config of None \<Rightarrow> from_cluster | Some s \<Rightarrow> s)
      \<and> (\<exists>m. manager st = Some m \<and> tracked (m_tasks m) = {} \<and> discovery_runtime m = None
           \<and> (case discovery_client (m_inputs m) of
                Reqwest rc \<Rightarrow> \<exists>t k. rq_timeout rc = Some t \<and> rq_connect_timeout rc = Some k \<and> k \<le> secs 2 \<and> k \<le> t
              | Smithy h sl ts \<Rightarrow> config_http_client S config = Some h))"
proof -
  from assms obtain hosts urls where h: "config_seed_hosts config = Some hosts" "hosts \<noteq> []"
    and coll: "collect_seed_urls U (scheme_or_http config) (config_port config) hosts = Inr urls"
    and b: "build_live_nodes S U env now config urls = Inr st"
    unfolding try_new_cases
    by (auto simp: probed_seeds_def split: if_splits sum.splits option.splits)
  from b obtain client usable active idle where
    client: "build_discovery_http_client S env config (url_scheme U (hd (sort_key (as_str U) urls))) = Inr (client, usable)"
    and view: "ordinary_view st = view_new (case config_routing_scope config of None \<Rightarrow> from_cluster | Some s \<Rightarrow> s)
           (sort_key (as_str U) urls)"
    and m: "manager st = Some (new_manager
           \<lparr>inputs_timeout = config_discovery_timeout config, seed_urls = sort_key (as_str U) urls,
            alternator_scheme = scheme_or_http config, inputs_port = config_port config,
            discovery_client = client, native_roots_usable = usable\<rparr> active idle now)"
    by (elim build_live_nodes_Inr) blast
  from coll have urls: "list_all2 (\<lambda>h u. build_seed_url U (scheme_or_http config) h (config_port config) = Inr u) hosts urls"
    by (simp add: collect_seed_urls_Inr)
  then have "map Inr urls = map (\<lambda>h. build_seed_url U (scheme_or_http config) h (config_port config)) hosts"
    by (induction rule: list_all2_induct) auto
  then have ms: "image_mset Inr (mset urls) =
      image_mset (\<lambda>h. build_seed_url U (scheme_or_http config) h (config_port config)) (mset hosts)"
    by (metis mset_map)
  have "urls \<noteq> []" using urls h(2) by auto
  then have ne: "sort_key (as_str U) urls \<noteq> []"
    by (metis length_sort length_0_conv)
  have bounded: "case client of
      Reqwest rc \<Rightarrow> \<exists>t k. rq_timeout rc = Some t \<and> rq_connect_timeout rc = Some k \<and> k \<le> secs 2 \<and> k \<le> t
    | Smithy h sl ts \<Rightarrow> config_http_client S config = Some h"
    using client by (auto simp: build_discovery_http_client_def build_default_discovery_http_client_def
        split: option.splits sum.splits prod.splits)
  show ?thesis
    using h(1) ms ne bounded
    by (simp add: view m view_new_def new_manager_def new_tasks_def sorted_sort_key)
qed

text \<open>
  C35: how routing configuration is refused. Without a seed host nothing is built. Then the scheme
  decides: discovery takes \<^verbatim>\<open>http\<close> and \<^verbatim>\<open>https\<close> only, direct routing with a custom HTTP client any
  valid URI scheme. Then the seeds decide, in order: the first one that is no usable authority
  is reported, with the parser's error; direct routing looks at the first seed only.
\<close>

theorem routing_refused:
  "(try_new S U env now config = Inl MissingRoutingTarget
      \<longleftrightarrow> config_seed_hosts config = None \<or> config_seed_hosts config = Some [])
   \<and> (try_new S U env now config = Inl (InvalidScheme s)
      \<longleftrightarrow> (\<exists>h hs. config_seed_hosts config = Some (h # hs)) \<and> scheme_refused S config \<and> s = scheme_or_http config)
   \<and> (try_new S U env now config = Inl (InvalidSeedHost h err)
      \<longleftrightarrow> \<not> scheme_refused S config
        \<and> (\<exists>pre post. config_seed_hosts config = Some (pre @ h # post)
            \<and> (config_without_discovery config \<longrightarrow> pre = [])
            \<and> build_seed_url U (scheme_or_http config) h (config_port config) = Inl err
            \<and> (\<forall>x \<in> set pre. \<exists>u. build_seed_url U (scheme_or_http config) x (config_port config) = Inr u)))"
proof -
  let ?collect = "collect_seed_urls U (scheme_or_http config) (config_port config) (probed_seeds config)"
  have seed: "?collect = Inl (InvalidSeedHost h err) \<longleftrightarrow>
      (\<exists>pre post. config_seed_hosts config = Some (pre @ h # post)
        \<and> (config_without_discovery config \<longrightarrow> pre = [])
        \<and> build_seed_url U (scheme_or_http config) h (config_port config) = Inl err
        \<and> (\<forall>x \<in> set pre. \<exists>u. build_seed_url U (scheme_or_http config) x (config_port config) = Inr u))"
  proof (cases "config_seed_hosts config")
    case (Some hosts)
    then show ?thesis
      unfolding collect_seed_urls_Inl
      by (cases hosts) (auto simp: probed_seeds_def Cons_eq_append_conv)
  qed (simp add: probed_seeds_def)
  have late: "e \<noteq> MissingRoutingTarget \<and> e \<noteq> InvalidScheme s \<and> e \<noteq> InvalidSeedHost h err"
    if "build_live_nodes S U env now config urls = Inl e" for e urls
    using build_live_nodes_errors [OF that] by auto
  have mid: "\<exists>x er. e = InvalidSeedHost x er" if "?collect = Inl e" for e
    using that unfolding collect_seed_urls_Inl by blast
  have seeds: "config_seed_hosts config \<noteq> None \<and> config_seed_hosts config \<noteq> Some [] \<longleftrightarrow>
      (\<exists>h hs. config_seed_hosts config = Some (h # hs))"
    by (metis list.exhaust not_Some_eq option.inject list.distinct(1))
  show ?thesis
  proof (cases "config_seed_hosts config = None \<or> config_seed_hosts config = Some []")
    case True
    then show ?thesis by (auto simp: try_new_cases)
  next
    case False
    then show ?thesis
      using late mid seed seeds
      by (cases ?collect) (fastforce simp: try_new_cases split: sum.splits if_splits)+
  qed
qed

definition example_env :: host_env where
  "example_env = \<lparr>certs = [], cert_errors = [], rejects = (\<lambda>_. None), protocol_error = None, reqwest_error = None\<rparr>"

definition example_config :: "sdk_settings alternator_config" where
  "example_config = build record_sdk text_url (set_seed_hosts [''b'', ''a''] (builder_new record_sdk))"

lemma example_config_settings:
  "config_seed_hosts example_config = Some [''b'', ''a'']" "scheme_or_http example_config = ''http''"
  "config_port example_config = None" "\<not> config_without_discovery example_config"
  "config_http_client record_sdk example_config = None" "config_discovery_timeout example_config = None"
  "config_key_route_affinity example_config = None" "config_credentials_provider example_config = None"
  "\<not> config_requires_auth example_config" "\<not> config_allows_no_auth example_config"
  "config_region record_sdk example_config = None"
  by (simp_all add: example_config_def build_def set_seed_hosts_def builder_new_def default_extensions_def
      record_sdk_def empty_settings_def config_seed_hosts_def scheme_or_http_def config_scheme_def config_port_def
      config_without_discovery_def config_http_client_def config_discovery_timeout_def
      config_key_route_affinity_def config_credentials_provider_def config_requires_auth_def
      config_allows_no_auth_def config_region_def)

lemma two_seeds_try_new:
  assumes "config_seed_hosts config = Some [''b'', ''a'']" and "scheme_or_http config = ''http''"
    and "config_port config = None" and "\<not> config_without_discovery config"
    and "config_http_client record_sdk config = None"
  shows "\<exists>st. try_new record_sdk text_url example_env 0 config = Inr (Some st)"
proof -
  have "build_seed_url text_url ''http'' ''a'' None = Inr ''http://a''"
    "build_seed_url text_url ''http'' ''b'' None = Inr ''http://b''"
    by code_simp+
  moreover have "is_http ''http''" by code_simp
  moreover have "\<not> eq_ignore_ascii_case ''http'' ''https''" by code_simp
  ultimately show ?thesis
    by (simp add: try_new_cases assms scheme_refused_def probed_seeds_def
        build_live_nodes_def build_discovery_http_client_def build_default_discovery_http_client_def
        discovery_http_client_builder_with_root_status_def load_native_root_store_def example_env_def
        text_url_def Let_def)
qed

lemmas example_try_new = two_seeds_try_new [OF example_config_settings(1-5)]

theorem discovery_starts_from_seeds_witness:
  "\<exists>st. try_new record_sdk text_url example_env 0 example_config = Inr (Some st)
    \<and> sorted (live_nodes (ordinary_view st)) \<and> live_nodes (ordinary_view st) \<noteq> []"
proof -
  obtain st where st: "try_new record_sdk text_url example_env 0 example_config = Inr (Some st)"
    using example_try_new by blast
  from discovery_starts_from_seeds [OF st] have "sorted (live_nodes (ordinary_view st))" "live_nodes (ordinary_view st) \<noteq> []"
    by (auto simp: text_url_def)
  with st show ?thesis by blast
qed

text \<open>A seed list whose second host is no host (it has a port of its own) is refused with that host.\<close>

definition strict_url :: "string url_api" where
  "strict_url = text_url\<lparr>host_parse := (\<lambda>s. if CHR '':'' \<in> set s then Some (OtherUrlError s) else None)\<rparr>"

theorem routing_refused_witness:
  "try_new record_sdk strict_url example_env 0
     (build record_sdk strict_url (set_seed_hosts [''a'', ''b:1''] (builder_new record_sdk)))
   = Inl (InvalidSeedHost ''b:1'' (OtherUrlError ''b:1''))"
proof -
  let ?config = "build record_sdk strict_url (set_seed_hosts [''a'', ''b:1''] (builder_new record_sdk))"
  have get: "config_seed_hosts ?config = Some ([''a''] @ ''b:1'' # [])" "scheme_or_http ?config = ''http''"
    "config_port ?config = None" "\<not> config_without_discovery ?config"
    by (simp_all add: build_def set_seed_hosts_def builder_new_def default_extensions_def
        record_sdk_def config_seed_hosts_def scheme_or_http_def config_scheme_def config_port_def
        config_without_discovery_def)
  have seeds: "build_seed_url strict_url ''http'' ''a'' None = Inr ''http://a''"
    "build_seed_url strict_url ''http'' ''b:1'' None = Inl (OtherUrlError ''b:1'')" by code_simp+
  have sch: "is_http ''http''" by code_simp
  have "\<not> scheme_refused record_sdk ?config" by (simp add: get scheme_refused_def sch)
  moreover have "\<forall>x \<in> set [''a'']. \<exists>u. build_seed_url strict_url (scheme_or_http ?config) x (config_port ?config) = Inr u"
    by (simp add: get seeds)
  ultimately show ?thesis
    using routing_refused [of record_sdk strict_url example_env 0 ?config "''b:1''" "''b:1''" "OtherUrlError ''b:1''"]
      get(1,4) seeds(2) [folded get(2,3)] by blast
qed

end
