(* ===== verification/Sdk_Validation.thy ===== *)
theory Sdk_Validation
  imports Sdk
begin

text \<open>
  The validation adapters of \<^verbatim>\<open>src/src/client.rs\<close> (\<^verbatim>\<open>SdkConfigValidation\<close>,
  \<^verbatim>\<open>UnvalidatedHttpClient\<close>, \<^verbatim>\<open>UnvalidatedIdentityCache\<close>, \<^verbatim>\<open>ValidatedIdentityCache\<close>) and
  \<^verbatim>\<open>try_dynamodb_client_from_conf\<close>. Of the SDK's runtime components the two that the adapters
  replace are kept; how the SDK validates components is the argument \<open>V\<close>, and what it documents
  of that is \<open>validation_law\<close>.
\<close>

section \<open>Components\<close>

record runtime_components =
  rc_http_client :: "http_client option"
  rc_identity_cache :: "identity_cache option"

type_synonym validator = "runtime_components \<Rightarrow> string option"

text \<open>
  Final validation runs hooks of components until one fails. To say which hooks ran it is modelled
  with its trace: the hook of an HTTP client, that of an identity cache, and the groups of hooks of
  all other components, which the adapters do not touch.
\<close>

datatype hook = HttpClientHook http_client | IdentityCacheHook identity_cache | OtherHooks nat

type_synonym validation = "hook list \<times> string option"
type_synonym final_validator = "runtime_components \<Rightarrow> validation"

definition and_then :: "validation \<Rightarrow> validation \<Rightarrow> validation" where
  "and_then a b = (case snd a of None \<Rightarrow> (fst a @ fst b, snd b) | Some e \<Rightarrow> a)"

definition first_error :: "string option \<Rightarrow> string option \<Rightarrow> string option" where
  "first_error a b = (case a of None \<Rightarrow> b | Some e \<Rightarrow> Some e)"

section \<open>The adapters\<close>

definition restore_base_components ::
  "http_client \<Rightarrow> identity_cache \<Rightarrow> runtime_components \<Rightarrow> runtime_components" where
  "restore_base_components original_http original_cache rc =
     rc\<lparr>rc_http_client := Some original_http, rc_identity_cache := Some original_cache\<rparr>"

definition validate_http_final_config ::
  "final_validator \<Rightarrow> http_client \<Rightarrow> runtime_components \<Rightarrow> validation" where
  "validate_http_final_config V original_http rc =
     V (rc\<lparr>rc_http_client := Some original_http,
           rc_identity_cache := map_option UnvalidatedIdentityCache (rc_identity_cache rc)\<rparr>)"

definition validate_identity_cache_final_config ::
  "final_validator \<Rightarrow> identity_cache \<Rightarrow> runtime_components \<Rightarrow> validation" where
  "validate_identity_cache_final_config V original_cache rc =
     V (rc\<lparr>rc_http_client := map_option UnvalidatedHttpClient (rc_http_client rc),
           rc_identity_cache := Some original_cache\<rparr>)"

text \<open>
  The \<^verbatim>\<open>validate_base_client_config\<close> hook of the HTTP adapter: the error goes into the
  \<^verbatim>\<open>OnceLock\<close> (first one wins) and the SDK sees success.
\<close>

fun http_validate_base ::
  "validator \<Rightarrow> (http_client \<Rightarrow> runtime_components \<Rightarrow> string option) \<Rightarrow> http_client \<Rightarrow>
   runtime_components \<Rightarrow> string option \<Rightarrow> string option \<times> string option" where
  "http_validate_base V own (SdkConfigValidation h c) rc recorded =
     (None, first_error recorded (V (restore_base_components h c rc)))"
| "http_validate_base V own (UnvalidatedHttpClient _) rc recorded = (None, recorded)"
| "http_validate_base V own h rc recorded = (own h rc, recorded)"

text \<open>
  The \<^verbatim>\<open>validate_final_config\<close> hooks; \<open>own\<close> is the hook of an object from outside the driver. The
  two disarmed adapters have the empty hook of their trait.
\<close>

fun http_validate_final ::
  "final_validator \<Rightarrow> (http_client \<Rightarrow> runtime_components \<Rightarrow> string option) \<Rightarrow> http_client \<Rightarrow>
   runtime_components \<Rightarrow> validation" where
  "http_validate_final V own (SdkConfigValidation h c) rc = validate_http_final_config V h rc"
| "http_validate_final V own (UnvalidatedHttpClient _) rc = ([], None)"
| "http_validate_final V own h rc = ([HttpClientHook h], own h rc)"

fun cache_validate_final ::
  "final_validator \<Rightarrow> (identity_cache \<Rightarrow> runtime_components \<Rightarrow> string option) \<Rightarrow> identity_cache \<Rightarrow>
   runtime_components \<Rightarrow> validation" where
  "cache_validate_final V own (ValidatedIdentityCache h c) rc = validate_identity_cache_final_config V c rc"
| "cache_validate_final V own (UnvalidatedIdentityCache _) rc = ([], None)"
| "cache_validate_final V own c rc = ([IdentityCacheHook c], own c rc)"

text \<open>
  Connectors, metadata and identities go through the adapters to the object inside:
  \<open>serving_http\<close> and \<open>serving_cache\<close> are the objects that serve a request.
\<close>

fun serving_http :: "http_client \<Rightarrow> http_client" where
  "serving_http (SdkConfigValidation h c) = serving_http h"
| "serving_http (UnvalidatedHttpClient h) = serving_http h"
| "serving_http h = h"

fun serving_cache :: "identity_cache \<Rightarrow> identity_cache" where
  "serving_cache (ValidatedIdentityCache h c) = serving_cache c"
| "serving_cache (UnvalidatedIdentityCache c) = serving_cache c"
| "serving_cache c = c"

section \<open>\<^verbatim>\<open>try_dynamodb_client_from_conf\<close>\<close>

datatype client_build_error =
    SdkConfiguration string
  | TlsConfigurationError string
  | DiscoveryConfiguration string
  | LiveNodesError live_nodes_build_error

fun display_client_build_error ::
  "(string \<Rightarrow> string) \<Rightarrow> (url_error \<Rightarrow> string) \<Rightarrow> client_build_error \<Rightarrow> string" where
  "display_client_build_error dbg show_url_error (SdkConfiguration message) =
     ''failed to configure AWS SDK client: '' @ message"
| "display_client_build_error dbg show_url_error (TlsConfigurationError message) =
     ''failed to configure SDK TLS: '' @ message"
| "display_client_build_error dbg show_url_error (DiscoveryConfiguration message) =
     ''failed to configure Alternator discovery: '' @ message"
| "display_client_build_error dbg show_url_error (LiveNodesError source) =
     ''failed to configure Alternator routing: '' @ display_live_nodes_error dbg show_url_error source"

fun client_build_error_source :: "client_build_error \<Rightarrow> live_nodes_build_error option" where
  "client_build_error_source (SdkConfiguration _) = None"
| "client_build_error_source (TlsConfigurationError _) = None"
| "client_build_error_source (DiscoveryConfiguration _) = None"
| "client_build_error_source (LiveNodesError source) = Some source"

text \<open>
  A client of the SDK is its configuration. \<open>VB cfg\<close> is the SDK's validation of the base
  components that go with the configuration \<open>cfg\<close>; the constructor runs it, and so the hook of
  the HTTP adapter, which records the error of the original components.
\<close>

definition try_dynamodb_client_from_conf ::
  "('b, 'c, 'x) sdk_api_scheme \<Rightarrow> ('c \<Rightarrow> validator) \<Rightarrow> 'c \<Rightarrow> client_build_error + 'c" where
  "try_dynamodb_client_from_conf S VB config =
     (case s_http_client (c_settings S config) of
        None \<Rightarrow> Inl (SdkConfiguration ''no HTTP client was selected'')
      | Some http_client \<Rightarrow>
          let identity_cache = (case s_identity_cache (c_settings S config) of
                                  Some c \<Rightarrow> c | None \<Rightarrow> LazyIdentityCache);
              adapter = SdkConfigValidation http_client identity_cache;
              cached = ValidatedIdentityCache http_client identity_cache;
              builder = sdk_do S (SetIdentityCache cached)
                          (sdk_do S (SetHttpClient (Some adapter)) (sdk_to_builder S config));
              client = sdk_build S builder;
              components = \<lparr>rc_http_client = Some adapter, rc_identity_cache = Some cached\<rparr>;
              recorded = snd (http_validate_base (VB client) (\<lambda>h rc. None) adapter components None)
          in case recorded of
               Some message \<Rightarrow> Inl (SdkConfiguration message)
             | None \<Rightarrow> Inr client)"

section \<open>Validation once\<close>

text \<open>
  What the SDK does in \<^verbatim>\<open>RuntimeComponents::validate_final_config\<close>: it runs the hooks of the
  components one after the other and returns the first error. Between the configuration validators
  (group 0), the endpoint resolver and authentication schemes (group 1) and the identity resolvers,
  interceptors and retry strategy (group 2) come the HTTP client and the identity cache. \<open>others k\<close>
  is what the hooks of group \<open>k\<close> report of the components they are given.
\<close>

definition validation_law ::
  "(http_client \<Rightarrow> runtime_components \<Rightarrow> string option) \<Rightarrow>
   (identity_cache \<Rightarrow> runtime_components \<Rightarrow> string option) \<Rightarrow>
   (nat \<Rightarrow> runtime_components \<Rightarrow> string option) \<Rightarrow> final_validator \<Rightarrow> bool" where
  "validation_law own_http own_cache others V \<longleftrightarrow>
     (\<forall>rc. V rc = and_then ([OtherHooks 0], others 0 rc)
        (and_then (case rc_http_client rc of None \<Rightarrow> ([], None) | Some h \<Rightarrow> http_validate_final V own_http h rc)
        (and_then ([OtherHooks 1], others 1 rc)
        (and_then (case rc_identity_cache rc of None \<Rightarrow> ([], None) | Some c \<Rightarrow> cache_validate_final V own_cache c rc)
           ([OtherHooks 2], others 2 rc)))))"

fun outside_http :: "http_client \<Rightarrow> bool" where
  "outside_http (UserHttpClient _) = True"
| "outside_http (SdkHttpClient _) = True"
| "outside_http _ = False"

fun outside_cache :: "identity_cache \<Rightarrow> bool" where
  "outside_cache (UserIdentityCache _) = True"
| "outside_cache LazyIdentityCache = True"
| "outside_cache _ = False"

lemma validation_lawD:
  "validation_law oh oc os V \<Longrightarrow> V \<lparr>rc_http_client = Some h, rc_identity_cache = Some c\<rparr> =
     (let rc = \<lparr>rc_http_client = Some h, rc_identity_cache = Some c\<rparr>
      in and_then ([OtherHooks 0], os 0 rc) (and_then (http_validate_final V oh h rc)
           (and_then ([OtherHooks 1], os 1 rc) (and_then (cache_validate_final V oc c rc) ([OtherHooks 2], os 2 rc)))))"
  unfolding validation_law_def Let_def
  by (drule spec [of _ "\<lparr>rc_http_client = Some h, rc_identity_cache = Some c\<rparr>"]) simp

lemma outside_hooks:
  "outside_http h \<Longrightarrow> http_validate_final V own h rc = ([HttpClientHook h], own h rc)"
  "outside_cache c \<Longrightarrow> cache_validate_final V own' c rc = ([IdentityCacheHook c], own' c rc)"
  "outside_http h \<Longrightarrow> serving_http h = h"
  "outside_cache c \<Longrightarrow> serving_cache c = c"
  by (cases h; cases c; simp)+

text \<open>A run of hooks in sequence: what it reports, and which of its hooks ran.\<close>

fun run_hooks :: "(hook \<times> string option) list \<Rightarrow> validation" where
  "run_hooks [] = ([], None)"
| "run_hooks ((x, e) # xs) = and_then ([x], e) (run_hooks xs)"

lemma and_then_skip [simp]: "and_then ([], None) x = x" "and_then x ([], None) = x"
  by (cases x, simp add: and_then_def split: option.split)+

lemma and_then_assoc: "and_then (and_then x y) z = and_then x (and_then y z)"
  by (cases "snd x"; cases "snd y") (simp_all add: and_then_def)

lemma run_hooks_append: "run_hooks (xs @ ys) = and_then (run_hooks xs) (run_hooks ys)"
  by (induction xs rule: run_hooks.induct) (simp_all add: and_then_assoc)

lemma run_hooks_prefix:
  "\<exists>n. fst (run_hooks xs) = take n (map fst xs) \<and> (snd (run_hooks xs) = None \<longrightarrow> length xs \<le> n)"
proof (induction xs rule: run_hooks.induct)
  case (2 x e xs)
  from 2 obtain n where n: "fst (run_hooks xs) = take n (map fst xs)" "snd (run_hooks xs) = None \<longrightarrow> length xs \<le> n"
    by (elim exE conjE)
  show ?case
  proof (cases e)
    case None
    with n show ?thesis by (intro exI [of _ "Suc n"]) (simp add: and_then_def)
  next
    case (Some err)
    then show ?thesis by (intro exI [of _ 1]) (simp add: and_then_def)
  qed
qed simp

lemma run_hooks_None: "snd (run_hooks xs) = None \<longleftrightarrow> (\<forall>(x, e) \<in> set xs. e = None)"
proof (induction xs rule: run_hooks.induct)
  case (2 x e xs)
  then show ?case by (cases e) (auto simp: and_then_def)
qed simp

definition group :: "(nat \<Rightarrow> runtime_components \<Rightarrow> string option) \<Rightarrow> nat \<Rightarrow> runtime_components \<Rightarrow> hook \<times> string option" where
  "group others k rc = (OtherHooks k, others k rc)"

text \<open>The hooks of the final validation of a driver client, and of one whose HTTP client is overridden.\<close>

lemma driver_hooks:
  assumes "validation_law own_http own_cache others V"
    and "outside_http h" and "outside_cache c" and "outside_http u"
    and "rc = \<lparr>rc_http_client = Some (SdkConfigValidation h c), rc_identity_cache = Some (ValidatedIdentityCache h c)\<rparr>"
    and "http_rc = \<lparr>rc_http_client = Some h, rc_identity_cache = Some (UnvalidatedIdentityCache (ValidatedIdentityCache h c))\<rparr>"
    and "cache_rc = \<lparr>rc_http_client = Some (UnvalidatedHttpClient (SdkConfigValidation h c)), rc_identity_cache = Some c\<rparr>"
    and "rc_u = \<lparr>rc_http_client = Some u, rc_identity_cache = Some (ValidatedIdentityCache h c)\<rparr>"
    and "cache_rc_u = \<lparr>rc_http_client = Some (UnvalidatedHttpClient u), rc_identity_cache = Some c\<rparr>"
  shows "V rc = run_hooks
      ([group others 0 rc]
       @ [group others 0 http_rc, (HttpClientHook h, own_http h http_rc), group others 1 http_rc, group others 2 http_rc]
       @ [group others 1 rc]
       @ [group others 0 cache_rc, group others 1 cache_rc, (IdentityCacheHook c, own_cache c cache_rc), group others 2 cache_rc]
       @ [group others 2 rc])"
    and "V rc_u = run_hooks
      ([group others 0 rc_u, (HttpClientHook u, own_http u rc_u), group others 1 rc_u]
       @ [group others 0 cache_rc_u, group others 1 cache_rc_u, (IdentityCacheHook c, own_cache c cache_rc_u),
          group others 2 cache_rc_u]
       @ [group others 2 rc_u])"
proof -
  note law = validation_lawD [OF assms(1), unfolded Let_def]
  have http: "V http_rc = run_hooks
      [group others 0 http_rc, (HttpClientHook h, own_http h http_rc), group others 1 http_rc, group others 2 http_rc]"
    unfolding assms(6) law using assms(2) by (simp add: outside_hooks group_def)
  have cache: "V \<lparr>rc_http_client = Some (UnvalidatedHttpClient x), rc_identity_cache = Some c\<rparr> = run_hooks
      [group others 0 r, group others 1 r, (IdentityCacheHook c, own_cache c r), group others 2 r]"
    if "r = \<lparr>rc_http_client = Some (UnvalidatedHttpClient x), rc_identity_cache = Some c\<rparr>" for x r
    unfolding law that using assms(3) by (simp add: outside_hooks group_def)
  show "V rc = run_hooks
      ([group others 0 rc]
       @ [group others 0 http_rc, (HttpClientHook h, own_http h http_rc), group others 1 http_rc, group others 2 http_rc]
       @ [group others 1 rc]
       @ [group others 0 cache_rc, group others 1 cache_rc, (IdentityCacheHook c, own_cache c cache_rc), group others 2 cache_rc]
       @ [group others 2 rc])"
    unfolding run_hooks_append http [symmetric] cache [OF assms(7), folded assms(7), symmetric]
    by (subst assms(5), subst law)
      (simp add: validate_http_final_config_def validate_identity_cache_final_config_def assms(5-7) group_def)
  show "V rc_u = run_hooks
      ([group others 0 rc_u, (HttpClientHook u, own_http u rc_u), group others 1 rc_u]
       @ [group others 0 cache_rc_u, group others 1 cache_rc_u, (IdentityCacheHook c, own_cache c cache_rc_u),
          group others 2 cache_rc_u]
       @ [group others 2 rc_u])"
    unfolding run_hooks_append cache [OF assms(9), folded assms(9), symmetric]
    by (subst assms(8), subst law)
      (simp add: outside_hooks(1) [OF assms(4)] validate_identity_cache_final_config_def assms(8,9) group_def and_then_assoc)
qed

definition is_other :: "hook \<Rightarrow> bool" where
  "is_other x = (case x of OtherHooks k \<Rightarrow> True | _ \<Rightarrow> False)"

lemma group_simps [simp]: "fst (group others k rc) = OtherHooks k" "snd (group others k rc) = others k rc"
  by (simp_all add: group_def)

lemma run_replaced:
  "\<exists>m. filter (\<lambda>x. \<not> is_other x) (fst (run_hooks xs)) = take m (filter (\<lambda>x. \<not> is_other x) (map fst xs))"
proof -
  obtain n where n: "fst (run_hooks xs) = take n (map fst xs)" using run_hooks_prefix [of xs] by blast
  have "\<exists>m. filter P (take n ys) = take m (filter P ys)" for P and ys :: "hook list"
    by (metis append_eq_conv_conj append_take_drop_id filter_append)
  then show ?thesis unfolding n by blast
qed

lemma run_accepted: "snd (run_hooks xs) = None \<Longrightarrow> fst (run_hooks xs) = map fst xs"
  using run_hooks_prefix [of xs] by fastforce

text \<open>
  C28: through the adapters the original HTTP client and the original identity cache are each
  validated once. The final validation of a driver client runs of their hooks the HTTP client's and
  then the identity cache's, or only a beginning of that when an error stops it, and when it
  accepts the components it ran both, each exactly once, on components that have that original in
  its place; with an HTTP client overridden for one operation, that client's hook takes the place of the
  original's, and the cache's still runs once. The hooks of the SDK's other components run with
  each of the nested validations (three times, twice with an override). The components are
  accepted exactly when no hook objects, none being skipped. Requests are served by the objects
  inside.
\<close>

theorem final_validation_once:
  assumes "validation_law own_http own_cache others V"
    and "outside_http h" and "outside_cache c" and "outside_http u"
    and "rc = \<lparr>rc_http_client = Some (SdkConfigValidation h c), rc_identity_cache = Some (ValidatedIdentityCache h c)\<rparr>"
    and "http_rc = \<lparr>rc_http_client = Some h, rc_identity_cache = Some (UnvalidatedIdentityCache (ValidatedIdentityCache h c))\<rparr>"
    and "cache_rc = \<lparr>rc_http_client = Some (UnvalidatedHttpClient (SdkConfigValidation h c)), rc_identity_cache = Some c\<rparr>"
    and "rc_u = \<lparr>rc_http_client = Some u, rc_identity_cache = Some (ValidatedIdentityCache h c)\<rparr>"
    and "cache_rc_u = \<lparr>rc_http_client = Some (UnvalidatedHttpClient u), rc_identity_cache = Some c\<rparr>"
  shows "(\<exists>m. filter (\<lambda>x. \<not> is_other x) (fst (V rc)) = take m [HttpClientHook h, IdentityCacheHook c])
    \<and> (snd (V rc) = None \<longrightarrow> filter (\<lambda>x. \<not> is_other x) (fst (V rc)) = [HttpClientHook h, IdentityCacheHook c]
         \<and> (\<forall>k < 3. count_list (fst (V rc)) (OtherHooks k) = 3))
    \<and> (snd (V rc) = None \<longleftrightarrow> own_http h http_rc = None \<and> own_cache c cache_rc = None
         \<and> (\<forall>k < 3. \<forall>x \<in> {rc, http_rc, cache_rc}. others k x = None))
    \<and> (\<exists>m. filter (\<lambda>x. \<not> is_other x) (fst (V rc_u)) = take m [HttpClientHook u, IdentityCacheHook c])
    \<and> (snd (V rc_u) = None \<longrightarrow> filter (\<lambda>x. \<not> is_other x) (fst (V rc_u)) = [HttpClientHook u, IdentityCacheHook c]
         \<and> (\<forall>k < 3. count_list (fst (V rc_u)) (OtherHooks k) = 2))
    \<and> (snd (V rc_u) = None \<longleftrightarrow> own_http u rc_u = None \<and> own_cache c cache_rc_u = None
         \<and> (\<forall>k < 3. \<forall>x \<in> {rc_u, cache_rc_u}. others k x = None))
    \<and> serving_http (SdkConfigValidation h c) = h \<and> serving_cache (ValidatedIdentityCache h c) = c"
proof -
  note run = driver_hooks [OF assms]
  have three: "(\<forall>k < 3. P k) \<longleftrightarrow> P 0 \<and> P 1 \<and> P 2" for P :: "nat \<Rightarrow> bool"
    by (auto simp: numeral_3_eq_3 less_Suc_eq numeral_2_eq_2)
  note facts = is_other_def three outside_hooks(3) [OF assms(2)] outside_hooks(4) [OF assms(3)]
  have a: "\<exists>m. filter (\<lambda>x. \<not> is_other x) (fst (V rc)) = take m [HttpClientHook h, IdentityCacheHook c]"
    "\<exists>m. filter (\<lambda>x. \<not> is_other x) (fst (V rc_u)) = take m [HttpClientHook u, IdentityCacheHook c]"
    unfolding run by (rule run_replaced [THEN exE], rule exI, erule trans, simp add: facts)+
  have b: "snd (V rc) = None \<Longrightarrow> filter (\<lambda>x. \<not> is_other x) (fst (V rc)) = [HttpClientHook h, IdentityCacheHook c]
      \<and> (\<forall>k < 3. count_list (fst (V rc)) (OtherHooks k) = 3)"
    "snd (V rc_u) = None \<Longrightarrow> filter (\<lambda>x. \<not> is_other x) (fst (V rc_u)) = [HttpClientHook u, IdentityCacheHook c]
      \<and> (\<forall>k < 3. count_list (fst (V rc_u)) (OtherHooks k) = 2)"
    unfolding run by (drule run_accepted, simp add: facts)+
  have c: "snd (V rc) = None \<longleftrightarrow> own_http h http_rc = None \<and> own_cache c cache_rc = None
         \<and> (\<forall>k < 3. \<forall>x \<in> {rc, http_rc, cache_rc}. others k x = None)"
    "snd (V rc_u) = None \<longleftrightarrow> own_http u rc_u = None \<and> own_cache c cache_rc_u = None
         \<and> (\<forall>k < 3. \<forall>x \<in> {rc_u, cache_rc_u}. others k x = None)"
    unfolding run run_hooks_None by (auto simp: three group_def)
  from a b c show ?thesis by (simp add: facts)
qed

text \<open>
  A validator that satisfies the law, with one HTTP client and one cache that object: armed
  components weigh, disarmed ones do not.
\<close>

fun armed_http :: "http_client \<Rightarrow> nat" and armed_cache :: "identity_cache \<Rightarrow> nat" where
  "armed_http (UserHttpClient _) = 1"
| "armed_http (SdkHttpClient _) = 1"
| "armed_http (SdkConfigValidation h c) = Suc (armed_http h)"
| "armed_http (UnvalidatedHttpClient _) = 0"
| "armed_cache (UserIdentityCache _) = 1"
| "armed_cache LazyIdentityCache = 1"
| "armed_cache (UnvalidatedIdentityCache _) = 0"
| "armed_cache (ValidatedIdentityCache h c) = Suc (armed_cache c)"

definition armed :: "runtime_components \<Rightarrow> nat" where
  "armed rc = (case rc_http_client rc of None \<Rightarrow> 0 | Some h \<Rightarrow> armed_http h)
     + (case rc_identity_cache rc of None \<Rightarrow> 0 | Some c \<Rightarrow> armed_cache c)"

definition picky_http :: "http_client \<Rightarrow> runtime_components \<Rightarrow> string option" where
  "picky_http h rc = (if h = UserHttpClient 0 then Some ''bad client'' else None)"

definition picky_cache :: "identity_cache \<Rightarrow> runtime_components \<Rightarrow> string option" where
  "picky_cache c rc = (if c = UserIdentityCache 0 then Some ''bad cache'' else None)"

function plain_validator :: "final_validator" where
  "plain_validator rc = and_then ([OtherHooks 0], None)
     (and_then (case rc_http_client rc of
        None \<Rightarrow> ([], None)
      | Some (SdkConfigValidation h c) \<Rightarrow>
          plain_validator (rc\<lparr>rc_http_client := Some h,
            rc_identity_cache := map_option UnvalidatedIdentityCache (rc_identity_cache rc)\<rparr>)
      | Some (UnvalidatedHttpClient h) \<Rightarrow> ([], None)
      | Some h \<Rightarrow> ([HttpClientHook h], picky_http h rc))
     (and_then ([OtherHooks 1], None)
     (and_then (case rc_identity_cache rc of
        None \<Rightarrow> ([], None)
      | Some (ValidatedIdentityCache h c) \<Rightarrow>
          plain_validator (rc\<lparr>rc_http_client := map_option UnvalidatedHttpClient (rc_http_client rc),
            rc_identity_cache := Some c\<rparr>)
      | Some (UnvalidatedIdentityCache c) \<Rightarrow> ([], None)
      | Some c \<Rightarrow> ([IdentityCacheHook c], picky_cache c rc))
     ([OtherHooks 2], None))))"
  by pat_completeness auto
termination
  by (relation "measure armed") (auto simp: armed_def split: option.split)

declare plain_validator.simps [simp del]

lemma plain_validator_law: "validation_law picky_http picky_cache (\<lambda>k rc. None) plain_validator"
  unfolding validation_law_def
proof
  fix rc
  have http: "(case rc_http_client rc of
        None \<Rightarrow> ([], None)
      | Some (SdkConfigValidation h c) \<Rightarrow>
          plain_validator (rc\<lparr>rc_http_client := Some h,
            rc_identity_cache := map_option UnvalidatedIdentityCache (rc_identity_cache rc)\<rparr>)
      | Some (UnvalidatedHttpClient h) \<Rightarrow> ([], None)
      | Some h \<Rightarrow> ([HttpClientHook h], picky_http h rc)) =
    (case rc_http_client rc of None \<Rightarrow> ([], None) | Some h \<Rightarrow> http_validate_final plain_validator picky_http h rc)"
    by (simp add: validate_http_final_config_def split: option.split http_client.split)
  have cache: "(case rc_identity_cache rc of
        None \<Rightarrow> ([], None)
      | Some (ValidatedIdentityCache h c) \<Rightarrow>
          plain_validator (rc\<lparr>rc_http_client := map_option UnvalidatedHttpClient (rc_http_client rc),
            rc_identity_cache := Some c\<rparr>)
      | Some (UnvalidatedIdentityCache c) \<Rightarrow> ([], None)
      | Some c \<Rightarrow> ([IdentityCacheHook c], picky_cache c rc)) =
    (case rc_identity_cache rc of None \<Rightarrow> ([], None) | Some c \<Rightarrow> cache_validate_final plain_validator picky_cache c rc)"
    by (simp add: validate_identity_cache_final_config_def split: option.split identity_cache.split)
  show "plain_validator rc = and_then ([OtherHooks 0], None)
     (and_then (case rc_http_client rc of None \<Rightarrow> ([], None) | Some h \<Rightarrow> http_validate_final plain_validator picky_http h rc)
     (and_then ([OtherHooks 1], None)
     (and_then (case rc_identity_cache rc of None \<Rightarrow> ([], None) | Some c \<Rightarrow> cache_validate_final plain_validator picky_cache c rc)
     ([OtherHooks 2], None))))"
    by (subst plain_validator.simps) (simp only: http cache)
qed

theorem final_validation_once_witness:
  "snd (plain_validator \<lparr>rc_http_client = Some (SdkConfigValidation (SdkHttpClient True) (UserIdentityCache 0)),
      rc_identity_cache = Some (ValidatedIdentityCache (SdkHttpClient True) (UserIdentityCache 0))\<rparr>) \<noteq> None
   \<and> filter (\<lambda>x. \<not> is_other x) (fst (plain_validator
      \<lparr>rc_http_client = Some (SdkConfigValidation (SdkHttpClient True) (UserIdentityCache 1)),
       rc_identity_cache = Some (ValidatedIdentityCache (SdkHttpClient True) (UserIdentityCache 1))\<rparr>))
     = [HttpClientHook (SdkHttpClient True), IdentityCacheHook (UserIdentityCache 1)]"
  using final_validation_once [OF plain_validator_law _ _ _ refl refl refl refl refl, of "SdkHttpClient True" "UserIdentityCache 0" "SdkHttpClient True"]
    final_validation_once [OF plain_validator_law _ _ _ refl refl refl refl refl, of "SdkHttpClient True" "UserIdentityCache 1" "SdkHttpClient True"]
  by (simp add: picky_http_def picky_cache_def)

end
