(* ===== verification/Config_Calls.thy ===== *)
theory Config_Calls
  imports Config
begin

text \<open>
  Runs of the client builder: a program calls the methods of \<^verbatim>\<open>AlternatorBuilder\<close> in some
  order. \<open>run_call\<close> is one call, \<open>run_calls\<close> a sequence that ends at the first panic. The
  facts here are about every sequence: authentication options, what \<^verbatim>\<open>build\<close> derives, and
  what survives \<^verbatim>\<open>to_builder\<close>; and about the scheme setter and the operation overrides.
\<close>

section \<open>Runs\<close>

datatype builder_call =
    OptimizeHeaders bool
  | SetUserAgent "user_agent option"
  | WithoutUserAgent
  | SetRequestCompression request_compression
  | SetResponseCompression response_compression
  | SetDiscoveryTimeout "duration option"
  | SetActiveInterval duration
  | SetIdleInterval duration
  | SetRoutingScope routing_scope
  | SetScheme string
  | SetPort u16
  | SetSeedHosts "string list"
  | SetWithoutDiscovery bool
  | SetKeyRouteAffinity key_route_affinity_config
  | SetCredentials "sdk_object option"
  | SetRequireAuth bool
  | SetAllowNoAuth
  | SetStalledStream "sdk_object option"
  | Passthrough sdk_call

text \<open>The SDK calls that a passthrough of the builder makes.\<close>

fun exposed :: "sdk_call \<Rightarrow> bool" where
  "exposed (SetBehaviorVersion _) = False"
| "exposed (SetEndpointUrl _) = False"
| "exposed AllowNoAuth = False"
| "exposed (SetStalledStreamProtection _) = False"
| "exposed (SetCredentialsProvider _) = False"
| "exposed _ = True"

fun available :: "builder_call \<Rightarrow> bool" where
  "available (Passthrough k) = exposed k"
| "available _ = True"

fun run_call ::
  "('b, 'c, 'x) sdk_api_scheme \<Rightarrow> builder_call \<Rightarrow> 'b alternator_builder \<Rightarrow> 'b alternator_builder option" where
  "run_call S (OptimizeHeaders v) b = Some (set_optimize_headers v b)"
| "run_call S (SetUserAgent v) b = Some (set_user_agent v b)"
| "run_call S WithoutUserAgent b = Some (set_without_user_agent b)"
| "run_call S (SetRequestCompression v) b = Some (set_request_compression v b)"
| "run_call S (SetResponseCompression v) b = Some (set_response_compression v b)"
| "run_call S (SetDiscoveryTimeout v) b = Some (set_discovery_timeout v b)"
| "run_call S (SetActiveInterval v) b = Some (set_active_interval v b)"
| "run_call S (SetIdleInterval v) b = Some (set_idle_interval v b)"
| "run_call S (SetRoutingScope v) b = Some (set_routing_scope v b)"
| "run_call S (SetScheme v) b = Some (set_scheme v b)"
| "run_call S (SetPort v) b = Some (set_port v b)"
| "run_call S (SetSeedHosts v) b = Some (set_seed_hosts v b)"
| "run_call S (SetWithoutDiscovery v) b = Some (set_without_discovery v b)"
| "run_call S (SetKeyRouteAffinity v) b = Some (set_key_route_affinity v b)"
| "run_call S (SetCredentials v) b = Some (set_credentials_provider v b)"
| "run_call S (SetRequireAuth v) b = set_require_auth v b"
| "run_call S SetAllowNoAuth b = set_allow_no_auth S b"
| "run_call S (SetStalledStream v) b = Some (set_stalled_stream_protection S v b)"
| "run_call S (Passthrough k) b = Some (passthrough S k b)"

fun run_calls ::
  "('b, 'c, 'x) sdk_api_scheme \<Rightarrow> builder_call list \<Rightarrow> 'b alternator_builder \<Rightarrow> 'b alternator_builder option" where
  "run_calls S [] b = Some b"
| "run_calls S (k # ks) b = Option.bind (run_call S k b) (run_calls S ks)"

lemmas ext_setters =
  set_optimize_headers_def set_user_agent_def set_without_user_agent_def set_request_compression_def
  set_response_compression_def set_discovery_timeout_def set_active_interval_def
  set_idle_interval_def set_routing_scope_def set_scheme_def set_port_def set_seed_hosts_def
  set_without_discovery_def set_key_route_affinity_def set_credentials_provider_def

lemmas auth_setters = set_require_auth_def set_allow_no_auth_def

lemma run_calls_append:
  "run_calls S (xs @ ys) b = Option.bind (run_calls S xs b) (run_calls S ys)"
  by (induction xs arbitrary: b) (auto split: bind_splits)

section \<open>Authentication\<close>

text \<open>What a sequence of calls asks for: the last word on \<^verbatim>\<open>require_auth\<close>, and whether unsigned
  requests were ever permitted.\<close>

fun last_require :: "builder_call list \<Rightarrow> bool \<Rightarrow> bool" where
  "last_require [] r = r"
| "last_require (SetRequireAuth v # ks) r = last_require ks v"
| "last_require (_ # ks) r = last_require ks r"

lemma last_require_append: "last_require (xs @ ys) r = last_require ys (last_require xs r)"
  by (induction xs r rule: last_require.induct) auto

lemma run_call_auth:
  assumes "run_call S k b = Some b'" and "sdk_law S" and "available k"
  shows "x_require_auth (alternator_ext b') = last_require [k] (x_require_auth (alternator_ext b))"
    and "x_allow_no_auth (alternator_ext b') \<longleftrightarrow> x_allow_no_auth (alternator_ext b) \<or> k = SetAllowNoAuth"
    and "s_allow_no_auth (b_settings S (dynamodb_builder b'))
      \<longleftrightarrow> s_allow_no_auth (b_settings S (dynamodb_builder b)) \<or> k = SetAllowNoAuth"
proof -
  have pt: "s_allow_no_auth (settings_after c s) = s_allow_no_auth s" if "exposed c" for c s
    using that by (cases c) (auto split: option.splits)
  show "x_require_auth (alternator_ext b') = last_require [k] (x_require_auth (alternator_ext b))"
    and "x_allow_no_auth (alternator_ext b') \<longleftrightarrow> x_allow_no_auth (alternator_ext b) \<or> k = SetAllowNoAuth"
    using assms(1) by (cases k; auto simp: ext_setters auth_setters set_stalled_stream_protection_def
        passthrough_def split: if_splits)+
  show "s_allow_no_auth (b_settings S (dynamodb_builder b'))
      \<longleftrightarrow> s_allow_no_auth (b_settings S (dynamodb_builder b)) \<or> k = SetAllowNoAuth"
    using assms(1,3) sdk_lawD(2) [OF assms(2)]
    by (cases k; auto simp: ext_setters auth_setters set_stalled_stream_protection_def
        passthrough_def pt split: if_splits)
qed

lemma run_call_None:
  "run_call S k b = None \<longleftrightarrow>
     k = SetRequireAuth True \<and> x_allow_no_auth (alternator_ext b)
   \<or> k = SetAllowNoAuth \<and> x_require_auth (alternator_ext b)"
  by (cases k) (auto simp: auth_setters)

lemma run_calls_auth:
  assumes "sdk_law S"
  shows "run_calls S ks b = Some b' \<Longrightarrow> list_all available ks \<Longrightarrow>
     x_require_auth (alternator_ext b') = last_require ks (x_require_auth (alternator_ext b))
   \<and> (x_allow_no_auth (alternator_ext b') \<longleftrightarrow> x_allow_no_auth (alternator_ext b) \<or> SetAllowNoAuth \<in> set ks)
   \<and> (s_allow_no_auth (b_settings S (dynamodb_builder b'))
       \<longleftrightarrow> s_allow_no_auth (b_settings S (dynamodb_builder b)) \<or> SetAllowNoAuth \<in> set ks)
   \<and> (\<not> (x_require_auth (alternator_ext b) \<and> x_allow_no_auth (alternator_ext b)) \<longrightarrow>
      \<not> (x_require_auth (alternator_ext b') \<and> x_allow_no_auth (alternator_ext b')))"
proof (induction ks arbitrary: b)
  case (Cons k ks)
  then obtain b1 where k: "run_call S k b = Some b1" and ks: "run_calls S ks b1 = Some b'"
    by (auto split: bind_splits)
  note step = run_call_auth [OF k assms]
  have excl: "\<not> (x_require_auth (alternator_ext b1) \<and> x_allow_no_auth (alternator_ext b1))"
    if "\<not> (x_require_auth (alternator_ext b) \<and> x_allow_no_auth (alternator_ext b))"
    using that step(1,2) Cons.prems(2) run_call_None [of S k b] k
    by (cases k) auto
  show ?case
    using Cons.IH [OF ks] step Cons.prems(2) excl last_require_append [of "[k]" ks] by auto
qed simp

text \<open>A run that panics has a first call that panics.\<close>

lemma run_calls_stops:
  assumes "run_calls S ks b0 = None"
  shows "\<exists>pre k post b. ks = pre @ k # post \<and> run_calls S pre b0 = Some b \<and> run_call S k b = None"
  using assms
proof (induction ks arbitrary: b0)
  case (Cons k ks)
  show ?case
  proof (cases "run_call S k b0")
    case None
    then show ?thesis by (intro exI [of _ "[]"]) auto
  next
    case (Some b1)
    with Cons.prems Cons.IH [of b1] obtain pre k' post b where
      "ks = pre @ k' # post" "run_calls S pre b1 = Some b" "run_call S k' b = None" by auto
    with Some show ?thesis by (intro exI [of _ "k # pre"]) auto
  qed
qed simp

text \<open>
  C27: the two authentication options exclude each other, and nothing else is refused: a sequence
  of builder calls panics exactly when it requires authentication after unsigned requests were
  permitted, or permits them while the last word is to require authentication. Otherwise the
  builder never holds both options, and the SDK's no-auth escape hatch was opened exactly when
  the options say so.
\<close>

theorem auth_options_exclusive:
  assumes "sdk_law S" and "list_all available ks"
  shows "(run_calls S ks (builder_new S) = None \<longleftrightarrow>
      (\<exists>pre k post. ks = pre @ k # post
        \<and> (k = SetRequireAuth True \<and> SetAllowNoAuth \<in> set pre
           \<or> k = SetAllowNoAuth \<and> last_require pre False)))
    \<and> (case run_calls S ks (builder_new S) of None \<Rightarrow> True
       | Some b \<Rightarrow> \<not> (x_require_auth (alternator_ext b) \<and> x_allow_no_auth (alternator_ext b))
           \<and> x_require_auth (alternator_ext b) = last_require ks False
           \<and> x_allow_no_auth (alternator_ext b) = (SetAllowNoAuth \<in> set ks)
           \<and> s_allow_no_auth (b_settings S (dynamodb_builder b)) = x_allow_no_auth (alternator_ext b))"
    (is "(?run ks = None \<longleftrightarrow> ?bad ks) \<and> ?ok")
proof
  have state: "x_require_auth (alternator_ext b) = last_require pre False
      \<and> x_allow_no_auth (alternator_ext b) = (SetAllowNoAuth \<in> set pre)"
    if "?run pre = Some b" "list_all available pre" for pre b
    using run_calls_auth [OF assms(1) that] by (simp add: builder_new_def default_extensions_def)
  show "?run ks = None \<longleftrightarrow> ?bad ks"
  proof
    assume "?run ks = None"
    from run_calls_stops [OF this] obtain pre k post b where
      "ks = pre @ k # post" "?run pre = Some b" "run_call S k b = None" by blast
    with state [of pre b] assms(2) run_call_None [of S k b] show "?bad ks" by auto
  next
    assume "?bad ks"
    then obtain pre k post where ks: "ks = pre @ k # post"
      and bad: "k = SetRequireAuth True \<and> SetAllowNoAuth \<in> set pre \<or> k = SetAllowNoAuth \<and> last_require pre False"
      by blast
    with assms(2) have pre: "list_all available pre" by simp
    have "run_call S k b = None" if "?run pre = Some b" for b
      using state [OF that pre] bad run_call_None [of S k b] by auto
    then show "?run ks = None" by (cases "?run pre") (simp_all add: ks run_calls_append)
  qed
  show ?ok
    using run_calls_auth [OF assms(1) _ assms(2), of "builder_new S"] sdk_lawD(1) [OF assms(1)]
    by (auto simp: builder_new_def default_extensions_def empty_settings_def split: option.split)
qed

theorem auth_options_exclusive_witness:
  "run_calls record_sdk [SetRequireAuth True, SetAllowNoAuth] (builder_new record_sdk) = None"
  by (subst auth_options_exclusive [OF record_sdk_law, THEN conjunct1])
    (auto intro: exI [of _ "[SetRequireAuth True]"])

section \<open>What \<^verbatim>\<open>build\<close> derives and \<^verbatim>\<open>to_builder\<close> keeps\<close>

text \<open>Two builders that \<^verbatim>\<open>build\<close> cannot tell apart: it overwrites version and endpoint.\<close>

definition stamp :: "string option \<Rightarrow> string option \<Rightarrow> sdk_settings \<Rightarrow> sdk_settings" where
  "stamp v u s = s\<lparr>s_behavior_version := v, s_endpoint_url := u\<rparr>"

lemma stamp_stamp [simp]: "stamp v u (stamp v' u' s) = stamp v u s"
  by (simp add: stamp_def)

definition same_build ::
  "('b, 'c, 'x) sdk_api_scheme \<Rightarrow> 'b alternator_builder \<Rightarrow> 'b alternator_builder \<Rightarrow> bool" where
  "same_build S b b' \<longleftrightarrow>
     alternator_ext b = alternator_ext b'
   \<and> stamp None None (b_settings S (dynamodb_builder b)) = stamp None None (b_settings S (dynamodb_builder b'))"

lemma build_settings:
  assumes "sdk_law S"
  shows "c_settings S (dynamodb_config (build S U b)) =
      stamp (Some ALTERNATOR_BEHAVIOR_VERSION) (endpoint_url U (alternator_ext b)) (b_settings S (dynamodb_builder b))"
    and "config_ext (build S U b) = alternator_ext b"
  by (simp_all add: build_def Let_def sdk_lawD [OF assms] stamp_def)

lemma stamp_simps [simp]:
  "s_behavior_version (stamp v u s) = v" "s_endpoint_url (stamp v u s) = u"
  by (simp_all add: stamp_def)

lemma same_build_eq:
  assumes "sdk_law S" and "same_build S b b'"
  shows "c_settings S (dynamodb_config (build S U b)) = c_settings S (dynamodb_config (build S U b'))"
    and "config_ext (build S U b) = config_ext (build S U b')"
proof -
  have st: "stamp v u s = stamp v u s'" if "stamp None None s = stamp None None s'" for v u s s'
    using arg_cong [OF that, of "stamp v u"] unfolding stamp_stamp .
  have "stamp None None (b_settings S (dynamodb_builder b)) = stamp None None (b_settings S (dynamodb_builder b'))"
    and ext: "alternator_ext b = alternator_ext b'"
    using assms(2) unfolding same_build_def by blast+
  note same = st [OF this(1)]
  show "c_settings S (dynamodb_config (build S U b)) = c_settings S (dynamodb_config (build S U b'))"
    unfolding build_settings [OF assms(1)] ext by (rule same)
  show "config_ext (build S U b) = config_ext (build S U b')"
    unfolding build_settings [OF assms(1)] by (rule ext)
qed

lemma stamp_commutes:
  assumes "exposed k \<or> k = AllowNoAuth \<or> k = SetStalledStreamProtection p"
  shows "stamp v u (settings_after k s) = settings_after k (stamp v u s)"
  using assms by (cases k) (auto simp: stamp_def split: option.split)

lemma run_call_same_build:
  assumes "sdk_law S" and "same_build S b b'" and "available k"
  shows "rel_option (same_build S) (run_call S k b) (run_call S k b')"
proof -
  have sdk: "stamp None None (b_settings S (sdk_do S c (dynamodb_builder b)))
      = stamp None None (b_settings S (sdk_do S c (dynamodb_builder b')))"
    if "exposed c \<or> c = AllowNoAuth \<or> c = SetStalledStreamProtection p" for c p
    using assms(2) by (simp add: sdk_lawD(2) [OF assms(1)] stamp_commutes [OF that] same_build_def)
  show ?thesis
    using assms(2,3) sdk
    by (cases k) (auto simp: same_build_def ext_setters auth_setters passthrough_def
        set_stalled_stream_protection_def)
qed

lemma run_calls_same_build:
  assumes "sdk_law S"
  shows "same_build S b b' \<Longrightarrow> list_all available ks \<Longrightarrow>
    rel_option (same_build S) (run_calls S ks b) (run_calls S ks b')"
proof (induction ks arbitrary: b b')
  case (Cons k ks)
  have "rel_option (same_build S) (run_call S k b) (run_call S k b')"
    by (rule run_call_same_build) (use assms Cons.prems in auto)
  then show ?case
    using Cons.IH Cons.prems(2) by (cases rule: option.rel_cases) auto
qed simp

text \<open>
  C26: rebuilding loses nothing: a configuration that is turned back into a builder by
  \<^verbatim>\<open>to_builder\<close> and changed further by any sequence of calls gives the same configuration, or
  the same panic, as if the calls had been made on the original builder. Every built
  configuration has the pinned behavior version and the endpoint of its first seed host,
  scheme and port, whatever was set before.
\<close>

theorem rebuild_loses_nothing:
  assumes "sdk_law S" and "list_all available ks"
  shows "map_option (\<lambda>b'. (c_settings S (dynamodb_config (build S U b')), config_ext (build S U b')))
        (run_calls S ks (to_builder S (build S U b)))
      = map_option (\<lambda>b'. (c_settings S (dynamodb_config (build S U b')), config_ext (build S U b')))
        (run_calls S ks b)
    \<and> s_endpoint_url (c_settings S (dynamodb_config (build S U b))) = endpoint_url U (alternator_ext b)
    \<and> s_behavior_version (c_settings S (dynamodb_config (build S U b))) = Some ALTERNATOR_BEHAVIOR_VERSION"
proof -
  have "same_build S (to_builder S (build S U b)) b"
    by (simp add: same_build_def to_builder_def build_settings [OF assms(1)] sdk_lawD(3) [OF assms(1)])
  then have "rel_option (same_build S) (run_calls S ks (to_builder S (build S U b))) (run_calls S ks b)"
    by (rule run_calls_same_build [OF assms(1) _ assms(2)])
  then show ?thesis
    by (cases rule: option.rel_cases)
      (auto simp: build_settings [OF assms(1)] dest: same_build_eq [OF assms(1), of _ _ U])
qed

theorem rebuild_loses_nothing_witness:
  "run_calls record_sdk [SetRequireAuth True, SetAllowNoAuth]
     (to_builder record_sdk (build record_sdk text_url (builder_new record_sdk))) = None"
  using rebuild_loses_nothing [OF record_sdk_law, of "[SetRequireAuth True, SetAllowNoAuth]" text_url "builder_new record_sdk"]
  by (auto simp: set_require_auth_def set_allow_no_auth_def builder_new_def default_extensions_def)

section \<open>The scheme setter\<close>

lemma valid_scheme_chars:
  assumes "is_valid_uri_scheme s" and "c \<in> set s"
  shows "c \<noteq> CHR '':'' \<and> c \<noteq> CHR ''/''"
proof -
  have "\<not> is_ascii_alphabetic CHR '':''" "\<not> is_ascii_alphanumeric CHR '':''"
    "\<not> is_ascii_alphabetic CHR ''/''" "\<not> is_ascii_alphanumeric CHR ''/''"
    by code_simp+
  then show ?thesis
    using assms by (cases s) (auto simp: is_valid_uri_scheme_def list_all_iff)
qed

text \<open>
  C40: the scheme setter repairs the two documented spellings and nothing else: what it stores is a
  valid URI scheme exactly when its argument is a valid scheme, alone or followed by \<^verbatim>\<open>:\<close> or
  \<^verbatim>\<open>://\<close>, and then it stores that scheme. Repeated or partial delimiters stay malformed.
\<close>

theorem scheme_normalisation:
  "is_valid_uri_scheme (normalize_scheme s) \<and> normalize_scheme s = t \<longleftrightarrow>
     is_valid_uri_scheme t \<and> s \<in> {t, t @ '':'', t @ ''://''}"
proof -
  have bare: "strip_suffix ''://'' t = None" "strip_suffix '':'' t = None" "strip_suffix ''://'' (t @ '':'') = None"
    if v: "is_valid_uri_scheme t" for t
    using valid_scheme_chars [OF v] by (force simp: strip_suffix_None)+
  have wrapped: "\<not> is_valid_uri_scheme (r @ '':'')" "\<not> is_valid_uri_scheme (r @ ''://'')" for r
    using valid_scheme_chars [of "r @ '':''" "CHR '':''"] valid_scheme_chars [of "r @ ''://''" "CHR '':''"] by auto
  show ?thesis
    by (auto simp: normalize_scheme_def strip_suffix_Some bare wrapped split: option.splits)
qed

section \<open>Overrides of one operation\<close>

text \<open>What the driver's interceptors store before serialization.\<close>

definition before_serialization :: "shared_interceptor \<Rightarrow> 'u interceptor_state \<Rightarrow> 'u interceptor_state" where
  "before_serialization i cfg =
     (case i of
        RequestCompressionOverride c \<Rightarrow> override_request_compression c cfg
      | ResponseCompressionOverride c \<Rightarrow> override_response_compression c cfg
      | RoundRobinQueryPlanInterceptor h \<Rightarrow> round_robin_before_serialization h cfg
      | _ \<Rightarrow> cfg)"

definition last_some :: "'a option list \<Rightarrow> 'a option" where
  "last_some xs = foldl (\<lambda>found x. if x = None then found else x) None xs"

lemma last_some_simps [simp]:
  "last_some [] = None"
  "last_some (xs @ [None]) = last_some xs"
  "last_some (xs @ [Some x]) = Some x"
  by (simp_all add: last_some_def)

text \<open>What a list of interceptors and then the overrides of an operation store.\<close>

lemma stored_overrides:
  fixes cfg :: "'u interceptor_state"
  assumes "\<And>c. RequestCompressionOverride c \<notin> set base" and "\<And>c. ResponseCompressionOverride c \<notin> set base"
    and "request_compression_store cfg = None" and "response_compression_store cfg = None"
  shows "request_compression_store (fold before_serialization (fold alternator_config_override overrides base) cfg)
        = last_some (map o_request_compression overrides)
      \<and> response_compression_store (fold before_serialization (fold alternator_config_override overrides base) cfg)
        = last_some (map o_response_compression overrides)"
proof -
  have "request_compression_store (fold before_serialization base cfg) = None
      \<and> response_compression_store (fold before_serialization base cfg) = None"
    using assms
  proof (induction base arbitrary: cfg)
    case (Cons x base)
    have "request_compression_store (before_serialization x cfg) = None
        \<and> response_compression_store (before_serialization x cfg) = None"
      using Cons.prems by (cases x) (auto simp: before_serialization_def round_robin_before_serialization_def)
    with Cons show ?case by (metis fold_simps(2) list.set_intros(2))
  qed simp
  then show ?thesis
  proof (induction overrides rule: rev_induct)
    case (snoc o' overrides)
    then show ?case
      by (auto simp: alternator_config_override_def before_serialization_def Let_def
          override_request_compression_def override_response_compression_def split: option.split)
  qed simp
qed

text \<open>
  overrides of one operation: after the hooks of a client's interceptors and of any number of
  \<^verbatim>\<open>alternator_config_override\<close> calls on the operation, each compression setting in force is
  that of the last call that set it, and the client's own where no call did; request and response
  overrides do not disturb each other.
\<close>

theorem operation_overrides:
  fixes cfg :: "'u interceptor_state"
  assumes "\<And>c. RequestCompressionOverride c \<notin> set base" and "\<And>c. ResponseCompressionOverride c \<notin> set base"
    and "request_compression_store cfg = None" and "response_compression_store cfg = None"
    and "cfg' = fold before_serialization (fold alternator_config_override overrides base) cfg"
  shows "load_request_compression i cfg' =
      (case last_some (map o_request_compression overrides) of Some c \<Rightarrow> c | None \<Rightarrow> i_request_compression i)
    \<and> load_response_compression i cfg' =
      (case last_some (map o_response_compression overrides) of Some c \<Rightarrow> c | None \<Rightarrow> i_response_compression i)"
  using stored_overrides [OF assms(1-4), of overrides]
  by (simp add: assms(5) load_request_compression_def load_response_compression_def)

theorem operation_overrides_witness:
  fixes i :: alternator_interceptor
  shows "\<forall>i. load_request_compression i (fold before_serialization
      (fold alternator_config_override
        [operation_request_compression compression_disabled operation_builder_new,
         operation_response_compression response_disabled operation_builder_new] [UserInterceptor 1])
      (empty_interceptor_state :: string interceptor_state)) = compression_disabled"
proof
  fix i
  show "load_request_compression i (fold before_serialization
      (fold alternator_config_override
        [operation_request_compression compression_disabled operation_builder_new,
         operation_response_compression response_disabled operation_builder_new] [UserInterceptor 1])
      (empty_interceptor_state :: string interceptor_state)) = compression_disabled"
    by (subst operation_overrides [OF _ _ _ _ refl, THEN conjunct1])
      (simp_all add: empty_interceptor_state_def operation_request_compression_def
        operation_response_compression_def operation_builder_new_def last_some_def)
qed

end
