(* ===== verification/Client.thy ===== *)
theory Client
  imports Live_Nodes_Build Sdk_Validation Config_Calls
begin

text \<open>
  \<^verbatim>\<open>AlternatorClient\<close> of \<^verbatim>\<open>src/src/client.rs\<close>: construction from a configuration
  (\<^verbatim>\<open>try_from_conf\<close>), and stopping (\<^verbatim>\<open>shutdown\<close>, the drop of the last clone). A client
  owns one discovery state and, with key route affinity, one partition-key resolver; the
  interceptors refer to them by handle. \<open>S\<close> is the SDK, \<open>VB\<close> its validation, \<open>U\<close> the \<^verbatim>\<open>url\<close>
  crate, \<open>env\<close> the host's TLS environment, \<open>fits t\<close> whether the clock can represent
  now + \<open>t\<close>, and \<open>rt\<close>, \<open>now\<close> the thread's runtime and the time of the call.
\<close>

section \<open>State\<close>

record ('u, 'c) alternator_client =
  dynamodb_client :: 'c
  client_config :: "'c alternator_config"
  topology :: "'u live_state list"
  partition_keys :: "(partition_key_resolver \<times> 'c) option"

section \<open>Construction\<close>

definition validate_sdk_default_config :: "bool \<Rightarrow> client_build_error option" where
  "validate_sdk_default_config stalled_stream_protection_explicitly_unset =
     (if stalled_stream_protection_explicitly_unset
      then Some (SdkConfiguration ''The default stalled stream protection config was removed, and no other config was put in its place.'')
      else None)"

definition timeout_refused :: "(duration \<Rightarrow> bool) \<Rightarrow> 'c alternator_config \<Rightarrow> bool" where
  "timeout_refused fits config =
     (case config_discovery_timeout config of None \<Rightarrow> False | Some t \<Rightarrow> t = 0 \<or> \<not> fits t)"

definition client_interceptor :: "'c alternator_config \<Rightarrow> alternator_interceptor" where
  "client_interceptor config =
     \<lparr>i_request_compression = (case config_request_compression config of
         None \<Rightarrow> compression_disabled | Some c \<Rightarrow> c),
      i_response_compression = (case config_response_compression config of
         None \<Rightarrow> response_disabled | Some c \<Rightarrow> c),
      i_optimize_headers = (case config_optimize_headers config of None \<Rightarrow> True | Some b \<Rightarrow> b),
      i_user_agent = (case config_user_agent config of None \<Rightarrow> UaDefault | Some u \<Rightarrow> u),
      i_preserve_auth_headers = (config_credentials_provider config \<noteq> None)\<rparr>"

text \<open>Credentials, the implicit no-auth mode, and the main interceptor.\<close>

definition base_builder :: "('b, 'c, 'x) sdk_api_scheme \<Rightarrow> 'c alternator_config \<Rightarrow> 'b" where
  "base_builder S config =
     (let builder = sdk_to_builder S (dynamodb_config config);
          builder = (case config_credentials_provider config of
              None \<Rightarrow> builder
            | Some p \<Rightarrow> sdk_do S (SetCredentialsProvider (Some p)) builder);
          builder = (if config_credentials_provider config = None
                        \<and> \<not> config_requires_auth config \<and> \<not> config_allows_no_auth config
                     then sdk_do S AllowNoAuth builder else builder)
      in sdk_do S (PushInterceptor (AlternatorInterceptor (client_interceptor config))) builder)"

definition sdk_http_client :: "bool \<Rightarrow> http_client" where
  "sdk_http_client use_tls = SdkHttpClient use_tls"

text \<open>The transport: \<open>Inl\<close> is the message of unusable native roots.\<close>

definition choose_transport ::
  "('b, 'c, 'x) sdk_api_scheme \<Rightarrow> ('u, 'z) url_api_scheme \<Rightarrow> 'y host_env_scheme \<Rightarrow>
   'c alternator_config \<Rightarrow> 'u live_state option \<Rightarrow> 'b \<Rightarrow> string + 'b" where
  "choose_transport S U env config live builder =
     (let direct_scheme = (if live = None then Some (scheme_or_http config) else None);
          uses_plaintext = (case live of None \<Rightarrow> False | Some st \<Rightarrow> uses_http U st)
            \<or> (case direct_scheme of None \<Rightarrow> False | Some s \<Rightarrow> is_http s);
          uses_direct_https = (case direct_scheme of None \<Rightarrow> False | Some s \<Rightarrow> is_https s);
          has_custom = (config_http_client S config \<noteq> None)
      in case (if uses_direct_https \<and> \<not> has_custom then ensure_native_roots_are_usable env else None) of
           Some message \<Rightarrow> Inl message
         | None \<Rightarrow>
             Inr (if has_custom then builder
                  else let rootless = (uses_plaintext
                         \<and> \<not> (case live of Some st \<Rightarrow> has_usable_native_roots st
                               | None \<Rightarrow> native_roots_are_usable env))
                       in sdk_do S (SetHttpClient (Some (sdk_http_client (\<not> rootless)))) builder))"

definition default_region ::
  "('b, 'c, 'x) sdk_api_scheme \<Rightarrow> 'c alternator_config \<Rightarrow> 'b \<Rightarrow> 'b" where
  "default_region S config builder =
     (if config_region S config = None then sdk_do S (SetRegion (Some ''us-east-1'')) builder else builder)"

text \<open>The separate client that describes tables: round robin only, with the discovery deadline.\<close>

definition pk_builder ::
  "('b, 'c, 'x) sdk_api_scheme \<Rightarrow> 'c alternator_config \<Rightarrow> 'b \<Rightarrow> 'b" where
  "pk_builder S config builder =
     (let pk = sdk_do S (PushInterceptor (RoundRobinQueryPlanInterceptor OrdinaryHandle)) builder
      in case config_discovery_timeout config of
           None \<Rightarrow> pk
         | Some timeout \<Rightarrow>
             let timeouts = (case config_timeout_config S config of None \<Rightarrow> timeout_builder | Some t \<Rightarrow> t)
                   \<lparr>operation_timeout := Some timeout, operation_attempt_timeout := Some timeout\<rparr>
             in sdk_do S (SetTimeoutConfig (Some timeouts)) pk)"

definition enabled_affinity :: "'c alternator_config \<Rightarrow> key_route_affinity_config option" where
  "enabled_affinity config =
     (case config_key_route_affinity config of
        Some cfg \<Rightarrow> if is_enabled cfg then Some cfg else None
      | None \<Rightarrow> None)"

text \<open>The routing interceptor, the discovery state it refers to, and the resolver with its client.\<close>

definition choose_routing ::
  "('b, 'c, 'x) sdk_api_scheme \<Rightarrow> ('c \<Rightarrow> validator) \<Rightarrow> 'c alternator_config \<Rightarrow> 'u live_state option \<Rightarrow> 'b \<Rightarrow>
   client_build_error + shared_interceptor option \<times> 'u live_state option \<times> (partition_key_resolver \<times> 'c) option" where
  "choose_routing S VB config live builder =
     (case live of
        None \<Rightarrow> Inr (None, None, None)
      | Some st \<Rightarrow>
          (case enabled_affinity config of
             None \<Rightarrow> Inr (Some (RoundRobinQueryPlanInterceptor OrdinaryHandle), Some st, None)
           | Some cfg \<Rightarrow>
               let (h, st') = affinity_view st
               in case try_dynamodb_client_from_conf S VB (sdk_build S (pk_builder S config builder)) of
                    Inl e \<Rightarrow> Inl e
                  | Inr pk_discovery_client \<Rightarrow>
                      Inr (Some (AffinityQueryPlanInterceptor
                             \<lparr>a_config = cfg, a_routing_nodes = OrdinaryHandle, a_affinity_nodes = h\<rparr>),
                           Some st',
                           Some (new_with_timeout (pk_info_per_table cfg) (config_discovery_timeout config),
                                 pk_discovery_client))))"

definition start_discovery_of :: "runtime_id option \<Rightarrow> instant \<Rightarrow> 'u live_state \<Rightarrow> 'u live_state" where
  "start_discovery_of rt now st = st\<lparr>manager := map_option (ensure_discovery_started rt now) (manager st)\<rparr>"

definition try_from_conf ::
  "('b, 'c, 'x) sdk_api_scheme \<Rightarrow> ('c \<Rightarrow> validator) \<Rightarrow> ('u, 'z) url_api_scheme \<Rightarrow> 'y host_env_scheme \<Rightarrow>
   (duration \<Rightarrow> bool) \<Rightarrow> runtime_id option \<Rightarrow> instant \<Rightarrow> 'c alternator_config \<Rightarrow>
   client_build_error + ('u, 'c) alternator_client" where
  "try_from_conf S VB U env fits rt now config =
     (if timeout_refused fits config
      then Inl (DiscoveryConfiguration ''discovery_timeout must be positive and fit the runtime clock'')
      else case try_new S U env now config of
          Inl e \<Rightarrow> Inl (LiveNodesError e)
        | Inr live \<Rightarrow>
            (case choose_transport S U env config live (base_builder S config) of
               Inl message \<Rightarrow> Inl (TlsConfigurationError message)
             | Inr b \<Rightarrow>
                 let builder = default_region S config b
                 in case validate_sdk_default_config
                           (x_stalled_stream_protection_explicitly_unset (config_ext config)) of
                      Some e \<Rightarrow> Inl e
                    | None \<Rightarrow>
                        (case choose_routing S VB config live builder of
                           Inl e \<Rightarrow> Inl e
                         | Inr (routing, live', keys) \<Rightarrow>
                             let builder' = (case routing of
                                   None \<Rightarrow> builder | Some i \<Rightarrow> sdk_do S (PushInterceptor i) builder)
                             in case try_dynamodb_client_from_conf S VB (sdk_build S builder') of
                                  Inl e \<Rightarrow> Inl e
                                | Inr client \<Rightarrow>
                                    Inr \<lparr>dynamodb_client = client, client_config = config,
                                         topology = (case live' of
                                           None \<Rightarrow> [] | Some st \<Rightarrow> [start_discovery_of rt now st]),
                                         partition_keys = keys\<rparr>)))"

text \<open>\<^verbatim>\<open>from_conf\<close>: \<open>None\<close> is the panic.\<close>

definition from_conf ::
  "('b, 'c, 'x) sdk_api_scheme \<Rightarrow> ('c \<Rightarrow> validator) \<Rightarrow> ('u, 'z) url_api_scheme \<Rightarrow> 'y host_env_scheme \<Rightarrow>
   (duration \<Rightarrow> bool) \<Rightarrow> runtime_id option \<Rightarrow> instant \<Rightarrow> 'c alternator_config \<Rightarrow>
   ('u, 'c) alternator_client option" where
  "from_conf S VB U env fits rt now config =
     (case try_from_conf S VB U env fits rt now config of Inl _ \<Rightarrow> None | Inr client \<Rightarrow> Some client)"

section \<open>Stopping\<close>

definition stop_nodes :: "'u live_state \<Rightarrow> 'u live_state" where
  "stop_nodes st = st\<lparr>manager := map_option (\<lambda>m. m\<lparr>m_tasks := stop (m_tasks m)\<rparr>) (manager st)\<rparr>"

definition stop_resolver :: "partition_key_resolver \<Rightarrow> partition_key_resolver" where
  "stop_resolver r = r\<lparr>r_tasks := stop (r_tasks r)\<rparr>"

text \<open>\<^verbatim>\<open>ClientDiscovery::stop\<close>, also run by the drop of the last clone.\<close>

definition client_stop :: "('u, 'c) alternator_client \<Rightarrow> ('u, 'c) alternator_client" where
  "client_stop c =
     c\<lparr>topology := map stop_nodes (topology c),
       partition_keys := map_option (\<lambda>(r, pk). (stop_resolver r, pk)) (partition_keys c)\<rparr>"

definition registries :: "('u, 'c) alternator_client \<Rightarrow> discovery_tasks list" where
  "registries c =
     List.map_filter tasks (topology c)
     @ (case partition_keys c of None \<Rightarrow> [] | Some (r, pk) \<Rightarrow> [r_tasks r])"

text \<open>\<^verbatim>\<open>shutdown\<close>: the client after the stop, and whether all waits are over.\<close>

definition client_shutdown :: "('u, 'c) alternator_client \<Rightarrow> ('u, 'c) alternator_client \<times> bool" where
  "client_shutdown c = (let c' = client_stop c in (c', list_all wait_ready (registries c')))"

end
