(* ===== verification/Client_Operations.thy ===== *)
theory Client_Operations
  imports Client
begin

text \<open>
  The operations of \<^verbatim>\<open>AlternatorClient\<close> (\<^verbatim>\<open>src/src/client.rs\<close>): one method per DynamoDB
  operation, and the SDK's waiters. A method hands out the SDK's fluent builder of its operation.
  That builder is a value of the SDK; here it records the SDK client whose method made it, the
  operation, and the interceptors that \<^verbatim>\<open>customize()\<close> adds to this operation only.
\<close>

section \<open>Operations of the SDK\<close>

datatype (plugins only: size) sdk_operation =
    BatchExecuteStatement | BatchGetItem | BatchWriteItem | CreateBackup | CreateGlobalTable
  | CreateTable | DeleteBackup | DeleteItem | DeleteResourcePolicy | DeleteTable
  | DescribeBackup | DescribeContinuousBackups | DescribeContributorInsights | DescribeEndpoints
  | DescribeExport | DescribeGlobalTable | DescribeGlobalTableSettings | DescribeImport
  | DescribeKinesisStreamingDestination | DescribeLimits | DescribeTable
  | DescribeTableReplicaAutoScaling | DescribeTimeToLive | DisableKinesisStreamingDestination
  | EnableKinesisStreamingDestination | ExecuteStatement | ExecuteTransaction
  | ExportTableToPointInTime | GetItem | GetResourcePolicy | ImportTable | ListBackups
  | ListContributorInsights | ListExports | ListGlobalTables | ListImports | ListTables
  | ListTagsOfResource | PutItem | PutResourcePolicy | Query | RestoreTableFromBackup
  | RestoreTableToPointInTime | Scan | TagResource | TransactGetItems | TransactWriteItems
  | UntagResource | UpdateContinuousBackups | UpdateContributorInsights | UpdateGlobalTable
  | UpdateGlobalTableSettings | UpdateItem | UpdateKinesisStreamingDestination | UpdateTable
  | UpdateTableReplicaAutoScaling | UpdateTimeToLive

datatype sdk_waiter =
    WaitUntilContributorInsightsEnabled | WaitUntilExportCompleted | WaitUntilImportCompleted
  | WaitUntilKinesisStreamingDestinationActive | WaitUntilTableExists | WaitUntilTableNotExists

record 'c fluent_builder =
  fb_client :: 'c
  fb_operation :: sdk_operation
  fb_interceptors :: "shared_interceptor list"

text \<open>What a method of the SDK client gives: the builder of its operation, not customized.\<close>

definition sdk_fluent :: "'c \<Rightarrow> sdk_operation \<Rightarrow> 'c fluent_builder" where
  "sdk_fluent c op = \<lparr>fb_client = c, fb_operation = op, fb_interceptors = []\<rparr>"

section \<open>The methods of the client\<close>

definition batch_execute_statement :: "('u, 'c) alternator_client \<Rightarrow> 'c fluent_builder" where
  "batch_execute_statement self = sdk_fluent (dynamodb_client self) BatchExecuteStatement"

definition batch_get_item :: "('u, 'c) alternator_client \<Rightarrow> 'c fluent_builder" where
  "batch_get_item self = sdk_fluent (dynamodb_client self) BatchGetItem"

definition batch_write_item :: "('u, 'c) alternator_client \<Rightarrow> 'c fluent_builder" where
  "batch_write_item self = sdk_fluent (dynamodb_client self) BatchWriteItem"

definition create_backup :: "('u, 'c) alternator_client \<Rightarrow> 'c fluent_builder" where
  "create_backup self = sdk_fluent (dynamodb_client self) CreateBackup"

definition create_global_table :: "('u, 'c) alternator_client \<Rightarrow> 'c fluent_builder" where
  "create_global_table self = sdk_fluent (dynamodb_client self) CreateGlobalTable"

definition create_table :: "('u, 'c) alternator_client \<Rightarrow> 'c fluent_builder" where
  "create_table self = sdk_fluent (dynamodb_client self) CreateTable"

definition delete_backup :: "('u, 'c) alternator_client \<Rightarrow> 'c fluent_builder" where
  "delete_backup self = sdk_fluent (dynamodb_client self) DeleteBackup"

definition delete_item :: "('u, 'c) alternator_client \<Rightarrow> 'c fluent_builder" where
  "delete_item self = sdk_fluent (dynamodb_client self) DeleteItem"

definition delete_resource_policy :: "('u, 'c) alternator_client \<Rightarrow> 'c fluent_builder" where
  "delete_resource_policy self = sdk_fluent (dynamodb_client self) DeleteResourcePolicy"

definition delete_table :: "('u, 'c) alternator_client \<Rightarrow> 'c fluent_builder" where
  "delete_table self = sdk_fluent (dynamodb_client self) DeleteTable"

definition describe_backup :: "('u, 'c) alternator_client \<Rightarrow> 'c fluent_builder" where
  "describe_backup self = sdk_fluent (dynamodb_client self) DescribeBackup"

definition describe_continuous_backups :: "('u, 'c) alternator_client \<Rightarrow> 'c fluent_builder" where
  "describe_continuous_backups self = sdk_fluent (dynamodb_client self) DescribeContinuousBackups"

definition describe_contributor_insights :: "('u, 'c) alternator_client \<Rightarrow> 'c fluent_builder" where
  "describe_contributor_insights self = sdk_fluent (dynamodb_client self) DescribeContributorInsights"

definition describe_endpoints :: "('u, 'c) alternator_client \<Rightarrow> 'c fluent_builder" where
  "describe_endpoints self = sdk_fluent (dynamodb_client self) DescribeEndpoints"

definition describe_export :: "('u, 'c) alternator_client \<Rightarrow> 'c fluent_builder" where
  "describe_export self = sdk_fluent (dynamodb_client self) DescribeExport"

definition describe_global_table :: "('u, 'c) alternator_client \<Rightarrow> 'c fluent_builder" where
  "describe_global_table self = sdk_fluent (dynamodb_client self) DescribeGlobalTable"

definition describe_global_table_settings :: "('u, 'c) alternator_client \<Rightarrow> 'c fluent_builder" where
  "describe_global_table_settings self = sdk_fluent (dynamodb_client self) DescribeGlobalTableSettings"

definition describe_import :: "('u, 'c) alternator_client \<Rightarrow> 'c fluent_builder" where
  "describe_import self = sdk_fluent (dynamodb_client self) DescribeImport"

definition describe_kinesis_streaming_destination :: "('u, 'c) alternator_client \<Rightarrow> 'c fluent_builder" where
  "describe_kinesis_streaming_destination self = sdk_fluent (dynamodb_client self) DescribeKinesisStreamingDestination"

definition describe_limits :: "('u, 'c) alternator_client \<Rightarrow> 'c fluent_builder" where
  "describe_limits self = sdk_fluent (dynamodb_client self) DescribeLimits"

definition describe_table :: "('u, 'c) alternator_client \<Rightarrow> 'c fluent_builder" where
  "describe_table self = sdk_fluent (dynamodb_client self) DescribeTable"

definition describe_table_replica_auto_scaling :: "('u, 'c) alternator_client \<Rightarrow> 'c fluent_builder" where
  "describe_table_replica_auto_scaling self = sdk_fluent (dynamodb_client self) DescribeTableReplicaAutoScaling"

definition describe_time_to_live :: "('u, 'c) alternator_client \<Rightarrow> 'c fluent_builder" where
  "describe_time_to_live self = sdk_fluent (dynamodb_client self) DescribeTimeToLive"

definition disable_kinesis_streaming_destination :: "('u, 'c) alternator_client \<Rightarrow> 'c fluent_builder" where
  "disable_kinesis_streaming_destination self = sdk_fluent (dynamodb_client self) DisableKinesisStreamingDestination"

definition enable_kinesis_streaming_destination :: "('u, 'c) alternator_client \<Rightarrow> 'c fluent_builder" where
  "enable_kinesis_streaming_destination self = sdk_fluent (dynamodb_client self) EnableKinesisStreamingDestination"

definition execute_statement :: "('u, 'c) alternator_client \<Rightarrow> 'c fluent_builder" where
  "execute_statement self = sdk_fluent (dynamodb_client self) ExecuteStatement"

definition execute_transaction :: "('u, 'c) alternator_client \<Rightarrow> 'c fluent_builder" where
  "execute_transaction self = sdk_fluent (dynamodb_client self) ExecuteTransaction"

definition export_table_to_point_in_time :: "('u, 'c) alternator_client \<Rightarrow> 'c fluent_builder" where
  "export_table_to_point_in_time self = sdk_fluent (dynamodb_client self) ExportTableToPointInTime"

definition get_item :: "('u, 'c) alternator_client \<Rightarrow> 'c fluent_builder" where
  "get_item self = sdk_fluent (dynamodb_client self) GetItem"

definition get_resource_policy :: "('u, 'c) alternator_client \<Rightarrow> 'c fluent_builder" where
  "get_resource_policy self = sdk_fluent (dynamodb_client self) GetResourcePolicy"

definition import_table :: "('u, 'c) alternator_client \<Rightarrow> 'c fluent_builder" where
  "import_table self = sdk_fluent (dynamodb_client self) ImportTable"

definition list_backups :: "('u, 'c) alternator_client \<Rightarrow> 'c fluent_builder" where
  "list_backups self = sdk_fluent (dynamodb_client self) ListBackups"

definition list_contributor_insights :: "('u, 'c) alternator_client \<Rightarrow> 'c fluent_builder" where
  "list_contributor_insights self = sdk_fluent (dynamodb_client self) ListContributorInsights"

definition list_exports :: "('u, 'c) alternator_client \<Rightarrow> 'c fluent_builder" where
  "list_exports self = sdk_fluent (dynamodb_client self) ListExports"

definition list_global_tables :: "('u, 'c) alternator_client \<Rightarrow> 'c fluent_builder" where
  "list_global_tables self = sdk_fluent (dynamodb_client self) ListGlobalTables"

definition list_imports :: "('u, 'c) alternator_client \<Rightarrow> 'c fluent_builder" where
  "list_imports self = sdk_fluent (dynamodb_client self) ListImports"

definition list_tables :: "('u, 'c) alternator_client \<Rightarrow> 'c fluent_builder" where
  "list_tables self = sdk_fluent (dynamodb_client self) ListTables"

definition list_tags_of_resource :: "('u, 'c) alternator_client \<Rightarrow> 'c fluent_builder" where
  "list_tags_of_resource self = sdk_fluent (dynamodb_client self) ListTagsOfResource"

definition put_item :: "('u, 'c) alternator_client \<Rightarrow> 'c fluent_builder" where
  "put_item self = sdk_fluent (dynamodb_client self) PutItem"

definition put_resource_policy :: "('u, 'c) alternator_client \<Rightarrow> 'c fluent_builder" where
  "put_resource_policy self = sdk_fluent (dynamodb_client self) PutResourcePolicy"

definition query :: "('u, 'c) alternator_client \<Rightarrow> 'c fluent_builder" where
  "query self = sdk_fluent (dynamodb_client self) Query"

definition restore_table_from_backup :: "('u, 'c) alternator_client \<Rightarrow> 'c fluent_builder" where
  "restore_table_from_backup self = sdk_fluent (dynamodb_client self) RestoreTableFromBackup"

definition restore_table_to_point_in_time :: "('u, 'c) alternator_client \<Rightarrow> 'c fluent_builder" where
  "restore_table_to_point_in_time self = sdk_fluent (dynamodb_client self) RestoreTableToPointInTime"

definition scan :: "('u, 'c) alternator_client \<Rightarrow> 'c fluent_builder" where
  "scan self = sdk_fluent (dynamodb_client self) Scan"

definition tag_resource :: "('u, 'c) alternator_client \<Rightarrow> 'c fluent_builder" where
  "tag_resource self = sdk_fluent (dynamodb_client self) TagResource"

definition transact_get_items :: "('u, 'c) alternator_client \<Rightarrow> 'c fluent_builder" where
  "transact_get_items self = sdk_fluent (dynamodb_client self) TransactGetItems"

definition transact_write_items :: "('u, 'c) alternator_client \<Rightarrow> 'c fluent_builder" where
  "transact_write_items self = sdk_fluent (dynamodb_client self) TransactWriteItems"

definition untag_resource :: "('u, 'c) alternator_client \<Rightarrow> 'c fluent_builder" where
  "untag_resource self = sdk_fluent (dynamodb_client self) UntagResource"

definition update_continuous_backups :: "('u, 'c) alternator_client \<Rightarrow> 'c fluent_builder" where
  "update_continuous_backups self = sdk_fluent (dynamodb_client self) UpdateContinuousBackups"

definition update_contributor_insights :: "('u, 'c) alternator_client \<Rightarrow> 'c fluent_builder" where
  "update_contributor_insights self = sdk_fluent (dynamodb_client self) UpdateContributorInsights"

definition update_global_table :: "('u, 'c) alternator_client \<Rightarrow> 'c fluent_builder" where
  "update_global_table self = sdk_fluent (dynamodb_client self) UpdateGlobalTable"

definition update_global_table_settings :: "('u, 'c) alternator_client \<Rightarrow> 'c fluent_builder" where
  "update_global_table_settings self = sdk_fluent (dynamodb_client self) UpdateGlobalTableSettings"

definition update_item :: "('u, 'c) alternator_client \<Rightarrow> 'c fluent_builder" where
  "update_item self = sdk_fluent (dynamodb_client self) UpdateItem"

definition update_kinesis_streaming_destination :: "('u, 'c) alternator_client \<Rightarrow> 'c fluent_builder" where
  "update_kinesis_streaming_destination self = sdk_fluent (dynamodb_client self) UpdateKinesisStreamingDestination"

definition update_table :: "('u, 'c) alternator_client \<Rightarrow> 'c fluent_builder" where
  "update_table self = sdk_fluent (dynamodb_client self) UpdateTable"

definition update_table_replica_auto_scaling :: "('u, 'c) alternator_client \<Rightarrow> 'c fluent_builder" where
  "update_table_replica_auto_scaling self = sdk_fluent (dynamodb_client self) UpdateTableReplicaAutoScaling"

definition update_time_to_live :: "('u, 'c) alternator_client \<Rightarrow> 'c fluent_builder" where
  "update_time_to_live self = sdk_fluent (dynamodb_client self) UpdateTimeToLive"

section \<open>The waiters\<close>

definition wait_until_contributor_insights_enabled :: "('u, 'c) alternator_client \<Rightarrow> 'c \<times> sdk_waiter" where
  "wait_until_contributor_insights_enabled self = (dynamodb_client self, WaitUntilContributorInsightsEnabled)"

definition wait_until_export_completed :: "('u, 'c) alternator_client \<Rightarrow> 'c \<times> sdk_waiter" where
  "wait_until_export_completed self = (dynamodb_client self, WaitUntilExportCompleted)"

definition wait_until_import_completed :: "('u, 'c) alternator_client \<Rightarrow> 'c \<times> sdk_waiter" where
  "wait_until_import_completed self = (dynamodb_client self, WaitUntilImportCompleted)"

definition wait_until_kinesis_streaming_destination_active :: "('u, 'c) alternator_client \<Rightarrow> 'c \<times> sdk_waiter" where
  "wait_until_kinesis_streaming_destination_active self = (dynamodb_client self, WaitUntilKinesisStreamingDestinationActive)"

definition wait_until_table_exists :: "('u, 'c) alternator_client \<Rightarrow> 'c \<times> sdk_waiter" where
  "wait_until_table_exists self = (dynamodb_client self, WaitUntilTableExists)"

definition wait_until_table_not_exists :: "('u, 'c) alternator_client \<Rightarrow> 'c \<times> sdk_waiter" where
  "wait_until_table_not_exists self = (dynamodb_client self, WaitUntilTableNotExists)"

section \<open>Facts\<close>

definition all_operations :: "('u, 'c) alternator_client \<Rightarrow> 'c fluent_builder list" where
  "all_operations self =
     [batch_execute_statement self, batch_get_item self, batch_write_item self
      , create_backup self, create_global_table self, create_table self, delete_backup self
      , delete_item self, delete_resource_policy self, delete_table self, describe_backup self
      , describe_continuous_backups self, describe_contributor_insights self
      , describe_endpoints self, describe_export self, describe_global_table self
      , describe_global_table_settings self, describe_import self
      , describe_kinesis_streaming_destination self, describe_limits self, describe_table self
      , describe_table_replica_auto_scaling self, describe_time_to_live self
      , disable_kinesis_streaming_destination self, enable_kinesis_streaming_destination self
      , execute_statement self, execute_transaction self, export_table_to_point_in_time self
      , get_item self, get_resource_policy self, import_table self, list_backups self
      , list_contributor_insights self, list_exports self, list_global_tables self
      , list_imports self, list_tables self, list_tags_of_resource self, put_item self
      , put_resource_policy self, query self, restore_table_from_backup self
      , restore_table_to_point_in_time self, scan self, tag_resource self
      , transact_get_items self, transact_write_items self, untag_resource self
      , update_continuous_backups self, update_contributor_insights self
      , update_global_table self, update_global_table_settings self, update_item self
      , update_kinesis_streaming_destination self, update_table self
      , update_table_replica_auto_scaling self, update_time_to_live self]"

lemmas operation_defs =
  batch_execute_statement_def batch_get_item_def batch_write_item_def create_backup_def
  create_global_table_def create_table_def delete_backup_def delete_item_def
  delete_resource_policy_def delete_table_def describe_backup_def
  describe_continuous_backups_def describe_contributor_insights_def describe_endpoints_def
  describe_export_def describe_global_table_def describe_global_table_settings_def
  describe_import_def describe_kinesis_streaming_destination_def describe_limits_def
  describe_table_def describe_table_replica_auto_scaling_def describe_time_to_live_def
  disable_kinesis_streaming_destination_def enable_kinesis_streaming_destination_def
  execute_statement_def execute_transaction_def export_table_to_point_in_time_def get_item_def
  get_resource_policy_def import_table_def list_backups_def list_contributor_insights_def
  list_exports_def list_global_tables_def list_imports_def list_tables_def
  list_tags_of_resource_def put_item_def put_resource_policy_def query_def
  restore_table_from_backup_def restore_table_to_point_in_time_def scan_def tag_resource_def
  transact_get_items_def transact_write_items_def untag_resource_def
  update_continuous_backups_def update_contributor_insights_def update_global_table_def
  update_global_table_settings_def update_item_def update_kinesis_streaming_destination_def
  update_table_def update_table_replica_auto_scaling_def update_time_to_live_def

lemma all_operations_eq:
  "all_operations self = map (sdk_fluent (dynamodb_client self))
     [BatchExecuteStatement, BatchGetItem, BatchWriteItem, CreateBackup, CreateGlobalTable
      , CreateTable, DeleteBackup, DeleteItem, DeleteResourcePolicy, DeleteTable, DescribeBackup
      , DescribeContinuousBackups, DescribeContributorInsights, DescribeEndpoints
      , DescribeExport, DescribeGlobalTable, DescribeGlobalTableSettings, DescribeImport
      , DescribeKinesisStreamingDestination, DescribeLimits, DescribeTable
      , DescribeTableReplicaAutoScaling, DescribeTimeToLive, DisableKinesisStreamingDestination
      , EnableKinesisStreamingDestination, ExecuteStatement, ExecuteTransaction
      , ExportTableToPointInTime, GetItem, GetResourcePolicy, ImportTable, ListBackups
      , ListContributorInsights, ListExports, ListGlobalTables, ListImports, ListTables
      , ListTagsOfResource, PutItem, PutResourcePolicy, Query, RestoreTableFromBackup
      , RestoreTableToPointInTime, Scan, TagResource, TransactGetItems, TransactWriteItems
      , UntagResource, UpdateContinuousBackups, UpdateContributorInsights, UpdateGlobalTable
      , UpdateGlobalTableSettings, UpdateItem, UpdateKinesisStreamingDestination, UpdateTable
      , UpdateTableReplicaAutoScaling, UpdateTimeToLive]"
  by (simp add: all_operations_def operation_defs)

lemma all_operations_client:
  assumes "b \<in> set (all_operations self)"
  shows "fb_client b = dynamodb_client self" "fb_interceptors b = []"
  using assms unfolding all_operations_eq by (auto simp: sdk_fluent_def)

text \<open>Every operation of the SDK has its method.\<close>

lemma all_operations_complete: "\<exists>b \<in> set (all_operations self). fb_operation b = op"
  unfolding all_operations_eq by (cases op) (simp_all add: sdk_fluent_def)

end
