(* ===== verification/Client_Construction.thy ===== *)
theory Client_Construction
  imports Client Discovery_Manager
begin

text \<open>
  What a constructed client is: its SDK settings, its interceptors, when it may send unsigned
  requests, direct routing, the order in which a configuration is refused, and what stopping it
  guarantees.
\<close>

section \<open>Settings along the construction\<close>

lemma try_dynamodb_Inr:
  assumes "sdk_law S" and "try_dynamodb_client_from_conf S VB cfg = Inr client"
  obtains h c where "s_http_client (c_settings S cfg) = Some h"
    and "c_settings S client = (c_settings S cfg)\<lparr>s_http_client := Some (SdkConfigValidation h c),
           s_identity_cache := Some (ValidatedIdentityCache h c)\<rparr>"
  using assms(2) unfolding try_dynamodb_client_from_conf_def Let_def
  by (auto simp: sdk_lawD [OF assms(1)] split: option.splits)

lemma try_from_conf_Inr:
  assumes "try_from_conf S VB U env fits rt now config = Inr client"
  obtains live b routing live' keys where
    "\<not> timeout_refused fits config" and "try_new S U env now config = Inr live"
    and "choose_transport S U env config live (base_builder S config) = Inr b"
    and "\<not> x_stalled_stream_protection_explicitly_unset (config_ext config)"
    and "choose_routing S VB config live (default_region S config b) = Inr (routing, live', keys)"
    and "try_dynamodb_client_from_conf S VB (sdk_build S (case routing of
           None \<Rightarrow> default_region S config b
         | Some i \<Rightarrow> sdk_do S (PushInterceptor i) (default_region S config b))) = Inr (dynamodb_client client)"
    and "client_config client = config"
    and "topology client = (case live' of None \<Rightarrow> [] | Some st \<Rightarrow> [start_discovery_of rt now st])"
    and "partition_keys client = keys"
  using assms unfolding try_from_conf_def Let_def validate_sdk_default_config_def
  by (auto split: if_splits sum.splits option.splits prod.splits)

lemma base_builder_settings:
  assumes "sdk_law S"
  shows "b_settings S (base_builder S config) = (c_settings S (dynamodb_config config))
      \<lparr>s_credentials_provider := (case config_credentials_provider config of
           None \<Rightarrow> s_credentials_provider (c_settings S (dynamodb_config config)) | Some p \<Rightarrow> Some p),
       s_allow_no_auth := s_allow_no_auth (c_settings S (dynamodb_config config))
         \<or> config_credentials_provider config = None \<and> \<not> config_requires_auth config
           \<and> \<not> config_allows_no_auth config,
       s_interceptors := s_interceptors (c_settings S (dynamodb_config config))
         @ [AlternatorInterceptor (client_interceptor config)]\<rparr>"
  by (auto simp: base_builder_def Let_def sdk_lawD [OF assms] split: option.split)

lemma choose_transport_Inr:
  assumes "sdk_law S" and "choose_transport S U env config live b0 = Inr b"
  shows "\<exists>h. b_settings S b = (b_settings S b0)\<lparr>s_http_client := h\<rparr>"
proof -
  have id: "\<exists>h. s = s\<lparr>s_http_client := h\<rparr>" for s :: sdk_settings
    by (rule exI [of _ "s_http_client s"]) simp
  show ?thesis
    using assms(2) id unfolding choose_transport_def Let_def
    by (auto simp: sdk_lawD [OF assms(1)] split: option.splits if_splits)
qed

lemma default_region_settings:
  assumes "sdk_law S"
  shows "b_settings S (default_region S config b) = (b_settings S b)
      \<lparr>s_region := (if config_region S config = None then Some ''us-east-1'' else s_region (b_settings S b))\<rparr>"
  by (simp add: default_region_def sdk_lawD [OF assms])

definition pk_timeouts :: "'c alternator_config \<Rightarrow> timeout_config option \<Rightarrow> timeout_config option" where
  "pk_timeouts config t =
     (case config_discovery_timeout config of
        None \<Rightarrow> t
      | Some timeout \<Rightarrow>
          Some ((case t of None \<Rightarrow> timeout_builder | Some t \<Rightarrow> t)
            \<lparr>operation_timeout := Some timeout, operation_attempt_timeout := Some timeout\<rparr>))"

lemma pk_builder_settings:
  assumes "sdk_law S" and "s_timeout_config (b_settings S b) = config_timeout_config S config"
  shows "b_settings S (pk_builder S config b) = (b_settings S b)
      \<lparr>s_interceptors := s_interceptors (b_settings S b) @ [RoundRobinQueryPlanInterceptor OrdinaryHandle],
       s_timeout_config := pk_timeouts config (s_timeout_config (b_settings S b))\<rparr>"
  by (cases "config_discovery_timeout config")
    (simp_all add: pk_builder_def pk_timeouts_def Let_def sdk_lawD [OF assms(1)] assms(2))

text \<open>
  The settings that a configuration with the SDK settings \<open>cfg\<close> gives a client, with the
  interceptors \<open>extra\<close> after the main one; transport and identity cache are left open.
\<close>

definition base_settings :: "'c alternator_config \<Rightarrow> sdk_settings \<Rightarrow> shared_interceptor list \<Rightarrow> sdk_settings" where
  "base_settings config cfg extra = cfg
     \<lparr>s_credentials_provider := (case config_credentials_provider config of
          None \<Rightarrow> s_credentials_provider cfg | Some p \<Rightarrow> Some p),
      s_allow_no_auth := s_allow_no_auth cfg \<or> config_credentials_provider config = None
        \<and> \<not> config_requires_auth config \<and> \<not> config_allows_no_auth config,
      s_interceptors := s_interceptors cfg @ AlternatorInterceptor (client_interceptor config) # extra,
      s_region := (if s_region cfg = None then Some ''us-east-1'' else s_region cfg)\<rparr>"

lemma client_settings:
  assumes "sdk_law S" and "try_from_conf S VB U env fits rt now config = Inr client"
    and "cfg = c_settings S (dynamodb_config config)"
  obtains live live' routing keys b h c where
    "try_new S U env now config = Inr live"
    and "choose_routing S VB config live b = Inr (routing, live', keys)"
    and "topology client = (case live' of None \<Rightarrow> [] | Some st \<Rightarrow> [start_discovery_of rt now st])"
    and "partition_keys client = keys"
    and "c_settings S (dynamodb_client client) = (base_settings config cfg (case routing of None \<Rightarrow> [] | Some i \<Rightarrow> [i]))
      \<lparr>s_http_client := h, s_identity_cache := c\<rparr>"
    and "\<And>r pk. keys = Some (r, pk) \<Longrightarrow> \<exists>h c. c_settings S pk =
      (base_settings config cfg [RoundRobinQueryPlanInterceptor OrdinaryHandle])
        \<lparr>s_http_client := h, s_identity_cache := c, s_timeout_config := pk_timeouts config (s_timeout_config cfg)\<rparr>"
  using assms(2)
proof (rule try_from_conf_Inr)
  fix live b routing live' keys
  assume new: "try_new S U env now config = Inr live"
    and tr: "choose_transport S U env config live (base_builder S config) = Inr b"
    and rt: "choose_routing S VB config live (default_region S config b) = Inr (routing, live', keys)"
    and dy: "try_dynamodb_client_from_conf S VB (sdk_build S (case routing of
           None \<Rightarrow> default_region S config b
         | Some i \<Rightarrow> sdk_do S (PushInterceptor i) (default_region S config b))) = Inr (dynamodb_client client)"
    and top: "topology client = (case live' of None \<Rightarrow> [] | Some st \<Rightarrow> [start_discovery_of rt now st])"
    and keys: "partition_keys client = keys"
  obtain h0 where h0: "b_settings S b = (b_settings S (base_builder S config))\<lparr>s_http_client := h0\<rparr>"
    using choose_transport_Inr [OF assms(1) tr] by blast
  let ?b = "default_region S config b"
  have reg: "config_region S config = s_region cfg" by (simp add: config_region_def assms(3))
  have b: "b_settings S ?b = (base_settings config cfg [])\<lparr>s_http_client := h0\<rparr>"
    unfolding default_region_settings [OF assms(1)] h0 base_builder_settings [OF assms(1)] reg assms(3) [symmetric]
    by (simp add: base_settings_def)
  have built: "\<exists>h c. c_settings S cl = (b_settings S bd)\<lparr>s_http_client := h, s_identity_cache := c\<rparr>"
    if "try_dynamodb_client_from_conf S VB (sdk_build S bd) = Inr cl" for bd cl
    by (rule try_dynamodb_Inr [OF assms(1) that]) (auto simp: sdk_lawD(4) [OF assms(1)])
  obtain h c where client: "c_settings S (dynamodb_client client) =
      (b_settings S (case routing of None \<Rightarrow> ?b | Some i \<Rightarrow> sdk_do S (PushInterceptor i) ?b))
      \<lparr>s_http_client := h, s_identity_cache := c\<rparr>"
    using built [OF dy] by blast
  show thesis
  proof (rule that [OF new rt top keys])
    show "c_settings S (dynamodb_client client) =
      (base_settings config cfg (case routing of None \<Rightarrow> [] | Some i \<Rightarrow> [i]))\<lparr>s_http_client := h, s_identity_cache := c\<rparr>"
      unfolding client by (cases routing) (simp_all add: sdk_lawD(2) [OF assms(1)] b base_settings_def)
    fix r pk assume "keys = Some (r, pk)"
    with rt have "try_dynamodb_client_from_conf S VB (sdk_build S (pk_builder S config ?b)) = Inr pk"
      unfolding choose_routing_def by (auto split: option.splits sum.splits prod.splits)
    from built [OF this] obtain h' c' where
      pk: "c_settings S pk = (b_settings S (pk_builder S config ?b))\<lparr>s_http_client := h', s_identity_cache := c'\<rparr>"
      by blast
    have "s_timeout_config (b_settings S ?b) = config_timeout_config S config"
      by (simp add: b base_settings_def config_timeout_config_def assms(3))
    from pk_builder_settings [OF assms(1) this]
    show "\<exists>h c. c_settings S pk = (base_settings config cfg [RoundRobinQueryPlanInterceptor OrdinaryHandle])
        \<lparr>s_http_client := h, s_identity_cache := c, s_timeout_config := pk_timeouts config (s_timeout_config cfg)\<rparr>"
      unfolding pk b by (intro exI [of _ h'] exI [of _ c']) (simp add: base_settings_def)
  qed
qed

section \<open>Authentication\<close>

text \<open>Both SDK clients of a client have the base settings, up to components and timeouts.\<close>

lemma client_base_settings:
  assumes "sdk_law S" and "try_from_conf S VB U env fits rt now config = Inr client"
    and "cl = dynamodb_client client \<or> (\<exists>r. partition_keys client = Some (r, cl))"
  shows "\<exists>extra h c t. c_settings S cl = (base_settings config (c_settings S (dynamodb_config config)) extra)
    \<lparr>s_http_client := h, s_identity_cache := c, s_timeout_config := t\<rparr>"
  using assms(1,2) refl
proof (rule client_settings)
  fix live live' routing keys b0 h c
  assume main: "c_settings S (dynamodb_client client) =
      (base_settings config (c_settings S (dynamodb_config config))
        (case routing of None \<Rightarrow> [] | Some i \<Rightarrow> [i]))\<lparr>s_http_client := h, s_identity_cache := c\<rparr>"
    and pk: "\<And>r pk. keys = Some (r, pk) \<Longrightarrow> \<exists>h c. c_settings S pk =
      (base_settings config (c_settings S (dynamodb_config config)) [RoundRobinQueryPlanInterceptor OrdinaryHandle])
      \<lparr>s_http_client := h, s_identity_cache := c,
       s_timeout_config := pk_timeouts config (s_timeout_config (c_settings S (dynamodb_config config)))\<rparr>"
    and keys: "partition_keys client = keys"
  have keep: "x\<lparr>s_http_client := h, s_identity_cache := c\<rparr> =
      x\<lparr>s_http_client := h, s_identity_cache := c, s_timeout_config := s_timeout_config x\<rparr>" for x :: sdk_settings
    by simp
  from assms(3) show ?thesis
  proof
    assume "cl = dynamodb_client client"
    then show ?thesis using trans [OF main keep] by blast
  next
    assume "\<exists>r. partition_keys client = Some (r, cl)"
    then obtain r where "keys = Some (r, cl)" using keys by auto
    from pk [OF this] show ?thesis by blast
  qed
qed

text \<open>
  C21: a client sends unsigned requests only where it was told or left to. For a configuration
  built by any sequence of builder calls, the clients made from it (the main one and the one
  that describes tables) have the SDK's no-auth mode exactly when unsigned requests were
  permitted explicitly, or no credentials provider is configured and authentication is not
  required; a configured provider is the one that signs.
\<close>

theorem unsigned_only_when_permitted:
  assumes "sdk_law S" and "list_all available ks" and "run_calls S ks (builder_new S) = Some b"
    and "try_from_conf S VB U env fits rt now (build S U b) = Inr client"
    and "cl = dynamodb_client client \<or> (\<exists>r. partition_keys client = Some (r, cl))"
  shows "(s_allow_no_auth (c_settings S cl) \<longleftrightarrow>
      SetAllowNoAuth \<in> set ks
      \<or> x_credentials_provider (alternator_ext b) = None \<and> \<not> last_require ks False)
    \<and> (last_require ks False \<longrightarrow> \<not> s_allow_no_auth (c_settings S cl))
    \<and> (\<forall>p. x_credentials_provider (alternator_ext b) = Some p \<longrightarrow>
         s_credentials_provider (c_settings S cl) = Some p)"
proof -
  note cfg = build_settings [OF assms(1), of U b]
  have auth: "x_require_auth (alternator_ext b) = last_require ks False"
    "x_allow_no_auth (alternator_ext b) = (SetAllowNoAuth \<in> set ks)"
    "s_allow_no_auth (b_settings S (dynamodb_builder b)) = (SetAllowNoAuth \<in> set ks)"
    "\<not> (x_require_auth (alternator_ext b) \<and> x_allow_no_auth (alternator_ext b))"
    using run_calls_auth [OF assms(1) assms(3,2)]
    by (auto simp: builder_new_def default_extensions_def empty_settings_def sdk_lawD(1) [OF assms(1)])
  obtain extra h c t where cl: "c_settings S cl =
      (base_settings (build S U b) (c_settings S (dynamodb_config (build S U b))) extra)
        \<lparr>s_http_client := h, s_identity_cache := c, s_timeout_config := t\<rparr>"
    using client_base_settings [OF assms(1,4,5)] by blast
  let ?creds = "x_credentials_provider (alternator_ext b)"
  have config: "config_credentials_provider (build S U b) = ?creds"
    "config_requires_auth (build S U b) = x_require_auth (alternator_ext b)"
    "config_allows_no_auth (build S U b) = x_allow_no_auth (alternator_ext b)"
    by (simp_all add: config_credentials_provider_def config_requires_auth_def config_allows_no_auth_def cfg)
  have allow: "s_allow_no_auth (c_settings S cl) \<longleftrightarrow> s_allow_no_auth (b_settings S (dynamodb_builder b))
      \<or> ?creds = None \<and> \<not> x_require_auth (alternator_ext b) \<and> \<not> x_allow_no_auth (alternator_ext b)"
    unfolding cl by (simp add: base_settings_def config cfg stamp_def)
  have creds: "s_credentials_provider (c_settings S cl) = Some p" if "?creds = Some p" for p
    unfolding cl by (simp add: base_settings_def config that)
  show ?thesis
    using allow creds auth by blast
qed

section \<open>Interceptors\<close>

lemma try_new_live:
  assumes "try_new S U env now config = Inr live"
  shows "live = None \<longleftrightarrow> config_without_discovery config"
    and "live = Some st \<Longrightarrow> \<exists>m. manager st = Some m"
    and "live = Some st \<Longrightarrow>
      view_scope (ordinary_view st) = (case config_routing_scope config of None \<Rightarrow> from_cluster | Some s \<Rightarrow> s)"
proof -
  show "live = None \<longleftrightarrow> config_without_discovery config"
    using assms by (auto simp: try_new_cases split: if_splits sum.splits)
  have "build_live_nodes S U env now config urls = Inr st \<Longrightarrow> (\<exists>m. manager st = Some m)
      \<and> view_scope (ordinary_view st) = (case config_routing_scope config of None \<Rightarrow> from_cluster | Some s \<Rightarrow> s)" for st urls
    by (elim build_live_nodes_Inr) (auto simp: view_new_def)
  then show "live = Some st \<Longrightarrow> \<exists>m. manager st = Some m"
    and "live = Some st \<Longrightarrow>
      view_scope (ordinary_view st) = (case config_routing_scope config of None \<Rightarrow> from_cluster | Some s \<Rightarrow> s)"
    using assms by (auto simp: try_new_cases split: if_splits sum.splits)
qed

definition routing_interceptors :: "'c alternator_config \<Rightarrow> shared_interceptor list" where
  "routing_interceptors config =
     (if config_without_discovery config then []
      else case enabled_affinity config of
          None \<Rightarrow> [RoundRobinQueryPlanInterceptor OrdinaryHandle]
        | Some cfg \<Rightarrow>
            [AffinityQueryPlanInterceptor \<lparr>a_config = cfg, a_routing_nodes = OrdinaryHandle,
               a_affinity_nodes = (if has_rack_restriction (case config_routing_scope config of
                  None \<Rightarrow> from_cluster | Some s \<Rightarrow> s) then AuxiliaryHandle else OrdinaryHandle)\<rparr>])"

lemma choose_routing_Inr:
  assumes "try_new S U env now config = Inr live"
    and "choose_routing S VB config live b = Inr (routing, live', keys)"
  shows "(case routing of None \<Rightarrow> [] | Some i \<Rightarrow> [i]) = routing_interceptors config"
    and "live' = None \<longleftrightarrow> config_without_discovery config"
    and "keys = None \<longleftrightarrow> config_without_discovery config \<or> enabled_affinity config = None"
    and "keys = Some (r, pk) \<Longrightarrow> \<exists>cfg. enabled_affinity config = Some cfg
          \<and> r = new_with_timeout (pk_info_per_table cfg) (config_discovery_timeout config)"
    and "live' = Some st' \<Longrightarrow> \<exists>st. live = Some st \<and> manager st' = manager st \<and> ordinary_view st' = ordinary_view st"
proof -
  have view: "manager (snd (affinity_view st)) = manager st \<and> ordinary_view (snd (affinity_view st)) = ordinary_view st"
    for st :: "'a live_state"
    by (simp add: affinity_view_def split: option.split)
  note live = try_new_live [OF assms(1)]
  show "(case routing of None \<Rightarrow> [] | Some i \<Rightarrow> [i]) = routing_interceptors config"
    using assms(2) live unfolding choose_routing_def routing_interceptors_def affinity_view_def
    by (auto split: option.splits if_splits sum.splits prod.splits)
  show "live' = None \<longleftrightarrow> config_without_discovery config"
    and "keys = None \<longleftrightarrow> config_without_discovery config \<or> enabled_affinity config = None"
    and "keys = Some (r, pk) \<Longrightarrow> \<exists>cfg. enabled_affinity config = Some cfg
          \<and> r = new_with_timeout (pk_info_per_table cfg) (config_discovery_timeout config)"
    using assms(2) live(1) unfolding choose_routing_def
    by (auto split: option.splits sum.splits prod.splits)
  show "live' = Some st' \<Longrightarrow> \<exists>st. live = Some st \<and> manager st' = manager st \<and> ordinary_view st' = ordinary_view st"
    using assms(2) view unfolding choose_routing_def
    by (auto split: option.splits sum.splits prod.splits) (metis snd_conv)+
qed

lemma client_main_interceptors:
  assumes "sdk_law S" and "try_from_conf S VB U env fits rt now config = Inr client"
  shows "s_interceptors (c_settings S (dynamodb_client client)) =
    s_interceptors (c_settings S (dynamodb_config config))
      @ AlternatorInterceptor (client_interceptor config) # routing_interceptors config"
  using assms refl
proof (rule client_settings)
  fix live live' routing keys b0 h c
  assume new: "try_new S U env now config = Inr live"
    and rt: "choose_routing S VB config live b0 = Inr (routing, live', keys)"
    and main: "c_settings S (dynamodb_client client) =
        (base_settings config (c_settings S (dynamodb_config config)) (case routing of None \<Rightarrow> [] | Some i \<Rightarrow> [i]))
        \<lparr>s_http_client := h, s_identity_cache := c\<rparr>"
  show ?thesis
    unfolding main choose_routing_Inr(1) [OF new rt] by (simp add: base_settings_def)
qed

text \<open>
  C20: the interceptors of a client. They are the user's own, in their order, then the main one
  with the configured behaviour, then at most one routing interceptor: none with direct routing,
  key route affinity when it is enabled (over the rack-widened view exactly when a scope of the
  chain is restricted to a rack), round robin otherwise. The client that describes tables exists
  exactly with affinity and is itself routed by round robin, so that describing a table never
  asks for another one; it has the discovery deadline as both of its operation timeouts.
\<close>

theorem client_interceptors:
  assumes "sdk_law S" and "try_from_conf S VB U env fits rt now config = Inr client"
    and "cfg = c_settings S (dynamodb_config config)"
  shows "s_interceptors (c_settings S (dynamodb_client client)) =
      s_interceptors cfg @ AlternatorInterceptor (client_interceptor config) # routing_interceptors config
    \<and> (partition_keys client = None \<longleftrightarrow> config_without_discovery config \<or> enabled_affinity config = None)
    \<and> (case partition_keys client of None \<Rightarrow> True
       | Some (r, pk) \<Rightarrow>
           s_interceptors (c_settings S pk) = s_interceptors cfg
             @ [AlternatorInterceptor (client_interceptor config), RoundRobinQueryPlanInterceptor OrdinaryHandle]
           \<and> (\<forall>t. config_discovery_timeout config = Some t \<longrightarrow>
               (\<exists>tc. s_timeout_config (c_settings S pk) = Some tc
                  \<and> operation_timeout tc = Some t \<and> operation_attempt_timeout tc = Some t))
           \<and> (\<exists>a. enabled_affinity config = Some a \<and> cache r = pk_info_per_table a))"
  using assms(1,2,3)
proof (rule client_settings)
  fix live live' routing keys b0 h c
  assume new: "try_new S U env now config = Inr live"
    and rt: "choose_routing S VB config live b0 = Inr (routing, live', keys)"
    and keys: "partition_keys client = keys"
    and main: "c_settings S (dynamodb_client client) =
        (base_settings config cfg (case routing of None \<Rightarrow> [] | Some i \<Rightarrow> [i]))\<lparr>s_http_client := h, s_identity_cache := c\<rparr>"
    and pk: "\<And>r pk. keys = Some (r, pk) \<Longrightarrow> \<exists>h c. c_settings S pk =
        (base_settings config cfg [RoundRobinQueryPlanInterceptor OrdinaryHandle])
        \<lparr>s_http_client := h, s_identity_cache := c, s_timeout_config := pk_timeouts config (s_timeout_config cfg)\<rparr>"
  note routing = choose_routing_Inr [OF new rt]
  note one = client_main_interceptors [OF assms(1,2), folded assms(3)]
  have two: "s_interceptors (c_settings S cl) = s_interceptors cfg
             @ [AlternatorInterceptor (client_interceptor config), RoundRobinQueryPlanInterceptor OrdinaryHandle]
           \<and> (\<forall>t. config_discovery_timeout config = Some t \<longrightarrow>
               (\<exists>tc. s_timeout_config (c_settings S cl) = Some tc
                  \<and> operation_timeout tc = Some t \<and> operation_attempt_timeout tc = Some t))
           \<and> (\<exists>a. enabled_affinity config = Some a \<and> cache r = pk_info_per_table a)"
    if k: "keys = Some (r, cl)" for r cl
  proof -
    obtain h c where "c_settings S cl = (base_settings config cfg [RoundRobinQueryPlanInterceptor OrdinaryHandle])
        \<lparr>s_http_client := h, s_identity_cache := c, s_timeout_config := pk_timeouts config (s_timeout_config cfg)\<rparr>"
      using pk [OF k] by blast
    with routing(4) [OF k] show ?thesis
      by (auto simp: base_settings_def pk_timeouts_def new_with_timeout_def)
  qed
  show ?thesis
    using one two routing(3) by (simp add: keys split: option.split prod.split)
qed

section \<open>Direct routing\<close>

text \<open>
  direct routing stays direct. A client built with discovery turned off has no discovery
  state, no resolver and no routing interceptor, so that nothing rewrites its requests, and the
  endpoint of its SDK client is the URL of the first seed host with the configured scheme and
  port; there is such a URL, or the client would not have been built.
\<close>

theorem direct_client:
  assumes "sdk_law S" and "x_without_discovery (alternator_ext b)"
    and "try_from_conf S VB U env fits rt now (build S U b) = Inr client"
  shows "topology client = [] \<and> partition_keys client = None
    \<and> s_interceptors (c_settings S (dynamodb_client client)) =
        s_interceptors (b_settings S (dynamodb_builder b)) @ [AlternatorInterceptor (client_interceptor (build S U b))]
    \<and> (\<exists>seed rest url. x_seed_hosts (alternator_ext b) = Some (seed # rest)
        \<and> build_seed_url U (case x_scheme (alternator_ext b) of None \<Rightarrow> ''http'' | Some s \<Rightarrow> s) seed
             (x_port (alternator_ext b)) = Inr url
        \<and> s_endpoint_url (c_settings S (dynamodb_client client)) = Some (as_str U url))"
  using assms(1,3) refl
proof (rule client_settings)
  let ?config = "build S U b"
  fix live live' routing keys b0 h c
  assume new: "try_new S U env now ?config = Inr live"
    and rt: "choose_routing S VB ?config live b0 = Inr (routing, live', keys)"
    and top: "topology client = (case live' of None \<Rightarrow> [] | Some st \<Rightarrow> [start_discovery_of rt now st])"
    and keys: "partition_keys client = keys"
    and main: "c_settings S (dynamodb_client client) =
        (base_settings ?config (c_settings S (dynamodb_config ?config)) (case routing of None \<Rightarrow> [] | Some i \<Rightarrow> [i]))
        \<lparr>s_http_client := h, s_identity_cache := c\<rparr>"
  note bs = build_settings [OF assms(1)]
  have direct: "config_without_discovery ?config"
    by (simp add: config_without_discovery_def bs assms(2))
  note routing = choose_routing_Inr [OF new rt]
  have scheme: "scheme_or_http ?config = (case x_scheme (alternator_ext b) of None \<Rightarrow> ''http'' | Some s \<Rightarrow> s)"
    by (simp add: scheme_or_http_def config_scheme_def bs)
  from new direct obtain seed rest where seeds: "x_seed_hosts (alternator_ext b) = Some (seed # rest)"
    and "\<exists>urls. collect_seed_urls U (scheme_or_http ?config) (config_port ?config) [seed] = Inr urls"
    by (auto simp: try_new_cases probed_seeds_def config_seed_hosts_def bs neq_Nil_conv
        simp del: collect_seed_urls.simps split: if_splits sum.splits)
  then obtain url where url: "build_seed_url U (scheme_or_http ?config) seed (x_port (alternator_ext b)) = Inr url"
    by (auto simp: config_port_def bs split: sum.splits)
  have "s_endpoint_url (c_settings S (dynamodb_client client)) = endpoint_url U (alternator_ext b)"
    unfolding main by (simp add: base_settings_def bs)
  also have "\<dots> = Some (as_str U url)"
    using url by (simp add: endpoint_url_def seeds scheme Let_def)
  finally show ?thesis
    using routing(1-3) direct seeds url top keys
    by (simp add: routing_interceptors_def main base_settings_def bs scheme stamp_def)
qed

section \<open>Refused configurations\<close>

lemma try_dynamodb_error:
  "try_dynamodb_client_from_conf S VB cfg = Inl e \<Longrightarrow> \<exists>m. e = SdkConfiguration m"
  unfolding try_dynamodb_client_from_conf_def Let_def by (auto split: option.splits)

lemma choose_routing_error:
  "choose_routing S VB config live b = Inl e \<Longrightarrow> \<exists>m. e = SdkConfiguration m"
  unfolding choose_routing_def
  by (auto split: option.splits sum.splits prod.splits dest: try_dynamodb_error)

lemma choose_transport_error:
  assumes "try_new S U env now config = Inr live"
  shows "choose_transport S U env config live b = Inl m \<longleftrightarrow>
    config_without_discovery config \<and> is_https (scheme_or_http config) \<and> config_http_client S config = None
    \<and> ensure_native_roots_are_usable env = Some m"
  using try_new_live(1) [OF assms]
  by (auto simp: choose_transport_def Let_def split: option.splits if_splits)

text \<open>Conversely nothing else is refused, as long as the SDK's own validation is content.\<close>

lemma choose_transport_http:
  assumes "sdk_law S" and "choose_transport S U env config live (base_builder S config) = Inr b"
  shows "s_http_client (b_settings S b) \<noteq> None"
proof (cases "config_http_client S config")
  case None
  with assms(2) show ?thesis
    by (auto simp: choose_transport_def Let_def sdk_lawD(2) [OF assms(1)] split: option.splits)
next
  case (Some h)
  with assms(2) have "b = base_builder S config"
    by (auto simp: choose_transport_def Let_def split: option.splits)
  with Some show ?thesis by (simp add: base_builder_settings [OF assms(1)] config_http_client_def)
qed

lemma try_dynamodb_accepts:
  assumes "s_http_client (c_settings S cfg) \<noteq> None"
  shows "\<exists>client. try_dynamodb_client_from_conf S (\<lambda>c rc. None) cfg = Inr client"
  using assms by (auto simp: try_dynamodb_client_from_conf_def Let_def first_error_def)

lemma choose_routing_accepts:
  assumes "try_dynamodb_client_from_conf S VB (sdk_build S (pk_builder S config b)) = Inr pk"
  shows "\<exists>routing live' keys. choose_routing S VB config live b = Inr (routing, live', keys)"
  by (cases live; cases "enabled_affinity config") (simp_all add: choose_routing_def assms Let_def split_def)

lemma accepted_configuration:
  assumes "sdk_law S" and "\<not> timeout_refused fits config"
    and "try_new S U env now config = Inr live"
    and "\<not> x_stalled_stream_protection_explicitly_unset (config_ext config)"
    and "\<not> (config_without_discovery config \<and> is_https (scheme_or_http config)
        \<and> config_http_client S config = None \<and> ensure_native_roots_are_usable env \<noteq> None)"
  shows "\<exists>client. try_from_conf S (\<lambda>c rc. None) U env fits rt now config = Inr client"
proof -
  obtain b where tr: "choose_transport S U env config live (base_builder S config) = Inr b"
  proof (cases "choose_transport S U env config live (base_builder S config)")
    case (Inl m)
    from iffD1 [OF choose_transport_error [OF assms(3)] this] assms(5) show ?thesis by simp
  qed (rule that)
  let ?b = "default_region S config b"
  have http: "s_http_client (b_settings S ?b) \<noteq> None"
    using choose_transport_http [OF assms(1) tr] by (simp add: default_region_settings [OF assms(1)])
  have "s_http_client (c_settings S (sdk_build S (pk_builder S config ?b))) \<noteq> None"
    using http
    by (cases "config_discovery_timeout config") (simp_all add: sdk_lawD(2,4) [OF assms(1)] pk_builder_def Let_def)
  from try_dynamodb_accepts [OF this]
  obtain pk where pk: "try_dynamodb_client_from_conf S (\<lambda>c rc. None) (sdk_build S (pk_builder S config ?b)) = Inr pk" ..
  obtain routing live' keys where rt: "choose_routing S (\<lambda>c rc. None) config live ?b = Inr (routing, live', keys)"
    using choose_routing_accepts [OF pk] by blast
  have "s_http_client (c_settings S (sdk_build S (case routing of None \<Rightarrow> ?b
        | Some i \<Rightarrow> sdk_do S (PushInterceptor i) ?b))) \<noteq> None"
    using http by (cases routing) (simp_all add: sdk_lawD(2,4) [OF assms(1)])
  from try_dynamodb_accepts [OF this] obtain client where
    client: "try_dynamodb_client_from_conf S (\<lambda>c rc. None) (sdk_build S (case routing of None \<Rightarrow> ?b
        | Some i \<Rightarrow> sdk_do S (PushInterceptor i) ?b)) = Inr client" ..
  show ?thesis
    unfolding try_from_conf_def validate_sdk_default_config_def Let_def
    by (simp only: assms(2-4) tr rt client if_False sum.case option.case prod.case) blast
qed

text \<open>
  C36: the order in which a configuration is refused. A zero or unrepresentable discovery deadline
  comes first, whatever else is wrong; then routing, with \<^verbatim>\<open>LiveNodes::try_new\<close>'s error; then a
  direct \<^verbatim>\<open>https\<close> endpoint without a custom HTTP client on a host without usable roots, with the
  loader's message; everything that is refused later is an SDK error. A client that was built
  has passed all of these and keeps stalled-stream protection.
\<close>

theorem construction_refused:
  "(\<forall>m. try_from_conf S VB U env fits rt now config = Inl (DiscoveryConfiguration m) \<longrightarrow> timeout_refused fits config)
   \<and> (timeout_refused fits config \<longrightarrow>
       (\<exists>m. try_from_conf S VB U env fits rt now config = Inl (DiscoveryConfiguration m)))
   \<and> (\<forall>e. try_from_conf S VB U env fits rt now config = Inl (LiveNodesError e)
        \<longleftrightarrow> \<not> timeout_refused fits config \<and> try_new S U env now config = Inl e)
   \<and> (\<forall>m. try_from_conf S VB U env fits rt now config = Inl (TlsConfigurationError m)
        \<longleftrightarrow> \<not> timeout_refused fits config \<and> (\<exists>live. try_new S U env now config = Inr live)
          \<and> config_without_discovery config \<and> is_https (scheme_or_http config)
          \<and> config_http_client S config = None \<and> ensure_native_roots_are_usable env = Some m)
   \<and> (\<forall>client. try_from_conf S VB U env fits rt now config = Inr client \<longrightarrow>
        \<not> timeout_refused fits config \<and> \<not> x_stalled_stream_protection_explicitly_unset (config_ext config))"
proof -
  let ?res = "try_from_conf S VB U env fits rt now config"
  have late: "(\<exists>m. ?res = Inl (SdkConfiguration m))
      \<or> (\<exists>client. ?res = Inr client \<and> \<not> x_stalled_stream_protection_explicitly_unset (config_ext config))"
    if "\<not> timeout_refused fits config" "try_new S U env now config = Inr live"
      "choose_transport S U env config live (base_builder S config) = Inr b" for live b
    using that
    by (auto simp: try_from_conf_def Let_def validate_sdk_default_config_def split: option.split sum.split
        dest!: try_dynamodb_error choose_routing_error)
  consider (timeout) "timeout_refused fits config"
    | (routing) e where "\<not> timeout_refused fits config" "try_new S U env now config = Inl e"
    | (tls) live m where "\<not> timeout_refused fits config" "try_new S U env now config = Inr live"
        "choose_transport S U env config live (base_builder S config) = Inl m"
    | (later) live b where "\<not> timeout_refused fits config" "try_new S U env now config = Inr live"
        "choose_transport S U env config live (base_builder S config) = Inr b"
    by (metis sum.exhaust)
  then show ?thesis
  proof cases
    case timeout
    then show ?thesis by (simp add: try_from_conf_def)
  next
    case routing
    then show ?thesis by (auto simp: try_from_conf_def)
  next
    case tls
    moreover from tls have "?res = Inl (TlsConfigurationError m)" by (simp add: try_from_conf_def)
    ultimately show ?thesis using choose_transport_error [OF tls(2)] by auto
  next
    case later
    from later(3) choose_transport_error [OF later(2), where b = "base_builder S config"] have
      "\<not> (config_without_discovery config \<and> is_https (scheme_or_http config)
        \<and> config_http_client S config = None \<and> ensure_native_roots_are_usable env \<noteq> None)"
      by (metis not_Some_eq sum.distinct(1))
    with late [OF later] later(1,2) show ?thesis by auto
  qed
qed

section \<open>An example client\<close>

lemma example_client:
  "\<exists>client. try_from_conf record_sdk (\<lambda>c rc. None) text_url example_env (\<lambda>t. True) (Some 7) 0 example_config = Inr client"
proof -
  obtain st where st: "try_new record_sdk text_url example_env 0 example_config = Inr (Some st)"
    using example_try_new by blast
  have "\<not> x_stalled_stream_protection_explicitly_unset (config_ext example_config)"
    by (simp add: example_config_def build_def set_seed_hosts_def builder_new_def default_extensions_def Let_def)
  from accepted_configuration [OF record_sdk_law _ st this]
  show ?thesis by (simp add: timeout_refused_def example_config_settings)
qed

theorem unsigned_only_when_permitted_witness:
  "\<exists>client. try_from_conf record_sdk (\<lambda>c rc. None) text_url example_env (\<lambda>t. True) (Some 7) 0 example_config = Inr client
    \<and> s_allow_no_auth (c_settings record_sdk (dynamodb_client client))"
proof -
  let ?ks = "[SetSeedHosts [''b'', ''a'']]" and ?b = "set_seed_hosts [''b'', ''a''] (builder_new record_sdk)"
  obtain client where c: "try_from_conf record_sdk (\<lambda>c rc. None) text_url example_env (\<lambda>t. True) (Some 7) 0 example_config = Inr client"
    using example_client by blast
  have "run_calls record_sdk ?ks (builder_new record_sdk) = Some ?b" and "list_all available ?ks" by simp_all
  from unsigned_only_when_permitted [OF record_sdk_law this(2,1) c [unfolded example_config_def] disjI1 [OF refl]] c
  show ?thesis by (auto simp: set_seed_hosts_def builder_new_def default_extensions_def)
qed

theorem client_interceptors_witness:
  "\<exists>client. try_from_conf record_sdk (\<lambda>c rc. None) text_url example_env (\<lambda>t. True) (Some 7) 0 example_config = Inr client
    \<and> last (s_interceptors (c_settings record_sdk (dynamodb_client client))) = RoundRobinQueryPlanInterceptor OrdinaryHandle"
proof -
  obtain client where c: "try_from_conf record_sdk (\<lambda>c rc. None) text_url example_env (\<lambda>t. True) (Some 7) 0 example_config = Inr client"
    using example_client by blast
  from client_interceptors [OF record_sdk_law c refl] c show ?thesis
    by (auto simp: routing_interceptors_def example_config_settings enabled_affinity_def)
qed

definition direct_builder :: "sdk_settings alternator_builder" where
  "direct_builder = set_without_discovery True (set_seed_hosts [''lb''] (builder_new record_sdk))"

theorem direct_client_witness:
  "\<exists>client. try_from_conf record_sdk (\<lambda>c rc. None) text_url example_env (\<lambda>t. True) None 0
      (build record_sdk text_url direct_builder) = Inr client
    \<and> topology client = []
    \<and> s_endpoint_url (c_settings record_sdk (dynamodb_client client)) = Some ''http://lb''"
proof -
  let ?config = "build record_sdk text_url direct_builder"
  have url: "build_seed_url text_url ''http'' ''lb'' None = Inr ''http://lb''" by code_simp
  have sch: "is_http ''http''" "\<not> is_https ''http''" "is_valid_uri_scheme ''http''" by code_simp+
  have ext: "alternator_ext direct_builder = default_extensions
      \<lparr>x_seed_hosts := Some [''lb''], x_without_discovery := True\<rparr>"
    by (simp add: direct_builder_def set_without_discovery_def set_seed_hosts_def builder_new_def)
  have conf: "config_ext ?config = default_extensions\<lparr>x_seed_hosts := Some [''lb''], x_without_discovery := True\<rparr>"
    by (simp add: build_settings [OF record_sdk_law] ext)
  have get: "config_seed_hosts ?config = Some [''lb'']" "config_without_discovery ?config"
    "scheme_or_http ?config = ''http''" "config_port ?config = None" "config_discovery_timeout ?config = None"
    by (simp_all add: config_seed_hosts_def config_without_discovery_def scheme_or_http_def config_scheme_def
        config_port_def config_discovery_timeout_def conf default_extensions_def)
  have "try_new record_sdk text_url example_env 0 ?config = Inr None"
    by (simp add: try_new_cases get scheme_refused_def sch probed_seeds_def url)
  then obtain client where c: "try_from_conf record_sdk (\<lambda>c rc. None) text_url example_env (\<lambda>t. True) None 0 ?config = Inr client"
    using accepted_configuration [OF record_sdk_law, of "\<lambda>t. True" ?config text_url example_env 0 None None]
    by (auto simp: timeout_refused_def get sch conf default_extensions_def)
  have "x_without_discovery (alternator_ext direct_builder)" by (simp add: ext)
  moreover have "as_str text_url u = u" for u by (simp add: text_url_def)
  ultimately show ?thesis
    using direct_client [OF record_sdk_law _ c] c by (auto simp: ext default_extensions_def url)
qed

theorem construction_refused_witness:
  "\<exists>m. try_from_conf record_sdk (\<lambda>c rc. None) text_url example_env (\<lambda>t. False) None 0
      (build record_sdk text_url (set_discovery_timeout (Some 1) (builder_new record_sdk))) = Inl (DiscoveryConfiguration m)"
proof -
  let ?config = "build record_sdk text_url (set_discovery_timeout (Some 1) (builder_new record_sdk))"
  have "timeout_refused (\<lambda>t. False) ?config"
    by (simp add: timeout_refused_def config_discovery_timeout_def build_def set_discovery_timeout_def
        builder_new_def default_extensions_def)
  with construction_refused [of record_sdk "\<lambda>c rc. None" text_url example_env "\<lambda>t. False" None 0 ?config]
  show ?thesis by blast
qed

end
