(* ===== verification/Client_Lifecycle.thy ===== *)
theory Client_Lifecycle
  imports Client_Construction
begin

text \<open>
  The life of a client: discovery runs from construction on, and after \<^verbatim>\<open>shutdown\<close> or the drop of
  the last clone nothing is started any more, whatever its builders, paginators and background
  tasks still do.
\<close>

section \<open>Events of a client\<close>

datatype 'u client_event =
    NodesEvent "'u mgr_event"
  | ResolverEvent resolver_event
  | StopClient

definition nodes_step :: "'u mgr_event \<Rightarrow> 'u live_state \<Rightarrow> 'u live_state" where
  "nodes_step e st = st\<lparr>manager := map_option (\<lambda>m. mgr_step m e) (manager st)\<rparr>"

fun client_step :: "('u, 'c) alternator_client \<Rightarrow> 'u client_event \<Rightarrow> ('u, 'c) alternator_client" where
  "client_step c (NodesEvent e) = c\<lparr>topology := map (nodes_step e) (topology c)\<rparr>"
| "client_step c (ResolverEvent e) =
     c\<lparr>partition_keys := map_option (\<lambda>(r, pk). (resolver_step r e, pk)) (partition_keys c)\<rparr>"
| "client_step c StopClient = client_stop c"

text \<open>What a registry that was \<open>d0\<close> at the stop may be later.\<close>

definition quiet :: "discovery_tasks \<Rightarrow> discovery_tasks \<Rightarrow> bool" where
  "quiet d0 d \<longleftrightarrow> is_stopped d \<and> tracked d \<subseteq> tracked d0"

lemma quiet_stop: "quiet d (stop d)"
  by (simp add: quiet_def stop_def is_stopped_def)

lemma quiet_trans: "quiet a b \<Longrightarrow> quiet b c \<Longrightarrow> quiet a c"
  by (auto simp: quiet_def)

lemma quiet_manager: "is_stopped (m_tasks m) \<Longrightarrow> quiet (m_tasks m) (m_tasks (mgr_step m e))"
  using stopped_manager_run [of m "[e]"] by (simp add: quiet_def)

lemma quiet_resolver:
  assumes "is_stopped (r_tasks r)"
  shows "quiet (r_tasks r) (r_tasks (resolver_step r e))"
proof (cases e)
  case (Trigger b now table)
  with assms show ?thesis by (simp add: trigger_discovery_def quiet_def)
next
  case (Claim w table)
  with assms show ?thesis by (simp add: claim_eq quiet_def)
next
  case (RunTask w t)
  have "r_tasks (snd (discover_with_retry w table r)) = r_tasks r" for table
    by (rule discover_frame)
  then show ?thesis
    using RunTask assms
    by (auto simp: run_task_def end_task_def quiet_def is_stopped_def drop_task_def split: option.split)
qed (use assms in \<open>auto simp: end_task_def quiet_def is_stopped_def drop_task_def stop_def split: option.split\<close>)

text \<open>Registries move in step: those of the resolver, and those of each node state.\<close>

lemma list_all2_map_filter:
  assumes "\<And>x. x \<in> set xs \<Longrightarrow> rel_option P (f x) (f (g x))"
  shows "list_all2 P (List.map_filter f xs) (List.map_filter f (map g xs))"
  using assms
proof (induction xs)
  case (Cons x xs)
  then have "rel_option P (f x) (f (g x))" by simp
  then show ?case using Cons by (cases rule: option.rel_cases) (auto simp: map_filter_simps)
qed (simp add: map_filter_simps)

lemma tasks_in_registries:
  "st \<in> set (topology c) \<Longrightarrow> manager st = Some m \<Longrightarrow> m_tasks m \<in> set (registries c)"
  by (force simp: registries_def tasks_def List.map_filter_def)

lemma client_stop_quiet: "list_all2 quiet (registries c) (registries (client_stop c))"
proof -
  have "rel_option quiet (tasks st) (tasks (stop_nodes st))" for st :: "'a live_state"
    by (cases "manager st") (simp_all add: tasks_def stop_nodes_def quiet_stop)
  then have "list_all2 quiet (List.map_filter tasks (topology c)) (List.map_filter tasks (map stop_nodes (topology c)))"
    by (intro list_all2_map_filter)
  then show ?thesis
    by (auto simp: registries_def client_stop_def stop_resolver_def quiet_stop split: option.split
        intro!: list_all2_appendI)
qed

lemma client_step_quiet:
  assumes "\<forall>d \<in> set (registries c). is_stopped d"
  shows "list_all2 quiet (registries c) (registries (client_step c e))"
proof (cases e)
  case (NodesEvent ev)
  have "rel_option quiet (tasks st) (tasks (nodes_step ev st))" if "st \<in> set (topology c)" for st
  proof (cases "manager st")
    case (Some m)
    with that assms tasks_in_registries have "is_stopped (m_tasks m)" by blast
    from quiet_manager [OF this] Some show ?thesis by (simp add: tasks_def nodes_step_def)
  qed (simp add: tasks_def nodes_step_def)
  then have "list_all2 quiet (List.map_filter tasks (topology c)) (List.map_filter tasks (map (nodes_step ev) (topology c)))"
    by (intro list_all2_map_filter)
  moreover have "quiet d d" if "is_stopped d" for d using that by (simp add: quiet_def)
  ultimately show ?thesis
    using NodesEvent assms by (auto simp: registries_def split: option.split intro!: list_all2_appendI)
next
  case (ResolverEvent ev)
  have "quiet d d" if "d \<in> set (registries c)" for d using that assms by (simp add: quiet_def)
  moreover have "quiet (r_tasks r) (r_tasks (resolver_step r ev))" if "partition_keys c = Some (r, pk)" for r pk
    using that assms by (intro quiet_resolver) (auto simp: registries_def)
  ultimately show ?thesis
    using ResolverEvent
    by (auto simp: registries_def split: option.split intro!: list_all2_appendI list.rel_refl_strong)
next
  case StopClient
  then show ?thesis by (simp add: client_stop_quiet)
qed

lemma list_all2_quiet_stopped: "list_all2 quiet ds ds' \<Longrightarrow> \<forall>d \<in> set ds'. is_stopped d"
  by (induction rule: list_all2_induct) (auto simp: quiet_def)

lemma quiet_list_trans:
  "list_all2 quiet a b \<Longrightarrow> list_all2 quiet b c \<Longrightarrow> list_all2 quiet a c"
  by (rule list_all2_trans [OF quiet_trans])

lemma client_run_quiet:
  assumes "\<forall>d \<in> set (registries c). is_stopped d"
  shows "list_all2 quiet (registries c) (registries (foldl client_step c es))"
  using assms
proof (induction es arbitrary: c)
  case Nil
  then show ?case by (auto simp: quiet_def intro!: list.rel_refl_strong)
next
  case (Cons e es)
  from client_step_quiet [OF Cons.prems, of e] have step: "list_all2 quiet (registries c) (registries (client_step c e))" .
  with list_all2_quiet_stopped Cons.IH have
    "list_all2 quiet (registries (client_step c e)) (registries (foldl client_step (client_step c e) es))" by blast
  with step show ?case unfolding foldl_Cons by (rule quiet_list_trans)
qed

text \<open>
  C6: a stopped client stays quiet. After \<^verbatim>\<open>shutdown\<close>, or the drop of the last clone, every task
  registry of the client (its discovery's and its resolver's) is stopped, and in every later
  interleaving of requests, probes, rechecks, triggers, task ends and further shutdowns each
  of them stays stopped and tracks only tasks that were there before. The wait of \<^verbatim>\<open>shutdown\<close> is
  over exactly when all of those have ended.
\<close>

theorem stopped_client_quiet:
  "let s = foldl client_step (client_stop c) es
   in list_all2 (\<lambda>d0 d. is_stopped d \<and> tracked d \<subseteq> tracked d0) (registries c) (registries s)
     \<and> (snd (client_shutdown s) \<longleftrightarrow> (\<forall>d \<in> set (registries s). tracked d = {}))"
proof -
  let ?s = "foldl client_step (client_stop c) es"
  have stop: "list_all2 quiet (registries c) (registries (client_stop c))" by (rule client_stop_quiet)
  have "list_all2 quiet (registries c) (registries ?s)"
    by (rule quiet_list_trans [OF stop client_run_quiet [OF list_all2_quiet_stopped [OF stop]]])
  moreover have "snd (client_shutdown s) \<longleftrightarrow> (\<forall>d \<in> set (registries s). tracked d = {})"
    for s :: "('a, 'b) alternator_client"
  proof -
    have wait: "wait_ready (stop d) \<longleftrightarrow> tracked d = {}" for d by (simp add: wait_ready_def stop_def)
    have "tasks (stop_nodes st) = map_option stop (tasks st)" for st :: "'a live_state"
      by (simp add: tasks_def stop_nodes_def option.map_comp comp_def)
    then have "List.map_filter tasks (map stop_nodes ts) = map stop (List.map_filter tasks ts)" for ts :: "'a live_state list"
      by (induction ts) (auto simp: map_filter_simps split: option.split)
    then have "registries (client_stop s) = map stop (registries s)"
      by (simp add: registries_def client_stop_def stop_resolver_def split: option.split)
    then show ?thesis by (simp add: client_shutdown_def Let_def list_all_iff wait)
  qed
  ultimately show ?thesis by (simp add: Let_def quiet_def [abs_def])
qed

theorem stopped_client_quiet_witness:
  "list_all (\<lambda>d. is_stopped d \<and> tracked d = {}) (registries (foldl client_step (client_stop
      \<lparr>dynamodb_client = (), client_config = \<lparr>dynamodb_config = (), config_ext = default_extensions\<rparr>,
       topology = [] :: string live_state list,
       partition_keys = Some (new_with_timeout Map.empty None, ())\<rparr>)
      [ResolverEvent (Trigger (Some 1) 5 ''t''), StopClient]))"
proof -
  let ?c = "\<lparr>dynamodb_client = (), client_config = \<lparr>dynamodb_config = (), config_ext = default_extensions\<rparr>,
       topology = [] :: string live_state list, partition_keys = Some (new_with_timeout Map.empty None, ())\<rparr>"
  let ?es = "[ResolverEvent (Trigger (Some 1) 5 ''t''), StopClient]"
  have "registries ?c = [new_tasks]" by (simp add: registries_def new_with_timeout_def map_filter_simps)
  moreover have "tracked new_tasks = {}" by (simp add: new_tasks_def)
  ultimately show ?thesis
    using stopped_client_quiet [of ?c ?es] by (auto simp: Let_def list_all2_Cons1 simp del: foldl.simps)
qed

section \<open>Discovery from construction on\<close>

text \<open>
  a client discovers from the start. A client that was constructed with discovery on, on a
  thread with a Tokio runtime, has one discovery state; exactly one discovery loop runs, owned by
  that runtime; and the membership that requests are routed to is not empty.
\<close>

theorem constructed_client_discovers:
  assumes "try_from_conf S VB U env fits (Some rid) now config = Inr client"
    and "\<not> config_without_discovery config"
  shows "\<exists>st m t ref. topology client = [st] \<and> manager st = Some m
    \<and> live_loops m = {(t, ref)} \<and> rt_id (runtimes m ref) = rid
    \<and> live_nodes (ordinary_view st) \<noteq> []"
  using assms(1)
proof (rule try_from_conf_Inr)
  fix live b routing live' keys
  assume new: "try_new S U env now config = Inr live"
    and rt: "choose_routing S VB config live (default_region S config b) = Inr (routing, live', keys)"
    and top: "topology client = (case live' of None \<Rightarrow> [] | Some st \<Rightarrow> [start_discovery_of (Some rid) now st])"
  note routing = choose_routing_Inr [OF new rt]
  obtain st' where live': "live' = Some st'" using routing(2) assms(2) by auto
  then obtain st where st: "live = Some st" "manager st' = manager st" "ordinary_view st' = ordinary_view st"
    using routing(5) by blast
  obtain urls hosts where b: "build_live_nodes S U env now config urls = Inr st"
    and hosts: "collect_seed_urls U (scheme_or_http config) (config_port config) hosts = Inr urls" "hosts \<noteq> []"
    using new st(1) assms(2)
    by (auto simp: try_new_cases probed_seeds_def split: if_splits sum.splits option.splits)
  have "urls \<noteq> []" using hosts by (auto simp: collect_seed_urls_Inr)
  then have ne: "sort_key (as_str U) urls \<noteq> []" by (metis length_sort length_0_conv)
  from b obtain inp active idle where m: "manager st = Some (new_manager inp active idle now)"
    and nodes: "live_nodes (ordinary_view st) = sort_key (as_str U) urls"
    by (elim build_live_nodes_Inr) (auto simp: view_new_def)
  let ?m = "ensure_discovery_started (Some rid) now (new_manager inp active idle now)"
  have inv: "mgr_inv ?m" by (intro mgr_inv_ensure mgr_inv_new)
  have open': "\<not> is_stopped (m_tasks (new_manager inp active idle now))"
    and none: "discovery_runtime (new_manager inp active idle now) = None"
    by (simp_all add: new_manager_def new_tasks_def is_stopped_def)
  from ensure_owner [OF open', of rid now] none obtain ref where
    ref: "discovery_runtime ?m = Some ref" "rt_id (runtimes ?m ref) = rid" by auto
  then obtain t where "active_task ?m = Some t" using live_loops_owner [OF inv] by fastforce
  with ref have "live_loops ?m = {(t, ref)}" using live_loops_owner(1) [OF inv] by auto
  with ref(2) ne show ?thesis
    by (simp add: top live' start_discovery_of_def st(2,3) m nodes)
qed

theorem constructed_client_discovers_witness:
  "\<exists>client st. try_from_conf record_sdk (\<lambda>c rc. None) text_url example_env (\<lambda>t. True) (Some 7) 0 example_config = Inr client
    \<and> topology client = [st] \<and> live_nodes (ordinary_view st) \<noteq> []"
proof -
  obtain client where c: "try_from_conf record_sdk (\<lambda>c rc. None) text_url example_env (\<lambda>t. True) (Some 7) 0 example_config = Inr client"
    using example_client by blast
  from constructed_client_discovers [OF c] c show ?thesis by (auto simp: example_config_settings)
qed

end
