(* ===== verification/Request_Routing.thy ===== *)
theory Request_Routing
  imports Interceptors
begin

text \<open>
  The properties of the interceptors: which plan a request gets, where its attempts go, and what
  happens to its headers and to the body of its response.
\<close>

section \<open>Votes\<close>

text \<open>The hash of a candidate is a function of the known key names.\<close>

definition key_hash :: "murmur \<Rightarrow> (string \<rightharpoonup> string) \<Rightarrow> partition_key_candidate \<Rightarrow> u64 option" where
  "key_hash murmur known cand =
     Option.bind (known (cand_table_name cand)) (\<lambda>pk.
       Option.bind (map_of (cand_attributes cand) pk) (hash_attribute_value murmur))"

lemma candidate_hash:
  "fst (candidate_partition_key_hash murmur c cand res) = key_hash murmur (cache res) cand"
  "cache (snd (candidate_partition_key_hash murmur c cand res)) = cache res"
  by (auto simp: candidate_partition_key_hash_def key_hash_def get_partition_key_def trigger_eq started_def
      split: option.split)

lemma preferred_node_Some: "nodes \<noteq> [] \<Longrightarrow> \<exists>n. preferred_node_for_hash nodes h = Some n \<and> n \<in> set nodes"
  using xorshift_source.pick_total [of "length nodes" "rng_new h"]
  by (auto simp: preferred_node_for_hash_def)

definition voted :: "murmur \<Rightarrow> (string \<rightharpoonup> string) \<Rightarrow> 'u list \<Rightarrow> partition_key_candidate list \<Rightarrow> 'u list" where
  "voted murmur known nodes cands =
     List.map_filter (\<lambda>cand. Option.bind (key_hash murmur known cand) (preferred_node_for_hash nodes)) cands"

lemma collect_votes_eq:
  assumes "nodes \<noteq> []"
  shows "fst (collect_votes murmur c nodes cands votes res) =
    Some (fold add_vote (voted murmur (cache res) nodes cands) votes)"
proof (induction cands arbitrary: votes res)
  case Nil
  then show ?case by (simp add: voted_def List.map_filter_simps)
next
  case (Cons cand cands)
  obtain h res' where h: "candidate_partition_key_hash murmur c cand res = (h, res')"
    by (cases "candidate_partition_key_hash murmur c cand res")
  then have k: "key_hash murmur (cache res) cand = h" "cache res' = cache res"
    using candidate_hash [of murmur c cand res] by simp_all
  show ?case
  proof (cases h)
    case None
    then show ?thesis using h k Cons.IH by (simp add: voted_def List.map_filter_simps)
  next
    case (Some x)
    then obtain n where "preferred_node_for_hash nodes x = Some n" using preferred_node_Some assms by blast
    then show ?thesis using Some h k Cons.IH by (simp add: voted_def List.map_filter_simps)
  qed
qed

lemma collect_votes_empty:
  "fst (collect_votes murmur c [] cands votes res) =
     (if list_ex (\<lambda>cand. key_hash murmur (cache res) cand \<noteq> None) cands then None else Some votes)"
proof (induction cands arbitrary: votes res)
  case (Cons cand cands)
  obtain h res' where h: "candidate_partition_key_hash murmur c cand res = (h, res')"
    by (cases "candidate_partition_key_hash murmur c cand res")
  then have "key_hash murmur (cache res) cand = h" "cache res' = cache res"
    using candidate_hash [of murmur c cand res] by simp_all
  then show ?case using h Cons.IH by (cases h) (simp_all add: preferred_node_for_hash_def)
qed simp

text \<open>The votes as counts.\<close>

definition vote_count :: "('u \<times> nat) list \<Rightarrow> 'u \<Rightarrow> nat" where
  "vote_count votes u = (case map_of votes u of None \<Rightarrow> 0 | Some n \<Rightarrow> n)"

definition votes_ok :: "('u \<times> nat) list \<Rightarrow> bool" where
  "votes_ok votes \<longleftrightarrow> distinct (map fst votes) \<and> (\<forall>(u, n) \<in> set votes. 0 < n)"

lemma add_vote_keys: "fst ` set (add_vote u votes) = insert u (fst ` set votes)"
  by (induction u votes rule: add_vote.induct) auto

lemma add_vote_ok: "votes_ok votes \<Longrightarrow> votes_ok (add_vote u votes)"
proof (induction u votes rule: add_vote.induct)
  case (2 u v n vs)
  have "fst ` set (add_vote u vs) = insert u (fst ` set vs)" by (rule add_vote_keys)
  with 2 show ?case by (auto simp: votes_ok_def)
qed (simp add: votes_ok_def)

lemma add_vote_count: "vote_count (add_vote u votes) x = vote_count votes x + (if x = u then 1 else 0)"
  by (induction u votes rule: add_vote.induct) (auto simp: vote_count_def split: option.splits)

lemma fold_add_vote:
  "votes_ok votes \<Longrightarrow> votes_ok (fold add_vote us votes)
   \<and> (\<forall>x. vote_count (fold add_vote us votes) x = vote_count votes x + count (mset us) x)"
  by (induction us arbitrary: votes) (auto simp: add_vote_ok add_vote_count)

lemma vote_count_Nil: "vote_count [] x = 0" by (simp add: vote_count_def)

lemma votes_ok_Nil [simp]: "votes_ok []" by (simp add: votes_ok_def)

lemma votes_mset_unique:
  assumes "votes_ok a" and "votes_ok b" and "\<And>x. vote_count a x = vote_count b x"
  shows "mset a = mset b"
proof -
  have sub: "(u, n) \<in> set b" if "votes_ok a" "votes_ok b" "\<And>x. vote_count a x = vote_count b x" "(u, n) \<in> set a"
    for a b :: "('a \<times> nat) list" and u n
  proof -
    have "map_of a u = Some n" "0 < n" using that(1,4) by (auto simp: votes_ok_def)
    then have "map_of b u = Some n" using that(3) [of u] by (auto simp: vote_count_def split: option.splits)
    then show ?thesis by (rule map_of_SomeD)
  qed
  have "set a = set b" using sub [of a b] sub [of b a] assms by auto
  moreover have "distinct a" "distinct b" using assms(1,2) by (auto simp: votes_ok_def distinct_map)
  ultimately show ?thesis by (simp add: set_eq_iff_mset_eq_distinct)
qed

lemma vote_order_mset:
  assumes "url_eq_law U" and "mset a = mset b"
  shows "vote_preference_order U a = vote_preference_order U b"
proof -
  have "inj (\<lambda>(node, n). (- int n, as_str U node))"
    using assms(1) by (auto simp: inj_def url_eq_law_def)
  from sort_key_mset_unique [OF this assms(2)] assms(2) show ?thesis
    by (auto simp: vote_preference_order_def)
qed

lemma mset_map_filter: "mset xs = mset ys \<Longrightarrow> mset (List.map_filter f xs) = mset (List.map_filter f ys)"
  by (simp add: List.map_filter_def mset_filter)

lemma candidates_mset:
  assumes "mset items = mset items'"
  shows "mset (concat (map table_candidates items)) = mset (concat (map table_candidates items'))"
proof -
  have "mset (concat (map table_candidates xs)) = sum_mset (image_mset (\<lambda>x. mset (table_candidates x)) (mset xs))" for xs
    by (induction xs) auto
  with assms show ?thesis by metis
qed

text \<open>The affinity order of a batch, in terms of its candidates.\<close>

definition batch_order ::
  "('u, 'x) url_api_scheme \<Rightarrow> murmur \<Rightarrow> (string \<rightharpoonup> string) \<Rightarrow> 'u list \<Rightarrow> partition_key_candidate list \<Rightarrow> 'u list option" where
  "batch_order U murmur known nodes cands =
     (if nodes = [] then None else vote_preference_order U (fold add_vote (voted murmur known nodes cands) []))"

lemma bind_votes:
  "Option.bind (fst (collect_votes murmur c nodes cands [] res)) (vote_preference_order U) =
     batch_order U murmur (cache res) nodes cands"
proof (cases "nodes = []")
  case True
  then show ?thesis by (simp add: collect_votes_empty batch_order_def vote_preference_order_def)
next
  case False
  then show ?thesis by (simp add: collect_votes_eq batch_order_def)
qed

lemma batch_order_mset:
  assumes "url_eq_law U" and "mset cands = mset cands'"
  shows "batch_order U murmur known nodes cands = batch_order U murmur known nodes cands'"
proof -
  have "mset (voted murmur known nodes cands) = mset (voted murmur known nodes cands')"
    unfolding voted_def by (rule mset_map_filter [OF assms(2)])
  then have "mset (fold add_vote (voted murmur known nodes cands) []) = mset (fold add_vote (voted murmur known nodes cands') [])"
    by (intro votes_mset_unique) (simp_all add: fold_add_vote)
  then show ?thesis unfolding batch_order_def using vote_order_mset [OF assms(1)] by metis
qed

lemma get_query_plan_batch:
  assumes "affinity_type (a_config i) = AnyWrite"
  shows "fst (get_query_plan U murmur i c (BatchWriteItemInput r) res st) =
    (let nodes = sort_node_urls U (live_nodes (view_of (a_affinity_nodes i) st))
     in case batch_order U murmur (cache res) nodes (partition_key_candidates (BatchWrite r)) of
          None \<Rightarrow> new_basic (a_routing_nodes i)
        | Some preferred \<Rightarrow> new_with_preferred_nodes (a_affinity_nodes i) preferred nodes)"
proof -
  let ?nodes = "sort_node_urls U (live_nodes (view_of (a_affinity_nodes i) st))"
  obtain votes res' where v: "collect_votes murmur c ?nodes (partition_key_candidates (BatchWrite r)) [] res = (votes, res')"
    by (cases "collect_votes murmur c ?nodes (partition_key_candidates (BatchWrite r)) [] res")
  then have "Option.bind votes (vote_preference_order U) =
      batch_order U murmur (cache res) ?nodes (partition_key_candidates (BatchWrite r))"
    using bind_votes [of murmur c ?nodes "partition_key_candidates (BatchWrite r)" res U] by simp
  then show ?thesis using assms v
    by (simp add: get_query_plan_def try_affinity_plan_def is_enabled_def should_apply_def
        sorted_affinity_nodes_def get_live_nodes_def Let_def split: option.splits)
qed

section \<open>Correctness: the plan of a request\<close>

text \<open>
  C25: a batch is routed by what it contains, not by how its map is iterated: two \<^verbatim>\<open>BatchWriteItem\<close>
  requests whose tables and writes are the same in any order get the same query plan, whatever
  key names are known and whatever discoveries their candidates trigger on the way.
\<close>

theorem batch_plan_unordered:
  assumes "url_eq_law U" and "affinity_type (a_config i) = AnyWrite"
    and "request_items r = Some items" and "request_items r' = Some items'" and "mset items = mset items'"
  shows "fst (get_query_plan U murmur i c (BatchWriteItemInput r) res st)
       = fst (get_query_plan U murmur i c' (BatchWriteItemInput r') res st)"
proof -
  have "mset (partition_key_candidates (BatchWrite r)) = mset (partition_key_candidates (BatchWrite r'))"
    using assms(3,4) candidates_mset [OF assms(5)] by (simp add: partition_key_candidates_def)
  from batch_order_mset [OF assms(1) this] show ?thesis
    by (simp add: get_query_plan_batch [OF assms(2)])
qed

theorem batch_plan_unordered_witness:
  "fst (get_query_plan text_url (\<lambda>b s. 0) \<lparr>a_config = config_from_type AnyWrite, a_routing_nodes = OrdinaryHandle,
        a_affinity_nodes = OrdinaryHandle\<rparr> (None, 0)
      (BatchWriteItemInput \<lparr>request_items = Some [(''t'', []), (''u'', [])]\<rparr>) (new_with_timeout Map.empty None)
      \<lparr>ordinary_view = view_new from_cluster [''a''], affinity_nodes = None, manager = None\<rparr>)
   = fst (get_query_plan text_url (\<lambda>b s. 0) \<lparr>a_config = config_from_type AnyWrite, a_routing_nodes = OrdinaryHandle,
        a_affinity_nodes = OrdinaryHandle\<rparr> (None, 0)
      (BatchWriteItemInput \<lparr>request_items = Some [(''u'', []), (''t'', [])]\<rparr>) (new_with_timeout Map.empty None)
      \<lparr>ordinary_view = view_new from_cluster [''a''], affinity_nodes = None, manager = None\<rparr>)"
  by (rule batch_plan_unordered [OF text_url_eq_law, where items = "[(''t'', []), (''u'', [])]" and
      items' = "[(''u'', []), (''t'', [])]"]) (simp_all add: config_from_type_def add_mset_commute)

text \<open>The order of the votes, as a relation on the counts.\<close>

definition vote_before :: "('u, 'x) url_api_scheme \<Rightarrow> 'u list \<Rightarrow> 'u \<Rightarrow> 'u \<Rightarrow> bool" where
  "vote_before U us a b \<longleftrightarrow> count (mset us) b < count (mset us) a
     \<or> count (mset us) a = count (mset us) b \<and> as_str U a < as_str U b"

lemma vote_key_before:
  assumes "inj (as_str U)" and "(- int (count (mset us) a), as_str U a) \<le> (- int (count (mset us) b), as_str U b)"
    and "a \<noteq> b"
  shows "vote_before U us a b"
proof -
  have "as_str U a \<noteq> as_str U b" using assms(1,3) by (simp add: inj_eq)
  with assms(2) show ?thesis by (auto simp: vote_before_def less_eq_prod_def order_le_less)
qed

lemma fold_vote_keys: "fst ` set (fold add_vote us vs) = set us \<union> fst ` set vs"
  by (induction us arbitrary: vs) (auto simp: add_vote_keys)

lemma fold_vote_value: "(u, n) \<in> set (fold add_vote us []) \<Longrightarrow> n = count (mset us) u"
proof -
  assume "(u, n) \<in> set (fold add_vote us [])"
  moreover have "votes_ok (fold add_vote us [])" "vote_count (fold add_vote us []) u = count (mset us) u"
    using fold_add_vote [OF votes_ok_Nil, of us] by (simp_all add: vote_count_Nil)
  ultimately show ?thesis by (auto simp: votes_ok_def vote_count_def)
qed

lemma sorted_map_fst_nth:
  assumes "sorted (map g s)" and "i < j" and "j < length (map fst s)" and "\<And>x. g x = h (fst x)"
  shows "h (map fst s ! i) \<le> h (map fst s ! j)"
proof -
  have "map g s ! i \<le> map g s ! j" by (rule sorted_nth_mono [OF assms(1)]) (use assms(2,3) in simp_all)
  then show ?thesis using assms(2,3) by (simp add: assms(4))
qed

lemma distinct_fst_sort: "distinct (map fst v) \<Longrightarrow> distinct (map fst (sort_key f v))"
  by (simp add: distinct_map)

lemma sorted_votes:
  assumes "inj (as_str U)" and "votes_ok v" and "\<And>u n. (u, n) \<in> set v \<Longrightarrow> n = count (mset us) u"
  shows "sorted_wrt (vote_before U us) (map fst (sort_key (\<lambda>(node, n). (- int n, as_str U node)) v))"
proof -
  define s where "s = sort_key (\<lambda>(node, n). (- int n, as_str U node)) v"
  let ?h = "\<lambda>u. (- int (count (mset us) u), as_str U u)"
  have d: "distinct (map fst s)" using assms(2) unfolding votes_ok_def s_def by (blast intro: distinct_fst_sort)
  have set: "set s = set v" by (simp add: s_def)
  have "map (\<lambda>(node, n). (- int n, as_str U node)) s = map (\<lambda>x. ?h (fst x)) s"
    by (rule map_cong [OF refl]) (use assms(3) set in auto)
  moreover have "sorted (map (\<lambda>(node, n). (- int n, as_str U node)) s)" unfolding s_def by (rule sorted_sort_key)
  ultimately have srt: "sorted (map (\<lambda>x. ?h (fst x)) s)" by metis
  have "vote_before U us (map fst s ! i) (map fst s ! j)" if ij: "i < j" "j < length (map fst s)" for i j
  proof (rule vote_key_before [OF assms(1)])
    show "map fst s ! i \<noteq> map fst s ! j" using nth_eq_iff_index_eq [OF d, of i j] ij by simp
    show "?h (map fst s ! i) \<le> ?h (map fst s ! j)" by (rule sorted_map_fst_nth [OF srt ij refl])
  qed
  then show ?thesis unfolding s_def [symmetric] sorted_wrt_iff_nth_less by blast
qed

text \<open>
  the order of the votes: the preferred nodes of a batch are exactly the voted nodes, without
  repetition, those with more votes first and equal votes in the order of their URLs.
\<close>

theorem vote_order:
  assumes "url_eq_law U" and "us \<noteq> []"
  shows "\<exists>ps. vote_preference_order U (fold add_vote us []) = Some ps \<and> distinct ps \<and> set ps = set us
    \<and> sorted_wrt (vote_before U us) ps"
proof -
  let ?v = "fold add_vote us []"
  let ?s = "sort_key (\<lambda>(node, n). (- int n, as_str U node)) ?v"
  have ok: "votes_ok ?v" using fold_add_vote [OF votes_ok_Nil] by blast
  have keys: "fst ` set ?v = set us" by (simp add: fold_vote_keys)
  have srt: "sorted_wrt (vote_before U us) (map fst ?s)"
    using assms(1) ok fold_vote_value by (intro sorted_votes) (auto simp: url_eq_law_def)
  have d: "distinct (map fst ?s)" using ok unfolding votes_ok_def by (blast intro: distinct_fst_sort)
  have "?v \<noteq> []" using keys assms(2) by auto
  then have "vote_preference_order U ?v = Some (map fst ?s)" by (simp add: vote_preference_order_def)
  moreover have "set (map fst ?s) = set us" using keys by simp
  ultimately show ?thesis using d srt by blast
qed

theorem vote_order_witness:
  "vote_preference_order text_url (fold add_vote [''b'', ''a'', ''c'', ''c''] []) = Some [''c'', ''a'', ''b'']
   \<and> (\<exists>ps. vote_preference_order text_url (fold add_vote [''b'', ''a'', ''c'', ''c''] []) = Some ps \<and> distinct ps)"
  using vote_order [OF text_url_eq_law, of "[''b'', ''a'', ''c'', ''c'']"]
  by (auto simp: vote_preference_order_def text_url_def)

text \<open>The plan of a qualifying single-item request whose key has the hash \<open>h\<close>.\<close>

lemma single_key_plan:
  assumes "affinity_type (a_config i) \<noteq> AffinityNone" and "from_input x = Some op" and "\<forall>r. op \<noteq> BatchWrite r"
    and "should_apply op (affinity_type (a_config i))" and "partition_key_candidates op = [cand]"
    and "key_hash murmur (cache res) cand = Some h"
  shows "\<exists>ns. fst (get_query_plan U murmur i c x res st) = \<lparr>plan_live_nodes = a_affinity_nodes i, plan_state = Ordered ns 0\<rparr>
    \<and> drain (rng_new h) (sort_node_urls U (live_nodes (view_of (a_affinity_nodes i) st))) [] = Some ns
    \<and> mset ns = mset (live_nodes (view_of (a_affinity_nodes i) st))"
proof -
  obtain res1 where r: "candidate_partition_key_hash murmur c cand res = (Some h, res1)"
    using candidate_hash(1) [of murmur c cand res] assms(6) by (metis prod.collapse)
  obtain ns where ns: "drain (rng_new h) (sort_node_urls U (live_nodes (view_of (a_affinity_nodes i) st))) [] = Some ns"
    "mset ns = mset (live_nodes (view_of (a_affinity_nodes i) st))"
    using drain_perm [of "rng_new h" _ "[]"] by (metis append_Nil mset_sort sort_node_urls_def)
  have single: "(case op of BatchWrite r \<Rightarrow> False | _ \<Rightarrow> True)" using assms(3) by (cases op) auto
  show ?thesis
    using assms r ns single
    by (auto simp: get_query_plan_def try_affinity_plan_def is_enabled_def new_with_hash_def
        sorted_affinity_nodes_def get_live_nodes_def Let_def)
qed

text \<open>
  the same key always gets the same plan: two requests (of whatever qualifying single-item
  operations, on two clients with their own live state) for the same table and partition key
  value get the same node order, a permutation of the membership, when the key name is known to
  both and both see the same nodes.
\<close>

theorem same_key_same_plan:
  assumes U: "url_eq_law U"
    and enabled: "affinity_type (a_config i) \<noteq> AffinityNone" "affinity_type (a_config j) \<noteq> AffinityNone"
    and ops: "from_input x = Some op" "from_input y = Some op'" "\<forall>r. op \<noteq> BatchWrite r \<and> op' \<noteq> BatchWrite r"
    and qual: "should_apply op (affinity_type (a_config i))" "should_apply op' (affinity_type (a_config j))"
    and cands: "partition_key_candidates op = [cand]" "partition_key_candidates op' = [cand']"
    and same: "key_hash murmur (cache res) cand = Some h" "key_hash murmur (cache res') cand' = Some h"
    and nodes: "mset (live_nodes (view_of (a_affinity_nodes i) st)) = mset (live_nodes (view_of (a_affinity_nodes j) st'))"
  shows "\<exists>ns. plan_state (fst (get_query_plan U murmur i c x res st)) = Ordered ns 0
    \<and> plan_state (fst (get_query_plan U murmur j c' y res' st')) = Ordered ns 0
    \<and> mset ns = mset (live_nodes (view_of (a_affinity_nodes i) st))"
proof -
  obtain ns where a: "plan_state (fst (get_query_plan U murmur i c x res st)) = Ordered ns 0"
    "drain (rng_new h) (sort_node_urls U (live_nodes (view_of (a_affinity_nodes i) st))) [] = Some ns"
    "mset ns = mset (live_nodes (view_of (a_affinity_nodes i) st))"
    using single_key_plan [of i x op cand murmur res h U c st] assms by (metis query_plan.select_convs(2))
  obtain ns' where b: "plan_state (fst (get_query_plan U murmur j c' y res' st')) = Ordered ns' 0"
    "drain (rng_new h) (sort_node_urls U (live_nodes (view_of (a_affinity_nodes j) st'))) [] = Some ns'"
    using single_key_plan [of j y op' cand' murmur res' h U c' st'] assms by (metis query_plan.select_convs(2))
  have "sort_node_urls U (live_nodes (view_of (a_affinity_nodes i) st)) = sort_node_urls U (live_nodes (view_of (a_affinity_nodes j) st'))"
    unfolding sort_node_urls_def using U nodes by (intro sort_key_mset_unique) (auto simp: url_eq_law_def)
  then have "ns = ns'" using a b by simp
  then show ?thesis using a b by blast
qed

theorem same_key_same_plan_witness:
  "\<exists>ns. plan_state (fst (get_query_plan text_url (\<lambda>b s. 7)
        \<lparr>a_config = config_from_type AnyWrite, a_routing_nodes = OrdinaryHandle, a_affinity_nodes = OrdinaryHandle\<rparr> (None, 0)
        (PutItemInput \<lparr>put_table_name = Some ''t'', put_item = Some [(''k'', AvS ''v''), (''x'', AvN ''1'')],
           put_condition_expression = None, put_expected = None, put_return_values = None\<rparr>)
        (new_with_timeout [''t'' \<mapsto> ''k''] None)
        \<lparr>ordinary_view = view_new from_cluster [''a'', ''b''], affinity_nodes = None, manager = None\<rparr>)) = Ordered ns 0
     \<and> mset ns = {#''a'', ''b''#}"
proof -
  let ?i = "\<lparr>a_config = config_from_type AnyWrite, a_routing_nodes = OrdinaryHandle, a_affinity_nodes = OrdinaryHandle\<rparr>"
  let ?x = "\<lparr>put_table_name = Some ''t'', put_item = Some [(''k'', AvS ''v''), (''x'', AvN ''1'')],
           put_condition_expression = None, put_expected = None, put_return_values = None\<rparr>"
  let ?c = "\<lparr>cand_table_name = ''t'', cand_attributes = [(''k'', AvS ''v''), (''x'', AvN ''1'')]\<rparr>"
  let ?res = "new_with_timeout [''t'' \<mapsto> ''k''] None"
  let ?st = "\<lparr>ordinary_view = view_new from_cluster [''a'', ''b''], affinity_nodes = None, manager = None\<rparr>"
  have e: "affinity_type (a_config ?i) \<noteq> AffinityNone" by (simp add: config_from_type_def)
  have q: "should_apply (Put ?x) (affinity_type (a_config ?i))"
    by (simp add: config_from_type_def should_apply_def should_apply_put_def)
  have c: "partition_key_candidates (Put ?x) = [?c]" by (simp add: partition_key_candidates_def single_candidate_def)
  have h: "key_hash (\<lambda>b s. 7) (cache ?res) ?c = Some 7"
    by (simp add: key_hash_def new_with_timeout_def hash_attribute_value_def)
  have m: "mset (live_nodes (view_of (a_affinity_nodes ?i) ?st)) = mset (live_nodes (view_of (a_affinity_nodes ?i) ?st))"
    by simp
  from same_key_same_plan [OF text_url_eq_law e e _ _ _ q q c c h h m, of "PutItemInput ?x" "PutItemInput ?x" "(None, 0)" "(None, 1)"]
  show ?thesis by (auto simp: view_of_def view_new_def)
qed

text \<open>
  everything else is round robin: a request that does not qualify (another operation, an
  operation the mode does not cover, affinity turned off) gets a fresh round-robin plan on the
  ordinary routing nodes, and neither the resolver nor the live state is touched.
\<close>

theorem unqualified_round_robin:
  assumes "case from_input x of None \<Rightarrow> True | Some op \<Rightarrow> \<not> should_apply op (affinity_type (a_config i))"
  shows "get_query_plan U murmur i c x res st = (new_basic (a_routing_nodes i), res, st)"
  using assms by (auto simp: get_query_plan_def try_affinity_plan_def split: option.splits)

theorem unqualified_round_robin_witness:
  "get_query_plan text_url (\<lambda>b s. 0) \<lparr>a_config = config_from_type AnyWrite, a_routing_nodes = OrdinaryHandle,
        a_affinity_nodes = AuxiliaryHandle\<rparr> (None, 0) OtherInput (new_with_timeout Map.empty None)
      \<lparr>ordinary_view = view_new from_cluster [''a''], affinity_nodes = None, manager = None\<rparr>
   = (new_basic OrdinaryHandle, new_with_timeout Map.empty None,
      \<lparr>ordinary_view = view_new from_cluster [''a''], affinity_nodes = None, manager = None\<rparr>)"
  by (subst unqualified_round_robin) simp_all

text \<open>
  a cache miss falls back and learns: a qualifying single-item request for a table whose key
  name is unknown gets a round-robin plan on the ordinary nodes, does not touch the affinity view,
  and triggers the discovery of that table's key name.
\<close>

theorem cache_miss_triggers_discovery:
  assumes "from_input x = Some op" and "\<forall>r. op \<noteq> BatchWrite r"
    and "should_apply op (affinity_type (a_config i))"
    and "partition_key_candidates op = [cand]" and "get_partition_key (cand_table_name cand) res = None"
  shows "get_query_plan U murmur i c x res st =
    (new_basic (a_routing_nodes i), trigger_discovery (fst c) (snd c) (cand_table_name cand) res, st)"
proof -
  have "(case op of BatchWrite r \<Rightarrow> False | _ \<Rightarrow> True)" using assms(2) by (cases op) auto
  moreover have "is_enabled (a_config i)" using assms(3) by (auto simp: should_apply_def is_enabled_def)
  ultimately show ?thesis using assms
    by (simp add: get_query_plan_def try_affinity_plan_def candidate_partition_key_hash_def Let_def)
qed

theorem cache_miss_triggers_discovery_witness:
  "in_progress (fst (snd (get_query_plan text_url (\<lambda>b s. 7)
        \<lparr>a_config = config_from_type AnyWrite, a_routing_nodes = OrdinaryHandle, a_affinity_nodes = OrdinaryHandle\<rparr> (Some 1, 0)
        (PutItemInput \<lparr>put_table_name = Some ''t'', put_item = Some [], put_condition_expression = None,
           put_expected = None, put_return_values = None\<rparr>) (new_with_timeout Map.empty None)
        \<lparr>ordinary_view = view_new from_cluster [''a''], affinity_nodes = None, manager = None\<rparr>))) = {''t''}"
proof -
  let ?i = "\<lparr>a_config = config_from_type AnyWrite, a_routing_nodes = OrdinaryHandle, a_affinity_nodes = OrdinaryHandle\<rparr>"
  let ?x = "\<lparr>put_table_name = Some ''t'', put_item = Some [], put_condition_expression = None,
           put_expected = None, put_return_values = None\<rparr>"
  have q: "should_apply (Put ?x) (affinity_type (a_config ?i))"
    by (simp add: config_from_type_def should_apply_def should_apply_put_def)
  have c: "partition_key_candidates (Put ?x) = [\<lparr>cand_table_name = ''t'', cand_attributes = []\<rparr>]"
    by (simp add: partition_key_candidates_def single_candidate_def)
  have "get_partition_key ''t'' (new_with_timeout Map.empty None) = None"
    by (simp add: get_partition_key_def new_with_timeout_def)
  moreover have "in_progress (trigger_discovery (Some 1) 0 ''t'' (new_with_timeout Map.empty None)) = {''t''}"
    by (simp add: trigger_discovery_def claim_discovery_def new_with_timeout_def new_tasks_def is_stopped_def spawn_def)
  ultimately show ?thesis
    using cache_miss_triggers_discovery [OF _ _ q c, where x = "PutItemInput ?x" and c = "(Some 1, 0)" and U = text_url and murmur = "\<lambda>b s. 7" and
      res = "new_with_timeout Map.empty None"] by simp
qed

end
