(* ===== verification/Request_Transport.thy ===== *)
theory Request_Transport
  imports Interceptors
begin

text \<open>
  The properties of the main interceptor's hooks: where an attempt is sent, which headers reach
  the wire, and how a response body is decoded.
\<close>

section \<open>The node of an attempt\<close>

text \<open>
  What the \<^verbatim>\<open>url\<close> crate documents of its setters, as far as the attempt relies on it. The setters
  normalise what they are given (schemes are lower-cased, hosts parsed for the scheme), so nothing
  is said of arbitrary strings: the driver only copies parts of a parsed node URL \<open>n\<close>
  (\<^verbatim>\<open>interceptors.rs\<close>, \<^verbatim>\<open>modify_before_transmit\<close>), which are in normal form. Copying the scheme of
  \<open>n\<close> gives that scheme; copying its host into a URL of the same scheme gives that host; copying
  its port into a URL of the same scheme gives that port; and host and port keep the parts that
  were copied before.
\<close>

definition url_set_law :: "('u, 'x) url_api_scheme \<Rightarrow> bool" where
  "url_set_law U \<longleftrightarrow>
     (\<forall>n u u'. set_scheme_of U (url_scheme U n) u = Some u' \<longrightarrow> url_scheme U u' = url_scheme U n)
     \<and> (\<forall>n u u'. url_scheme U u = url_scheme U n \<longrightarrow> set_host_of U (host_str U n) u = Some u' \<longrightarrow>
          host_str U u' = host_str U n \<and> url_scheme U u' = url_scheme U u)
     \<and> (\<forall>n u u'. url_scheme U u = url_scheme U n \<longrightarrow> set_port_of U (url_port U n) u = Some u' \<longrightarrow>
          url_port U u' = url_port U n \<and> host_str U u' = host_str U u \<and> url_scheme U u' = url_scheme U u)"

lemma route_uri_target:
  assumes "url_set_law U" and "route_uri U uri_ok n uri = Inr uri'"
  shows "\<exists>u. uri' = as_str U u \<and> url_scheme U u = url_scheme U n \<and> host_str U u = host_str U n
    \<and> url_port U u = url_port U n"
proof -
  obtain c0 where p0: "url_parse U uri = Inr c0"
    using assms(2) by (cases "url_parse U uri") (simp_all add: route_uri_def)
  obtain c1 where p1: "set_scheme_of U (url_scheme U n) c0 = Some c1"
    using assms(2) p0 by (cases "set_scheme_of U (url_scheme U n) c0") (simp_all add: route_uri_def)
  obtain c2 where p2: "set_host_of U (host_str U n) c1 = Some c2"
    using assms(2) p0 p1 by (cases "set_host_of U (host_str U n) c1") (simp_all add: route_uri_def)
  obtain u where p3: "set_port_of U (url_port U n) c2 = Some u"
    using assms(2) p0 p1 p2 by (cases "set_port_of U (url_port U n) c2") (simp_all add: route_uri_def)
  have uri: "uri' = as_str U u"
    using assms(2) p0 p1 p2 p3 by (simp add: route_uri_def split: if_splits)
  note steps = p1 p2 p3 uri
  have 1: "url_scheme U c1 = url_scheme U n" using assms(1) steps(1) unfolding url_set_law_def by blast
  have "host_str U c2 = host_str U n \<and> url_scheme U c2 = url_scheme U c1"
    using assms(1) steps(2) 1 unfolding url_set_law_def by blast
  with 1 have 2: "host_str U c2 = host_str U n" "url_scheme U c2 = url_scheme U n" by simp_all
  have "url_port U u = url_port U n \<and> host_str U u = host_str U c2 \<and> url_scheme U u = url_scheme U c2"
    using assms(1) steps(3) 2(2) unfolding url_set_law_def by blast
  with 2 steps(4) show ?thesis by auto
qed

text \<open>The nodes a plan routes to.\<close>

definition plan_nodes :: "'u query_plan \<Rightarrow> 'u live_state \<Rightarrow> 'u list" where
  "plan_nodes p st = (case plan_state p of
     RoundRobin used \<Rightarrow> live_nodes (view_of (plan_live_nodes p) st) | Ordered ns i \<Rightarrow> ns)"

lemma next_or_restart_Some:
  assumes "next_node_or_restart c p st = (x, p', st')"
  shows "(x = None \<longleftrightarrow> plan_nodes p st = []) \<and> set_option x \<subseteq> set (plan_nodes p st)"
proof (cases "plan_state p")
  case (Ordered ns i)
  then show ?thesis using assms
    by (auto simp: next_node_or_restart_def next_node_def restart_def plan_nodes_def split: if_splits)
next
  case (RoundRobin used)
  let ?h = "plan_live_nodes p"
  obtain rt now where c: "c = (rt, now)" by (cases c)
  obtain a s where n: "get_next_node_round_robin ?h rt now used st = (a, s)"
    by (cases "get_next_node_round_robin ?h rt now used st")
  obtain b s' where n': "get_next_node_round_robin ?h rt now {} s = (b, s')"
    by (cases "get_next_node_round_robin ?h rt now {} s")
  have m: "live_nodes (view_of ?h s) = live_nodes (view_of ?h st)"
    using handle_source.next_members [of ?h "(rt, now)" used st] n by simp
  have a: "a = None \<longleftrightarrow> set (live_nodes (view_of ?h st)) \<subseteq> used" "set_option a \<subseteq> set (live_nodes (view_of ?h st))"
    using handle_source.next_None [of ?h "(rt, now)" used st] handle_source.next_Some [of ?h "(rt, now)" used st] n
    by (cases a; auto)+
  have b: "b = None \<longleftrightarrow> live_nodes (view_of ?h st) = []" "set_option b \<subseteq> set (live_nodes (view_of ?h st))"
    using handle_source.next_None [of ?h "(rt, now)" "{}" s] handle_source.next_Some [of ?h "(rt, now)" "{}" s] n' m
    by (cases b; auto)+
  show ?thesis using RoundRobin c n n' a b assms
    by (cases a; cases b) (auto simp: next_node_or_restart_def next_node_def restart_def plan_nodes_def)
qed

text \<open>A URI whose scheme, host and port are those of a node.\<close>

definition uri_of_node :: "('u, 'x) url_api_scheme \<Rightarrow> 'u \<Rightarrow> string \<Rightarrow> bool" where
  "uri_of_node U n uri \<longleftrightarrow> (\<exists>u. uri = as_str U u \<and> url_scheme U u = url_scheme U n
     \<and> host_str U u = host_str U n \<and> url_port U u = url_port U n)"

lemma before_signing_node:
  assumes "url_set_law U" and "query_plan_store cfg = Some plan"
    and "modify_before_signing U uri_ok c cfg st r = (r', e, cfg', st')"
    and "next_node_or_restart c plan st = (x, p', s')"
  shows "cfg' = cfg\<lparr>query_plan_store := Some p'\<rparr> \<and> st' = s'
    \<and> (x = None \<longleftrightarrow> e = Some NoLiveNode)
    \<and> (case e of Some err \<Rightarrow> r' = r
       | None \<Rightarrow> (\<exists>n uri. x = Some n \<and> uri_of_node U n uri \<and> r' = r\<lparr>req_uri := uri\<rparr>))"
proof (cases x)
  case None
  then show ?thesis using assms(2-4) by (auto simp: modify_before_signing_def)
next
  case (Some node)
  have "route_uri U uri_ok node (req_uri r) \<noteq> Inl NoLiveNode"
    by (auto simp: route_uri_def split: sum.split option.split)
  with Some assms(2-4) route_uri_target [OF assms(1), of uri_ok node "req_uri r"] show ?thesis
    by (cases "route_uri U uri_ok node (req_uri r)") (auto simp: modify_before_signing_def uri_of_node_def)
qed

text \<open>
  every attempt goes to a node of the plan. With a query plan in the store, an attempt either
  fails without changing the request, or its URI gets the scheme, host and port of a node of the
  plan; it fails with the routing error exactly when the plan has no node.
\<close>

theorem attempt_goes_to_plan_node:
  assumes "url_set_law U" and "query_plan_store cfg = Some plan"
    and "modify_before_signing U uri_ok c cfg st r = (r', e, cfg', st')"
  shows "(e = Some NoLiveNode \<longleftrightarrow> plan_nodes plan st = [])
    \<and> (case e of Some err \<Rightarrow> r' = r
       | None \<Rightarrow> (\<exists>n u. n \<in> set (plan_nodes plan st) \<and> req_uri r' = as_str U u
           \<and> url_scheme U u = url_scheme U n \<and> host_str U u = host_str U n \<and> url_port U u = url_port U n)
           \<and> req_headers r' = req_headers r \<and> req_body r' = req_body r)"
proof -
  obtain x p' s' where n: "next_node_or_restart c plan st = (x, p', s')"
    by (cases "next_node_or_restart c plan st") auto
  show ?thesis
    using before_signing_node [OF assms n] next_or_restart_Some [OF n]
    by (cases e) (fastforce simp: uri_of_node_def)+
qed

text \<open>An instance for closed examples: a URL is its three parts, and all of them can be set.\<close>

definition parts_url :: "(string \<times> string option \<times> u16 option) url_api" where
  "parts_url =
     \<lparr>as_str = (\<lambda>(s, h, p). s @ ''://'' @ (case h of None \<Rightarrow> [] | Some x \<Rightarrow> x)), url_scheme = fst,
      host_str = (\<lambda>u. fst (snd u)), url_port = (\<lambda>u. snd (snd u)),
      port_or_known_default = (\<lambda>u. snd (snd u)), host_parse = (\<lambda>s. None),
      url_parse = (\<lambda>t. Inr (''http'', Some t, None)), set_port_of = (\<lambda>p (s, h, q). Some (s, h, p)),
      set_scheme_of = (\<lambda>s (t, h, p). Some (s, h, p)), set_host_of = (\<lambda>h (s, g, p). Some (s, h, p)),
      set_path_of = (\<lambda>p u. u), append_query_pair = (\<lambda>k v u. u)\<rparr>"

lemma parts_url_set_law: "url_set_law parts_url"
  by (auto simp: url_set_law_def parts_url_def)

lemma text_url_set_law: "url_set_law text_url"
  by (auto simp: url_set_law_def text_url_def split: if_splits)

theorem attempt_goes_to_plan_node_witness:
  "\<exists>r' cfg' st'. modify_before_signing parts_url (\<lambda>s. True) (None, 0)
      (empty_interceptor_state\<lparr>query_plan_store :=
         Some (new_with_preferred_nodes OrdinaryHandle [] [(''https'', Some ''n1'', Some 8043)])\<rparr>)
      \<lparr>ordinary_view = view_new from_cluster [], affinity_nodes = None, manager = None\<rparr>
      \<lparr>req_headers = (), req_uri = ''http://x'', req_body = Collected [] :: unit sdk_body\<rparr> = (r', None, cfg', st')
    \<and> req_uri r' = ''https://n1''"
proof -
  let ?p = "new_with_preferred_nodes OrdinaryHandle [] [(''https'', Some ''n1'', Some (8043 :: u16))]"
  let ?cfg = "empty_interceptor_state\<lparr>query_plan_store := Some ?p\<rparr>"
  let ?st = "\<lparr>ordinary_view = view_new from_cluster [], affinity_nodes = None, manager = None\<rparr>"
  let ?r = "\<lparr>req_headers = (), req_uri = ''http://x'', req_body = Collected [] :: unit sdk_body\<rparr>"
  obtain r' e cfg' st' where m: "modify_before_signing parts_url (\<lambda>s. True) (None, 0) ?cfg ?st ?r = (r', e, cfg', st')"
    by (metis prod_cases4)
  then have e: "e = None"
    by (simp add: modify_before_signing_def next_node_or_restart_def next_node_def new_with_preferred_nodes_def
        route_uri_def parts_url_def)
  have pn: "plan_nodes ?p ?st = [(''https'', Some ''n1'', Some 8043)]"
    by (simp add: plan_nodes_def new_with_preferred_nodes_def)
  have "query_plan_store ?cfg = Some ?p" by simp
  from attempt_goes_to_plan_node [OF parts_url_set_law this m]
  have "req_uri r' = ''https://n1''" unfolding pn e by (auto simp: parts_url_def)
  with m e show ?thesis by blast
qed

section \<open>Headers on the wire\<close>

lemma transmit_frame:
  assumes "modify_before_transmit H version i cfg r = (r', e)"
  shows "req_uri r' = req_uri r \<and> req_body r' = req_body r"
  using assms
  by (auto simp: modify_before_transmit_def apply_user_agent_def strip_headers_def Let_def
      split: option.splits sum.splits if_splits)

text \<open>
  a signed attempt stays valid. Once a request was signed (it has one authorization value that
  parses, and a signing date), the transmit hook with header optimisation keeps every signed
  header and the authentication headers, even if the client was built without authentication;
  only the user agent is set after that.
\<close>

theorem signed_request_survives_transmit:
  assumes H: "headers_law H"
    and a: "get_all H (req_headers r) ''authorization'' = [a]" "parse_signed_headers a = Some hs"
    and date: "get_all H (req_headers r) ''x-amz-date'' \<noteq> []"
    and m: "m \<in> set (AUTH_WHITELIST @ hs)" "m \<noteq> ''user-agent''"
    and t: "modify_before_transmit H version i (read_after_signing H r cfg) r = (r', e)"
  shows "get_all H (req_headers r') m = get_all H (req_headers r) m \<and> req_body r' = req_body r"
proof -
  have store: "preserve_auth_headers_store (read_after_signing H r cfg) = Some True"
    using a(1) date by (simp add: read_after_signing_def contains_key_def)
  have auth: "list_all canonical_name AUTH_WHITELIST" by code_simp
  have hs: "list_all canonical_name hs"
    using parse_canonical [OF a(2)] canonical_header_name by (auto simp: list_all_iff)
  have c: "canonical_name m" using m(1) auth hs by (auto simp: list_all_iff)
  let ?r1 = "if i_optimize_headers i then strip_headers H True r else r"
  have ap: "apply_user_agent H version (i_user_agent i) ?r1 = (r', e)"
    using t store by (simp add: modify_before_transmit_def Let_def)
  have keep: "headers_to_preserve H (req_headers r) True = Some hs"
    using a by (simp add: headers_to_preserve_def)
  have "get_all H (req_headers ?r1) m = get_all H (req_headers r) m"
    using strip_get_all [OF H c keep] m(1) by auto
  moreover have "req_body ?r1 = req_body r"
    using keep by (simp add: strip_headers_def Let_def)
  moreover have "get_all H (req_headers r') m = get_all H (req_headers ?r1) m" "req_body r' = req_body ?r1"
    using ap headers_lawD(1,3) [OF H _ c] m(2)
    by (auto simp: apply_user_agent_def header_try_insert_def Let_def split: option.splits if_splits)
  ultimately show ?thesis by simp
qed

theorem signed_request_survives_transmit_witness:
  "get_all list_headers (req_headers (fst (modify_before_transmit list_headers ''1''
      \<lparr>i_request_compression = compression_disabled, i_response_compression = response_disabled,
       i_optimize_headers = True, i_user_agent = UaDisabled, i_preserve_auth_headers = False\<rparr>
      (read_after_signing list_headers
         \<lparr>req_headers = [(''authorization'', ''AWS4-HMAC-SHA256 SignedHeaders=host''), (''x-amz-date'', ''d'')],
          req_uri = [], req_body = Collected [] :: unit sdk_body\<rparr> (empty_interceptor_state :: string interceptor_state))
      \<lparr>req_headers = [(''authorization'', ''AWS4-HMAC-SHA256 SignedHeaders=host''), (''x-amz-date'', ''d'')],
       req_uri = [], req_body = Collected [] :: unit sdk_body\<rparr>))) ''x-amz-date'' = [''d'']"
proof -
  let ?i = "\<lparr>i_request_compression = compression_disabled, i_response_compression = response_disabled,
       i_optimize_headers = True, i_user_agent = UaDisabled, i_preserve_auth_headers = False\<rparr>"
  let ?r = "\<lparr>req_headers = [(''authorization'', ''AWS4-HMAC-SHA256 SignedHeaders=host''), (''x-amz-date'', ''d'')],
          req_uri = [], req_body = Collected [] :: unit sdk_body\<rparr>"
  obtain r' e where t: "modify_before_transmit list_headers ''1'' ?i
      (read_after_signing list_headers ?r (empty_interceptor_state :: string interceptor_state)) ?r = (r', e)" by fastforce
  have p: "parse_signed_headers ''AWS4-HMAC-SHA256 SignedHeaders=host'' = Some [''host'']" by code_simp
  have a: "get_all list_headers (req_headers ?r) ''authorization'' = [''AWS4-HMAC-SHA256 SignedHeaders=host'']"
    and d: "get_all list_headers (req_headers ?r) ''x-amz-date'' = [''d'']"
    by (simp_all add: list_get_all)
  have "get_all list_headers (req_headers ?r) ''x-amz-date'' \<noteq> []" unfolding d by simp
  from signed_request_survives_transmit [OF list_headers_law a p this _ _ t, of "''x-amz-date''"] show ?thesis
    unfolding t d by (simp add: AUTH_WHITELIST_def)
qed

section \<open>Response bodies\<close>

lemma collect_encodings_eq:
  "collect_encodings max_layers ts acc =
    (let n = length (takeWhile (\<lambda>t. from_content_encoding t \<noteq> None) ts)
     in if n = length ts \<and> (ts = [] \<or> length acc + n \<le> max_layers)
        then Inr (acc @ map (the \<circ> from_content_encoding) ts)
        else if length acc + n < max_layers then Inl (UnsupportedEncoding (ts ! n))
        else Inl (TooManyLayers (max (length acc) max_layers + 1, max_layers)))"
proof (induction max_layers ts acc rule: collect_encodings.induct)
  case (2 max_layers t ts acc)
  show ?case
  proof (cases "max_layers < length acc + 1")
    case True
    then show ?thesis
      by (auto simp: validate_response_encoding_layer_count_def Let_def max_def)
  next
    case False
    show ?thesis
    proof (cases "from_content_encoding t")
      case None
      then show ?thesis using False by (simp add: validate_response_encoding_layer_count_def)
    next
      case (Some a)
      then show ?thesis using False 2 
        by (auto simp: validate_response_encoding_layer_count_def Let_def max_def)
    qed
  qed
qed simp

lemma takeWhile_all: "length (takeWhile P xs) = length xs \<longleftrightarrow> list_all P xs"
  by (metis list_all_iff takeWhile_eq_all_conv takeWhile_eq_take take_all_iff order_refl)

lemma collect_supported:
  assumes "list_all (\<lambda>t. from_content_encoding t \<noteq> None) ts" and "length ts \<le> max_layers"
  shows "collect_encodings max_layers ts [] = Inr (map (the \<circ> from_content_encoding) ts)"
  using assms takeWhile_all [THEN iffD2, OF assms(1)] by (simp add: collect_encodings_eq Let_def)

lemma collect_refused:
  assumes "\<not> (list_all (\<lambda>t. from_content_encoding t \<noteq> None) ts \<and> length ts \<le> max_layers)"
  shows "\<exists>e. collect_encodings max_layers ts [] = Inl e"
  using assms by (auto simp: collect_encodings_eq takeWhile_all Let_def dest: takeWhile_all [THEN iffD2])

text \<open>
  C19: which responses are decoded. Without a \<^verbatim>\<open>Content-Encoding\<close> token the response is passed on as
  it is. Otherwise the hook succeeds exactly when every token, over repeated and comma separated
  values, names a supported encoding and their number is within the maximum; the body is then
  decoded in reverse order within the configured limits, and \<^verbatim>\<open>Content-Encoding\<close> and
  \<^verbatim>\<open>Content-Length\<close> are removed, all other headers stay.
\<close>

theorem response_decoding:
  assumes "headers_law H" and "canonical_name m"
  shows "let ts = encoding_tokens (get_all H h ''content-encoding'');
             rc = load_response_compression i cfg;
             result = modify_before_deserialization H dec i cfg h body
    in if ts = [] then result = Inr (h, Inl body)
       else if list_all (\<lambda>t. from_content_encoding t \<noteq> None) ts \<and> length ts \<le> max_encoding_layers rc
       then (\<exists>h' s. result = Inr (h', Inr s)
         \<and> wrap_decompressed_body dec body (map (the \<circ> from_content_encoding) ts)
             (max_encoding_layers rc) (max_decompressed_bytes rc) = Inr s
         \<and> get_all H h' m = (if m = ''content-encoding'' \<or> m = ''content-length'' then [] else get_all H h m))
       else (\<exists>e. result = Inl e)"
proof -
  define ts where "ts = encoding_tokens (get_all H h ''content-encoding'')"
  define rc where "rc = load_response_compression i cfg"
  note defs = modify_before_deserialization_def ts_def [symmetric] rc_def [symmetric] Let_def
  let ?R = "modify_before_deserialization H dec i cfg h body"
  consider (plain) "ts = []"
    | (supported) "ts \<noteq> []" "list_all (\<lambda>t. from_content_encoding t \<noteq> None) ts" "length ts \<le> max_encoding_layers rc"
    | (refused) "ts \<noteq> []" "\<not> (list_all (\<lambda>t. from_content_encoding t \<noteq> None) ts \<and> length ts \<le> max_encoding_layers rc)"
    by blast
  then show ?thesis
  proof cases
    case plain
    then show ?thesis by (simp add: defs)
  next
    case supported
    let ?as = "map (the \<circ> from_content_encoding) ts"
    have "validate_response_encoding_layer_count (length ?as) (max_encoding_layers rc) = None"
      using supported by (simp add: validate_response_encoding_layer_count_def)
    then obtain s where w: "wrap_decompressed_body dec body ?as (max_encoding_layers rc) (max_decompressed_bytes rc) = Inr s"
      unfolding wrap_decompressed_body_def by simp
    have "?R = Inr (header_remove H ''content-length'' (header_remove H ''content-encoding'' h), Inr s)"
      using collect_supported [OF supported(2,3)] supported(1) w by (simp add: defs)
    moreover have "get_all H (header_remove H ''content-length'' (header_remove H ''content-encoding'' h)) m
        = (if m = ''content-encoding'' \<or> m = ''content-length'' then [] else get_all H h m)"
      by (subst headers_lawD(3) [OF assms(1) canonical_literals(6) assms(2)],
          subst headers_lawD(3) [OF assms(1) canonical_literals(5) assms(2)]) simp
    ultimately show ?thesis using supported w by (simp add: defs)
  next
    case refused
    then obtain e where "?R = Inl e" using collect_refused [OF refused(2)] by (auto simp: defs)
    with refused show ?thesis by (simp add: defs)
  qed
qed

theorem response_decoding_witness:
  "modify_before_deserialization list_headers (\<lambda>a b. (b, MemberComplete))
     \<lparr>i_request_compression = compression_disabled, i_response_compression = response_disabled,
      i_optimize_headers = False, i_user_agent = UaDefault, i_preserve_auth_headers = False\<rparr>
     (empty_interceptor_state :: string interceptor_state) [] ([DataFrame [1]], Eof) = Inr ([], Inl ([DataFrame [1]], Eof))"
proof -
  have "encoding_tokens (get_all list_headers [] ''content-encoding'') = []"
    by (simp add: list_get_all encoding_tokens_def)
  with response_decoding [OF list_headers_law canonical_literals(1), where h = "[]" and body = "([DataFrame [1]], Eof)"
      and dec = "\<lambda>a b. (b, MemberComplete)" and cfg = "empty_interceptor_state :: string interceptor_state" and i =
      "\<lparr>i_request_compression = compression_disabled, i_response_compression = response_disabled,
      i_optimize_headers = False, i_user_agent = UaDefault, i_preserve_auth_headers = False\<rparr>"]
  show ?thesis by (simp add: Let_def)
qed

text \<open>
  a per-operation override wins, and only for its own operation's store: after the override
  hooks the retry-loop hook uses the overriding request compression and announces exactly the
  overriding response encodings, whatever the client was built with; without an override it uses
  the client's.
\<close>

theorem override_wins:
  assumes "headers_law H"
  shows "modify_before_retry_loop H C i
      (override_response_compression rsp (override_request_compression rq cfg)) r =
    modify_before_retry_loop H C (i\<lparr>i_request_compression := rq, i_response_compression := rsp\<rparr>)
      (cfg\<lparr>request_compression_store := None, response_compression_store := None\<rparr>) r
    \<and> get_all H (req_headers (modify_before_retry_loop H C i (override_response_compression rsp cfg) r)) ''accept-encoding'' =
      (case accepted_algorithms rsp of
         Some algorithms \<Rightarrow> [accept_encoding_header_value algorithms]
       | None \<Rightarrow> get_all H (req_headers r) ''accept-encoding'')"
proof -
  have "get_all H (req_headers (compress_request H C algorithm level threshold r)) ''accept-encoding''
      = get_all H (req_headers r) ''accept-encoding''" for algorithm level threshold
    using headers_lawD(1,2) [OF assms, of _ "''accept-encoding''"]
    by (auto simp: compress_request_def Let_def split: option.split prod.split compression_algorithm.split)
  then show ?thesis
    using headers_lawD(1) [OF assms, of "''accept-encoding''" "''accept-encoding''"]
    by (auto simp: modify_before_retry_loop_def load_request_compression_def load_response_compression_def
        override_request_compression_def override_response_compression_def Let_def split: option.split)
qed

theorem override_wins_witness:
  "get_all list_headers (req_headers (modify_before_retry_loop list_headers
      \<lparr>gzip_encode = (\<lambda>b l. None), zlib_encode = (\<lambda>b l. None)\<rparr>
      \<lparr>i_request_compression = compression_disabled, i_response_compression = response_disabled,
       i_optimize_headers = False, i_user_agent = UaDefault, i_preserve_auth_headers = False\<rparr>
      (override_response_compression (response_enabled RGzip) (empty_interceptor_state :: string interceptor_state))
      \<lparr>req_headers = [], req_uri = [], req_body = Collected [] :: unit sdk_body\<rparr>)) ''accept-encoding'' = [''gzip'']"
  using override_wins [OF list_headers_law, THEN conjunct2, of "\<lparr>gzip_encode = (\<lambda>b l. None), zlib_encode = (\<lambda>b l. None)\<rparr>"
      "\<lparr>i_request_compression = compression_disabled, i_response_compression = response_disabled,
       i_optimize_headers = False, i_user_agent = UaDefault, i_preserve_auth_headers = False\<rparr>" "response_enabled RGzip"
      "empty_interceptor_state :: string interceptor_state" "\<lparr>req_headers = [], req_uri = [], req_body = Collected [] :: unit sdk_body\<rparr>"]
  by (simp add: response_enabled_def response_new_def accept_encoding_header_value_def)

end
