(* ===== verification/Client_Requests.thy ===== *)
theory Client_Requests
  imports Client_Operations Client_Lifecycle Request_Routing Request_Transport
begin

text \<open>
  A whole operation of a client: the interceptors of \<^verbatim>\<open>src/src/client.rs\<close> in the order in which
  the SDK calls their hooks, once before serialization and then for every attempt. Signing is the
  SDK's; it is the argument \<open>sign\<close>. The theorems here compose those of construction, routing and
  transport.
\<close>

section \<open>The hooks of an operation\<close>

text \<open>The interceptors of an operation are those of its client, then its own.\<close>

definition operation_interceptors :: "('b, 'c, 'x) sdk_api_scheme \<Rightarrow> 'c fluent_builder \<Rightarrow> shared_interceptor list" where
  "operation_interceptors S b = s_interceptors (c_settings S (fb_client b)) @ fb_interceptors b"

text \<open>\<^verbatim>\<open>.customize().alternator_config_override(..)\<close>.\<close>

definition customize :: "operation_builder \<Rightarrow> 'c fluent_builder \<Rightarrow> 'c fluent_builder" where
  "customize config_override b =
     b\<lparr>fb_interceptors := alternator_config_override config_override (fb_interceptors b)\<rparr>"

definition serialization_hook ::
  "('u, 'x) url_api_scheme \<Rightarrow> murmur \<Rightarrow> call \<Rightarrow> input \<Rightarrow> shared_interceptor \<Rightarrow>
   'u interceptor_state \<times> partition_key_resolver \<times> 'u live_state \<Rightarrow>
   'u interceptor_state \<times> partition_key_resolver \<times> 'u live_state" where
  "serialization_hook U murmur c inp i s =
     (case i of
        AffinityQueryPlanInterceptor a \<Rightarrow>
          affinity_before_serialization U murmur a c inp (fst s) (fst (snd s)) (snd (snd s))
      | _ \<Rightarrow> (before_serialization i (fst s), snd s))"

definition serialization_hooks ::
  "('u, 'x) url_api_scheme \<Rightarrow> murmur \<Rightarrow> call \<Rightarrow> input \<Rightarrow> shared_interceptor list \<Rightarrow>
   partition_key_resolver \<Rightarrow> 'u live_state \<Rightarrow>
   'u interceptor_state \<times> partition_key_resolver \<times> 'u live_state" where
  "serialization_hooks U murmur c inp is res st =
     fold (serialization_hook U murmur c inp) is (empty_interceptor_state, res, st)"

text \<open>One attempt of the request \<open>r\<close> that the retry-loop hook left behind.\<close>

datatype attempt_error = RoutingFailed routing_error | SigningFailed | TransmitFailed string

definition attempt ::
  "('u, 'x) url_api_scheme \<Rightarrow> (string \<Rightarrow> bool) \<Rightarrow> ('h, 'y) headers_api_scheme \<Rightarrow> string \<Rightarrow>
   (('h, 's) request \<Rightarrow> ('h, 's) request option) \<Rightarrow> alternator_interceptor \<Rightarrow> ('h, 's) request \<Rightarrow>
   call \<Rightarrow> 'u interceptor_state \<Rightarrow> 'u live_state \<Rightarrow>
   (attempt_error + ('h, 's) request) \<times> 'u interceptor_state \<times> 'u live_state" where
  "attempt U uri_ok H version sign i r c cfg st =
     (case modify_before_signing U uri_ok c cfg st r of
        (r1, Some e, cfg', st') \<Rightarrow> (Inl (RoutingFailed e), cfg', st')
      | (r1, None, cfg', st') \<Rightarrow>
          (case sign r1 of
             None \<Rightarrow> (Inl SigningFailed, cfg', st')
           | Some r2 \<Rightarrow>
               let cfg'' = read_after_signing H r2 cfg'
               in case modify_before_transmit H version i cfg'' r2 of
                    (wire, Some e) \<Rightarrow> (Inl (TransmitFailed e), cfg'', st')
                  | (wire, None) \<Rightarrow> (Inr wire, cfg'', st')))"

text \<open>The attempts of an operation, with other users of the live nodes acting before each.\<close>

fun send ::
  "('u, 'x) url_api_scheme \<Rightarrow> (string \<Rightarrow> bool) \<Rightarrow> ('h, 'y) headers_api_scheme \<Rightarrow> string \<Rightarrow>
   (('h, 's) request \<Rightarrow> ('h, 's) request option) \<Rightarrow> alternator_interceptor \<Rightarrow> ('h, 's) request \<Rightarrow>
   (call \<times> ('u live_state \<Rightarrow> 'u live_state)) list \<Rightarrow> 'u interceptor_state \<Rightarrow> 'u live_state \<Rightarrow>
   (attempt_error + ('h, 's) request) list" where
  "send U uri_ok H version sign i r [] cfg st = []"
| "send U uri_ok H version sign i r ((c, env) # es) cfg st =
     (let (x, cfg', st') = attempt U uri_ok H version sign i r c cfg (env st)
      in x # send U uri_ok H version sign i r es cfg' st')"

text \<open>What signing with headers does not touch.\<close>

definition sign_law :: "(('h, 's) request \<Rightarrow> ('h, 's) request option) \<Rightarrow> bool" where
  "sign_law sign \<longleftrightarrow> (\<forall>r s. sign r = Some s \<longrightarrow> req_uri s = req_uri r \<and> req_body s = req_body r)"

text \<open>
  The outcome of an attempt at a node (\<open>None\<close>: there was none): it reached the wire with that
  node's URI, or it failed before, and then not for want of a node.
\<close>

definition sent_to ::
  "('u, 'x) url_api_scheme \<Rightarrow> 'u option \<Rightarrow> attempt_error + ('h, 's) request \<Rightarrow> bool" where
  "sent_to U x outcome =
     (case outcome of
        Inl e \<Rightarrow> (x = None) = (e = RoutingFailed NoLiveNode)
      | Inr wire \<Rightarrow> (\<exists>n. x = Some n \<and> uri_of_node U n (req_uri wire)))"

section \<open>Facts\<close>

lemma read_after_signing_plan [simp]: "query_plan_store (read_after_signing H r cfg) = query_plan_store cfg"
  by (simp add: read_after_signing_def)

lemma attempt_sent_to:
  assumes "url_set_law U" and "sign_law sign" and "query_plan_store cfg = Some p"
    and "next_node_or_restart c p st = (x, p', s')"
    and "attempt U uri_ok H version sign i r c cfg st = (outcome, cfg', st')"
  shows "sent_to U x outcome \<and> query_plan_store cfg' = Some p' \<and> st' = s'"
proof -
  obtain r1 e cfg1 st1 where m: "modify_before_signing U uri_ok c cfg st r = (r1, e, cfg1, st1)"
    by (metis prod_cases4)
  note node = before_signing_node [OF assms(1,3) m assms(4)]
  have uri: "sign q = Some s \<Longrightarrow> modify_before_transmit H version i k s = (w, e') \<Longrightarrow> req_uri w = req_uri q" for q s k w e'
    using transmit_frame [of H version i k s w e'] assms(2) by (simp add: sign_law_def)
  show ?thesis
  proof (cases e)
    case None
    then obtain n where n: "x = Some n" "uri_of_node U n (req_uri r1)" using node by auto
    from None m assms(5) n node show ?thesis
      by (auto simp: attempt_def sent_to_def Let_def split: option.splits prod.splits dest: uri)
  next
    case (Some err)
    with m assms(5) node show ?thesis by (auto simp: attempt_def sent_to_def)
  qed
qed

lemma send_attempts:
  assumes "url_set_law U" and "sign_law sign" and "query_plan_store cfg = Some p"
  shows "list_all2 (sent_to U) (attempts es p st) (send U uri_ok H version sign i r es cfg st)"
  using assms(3)
proof (induction es arbitrary: cfg p st)
  case (Cons e es)
  obtain c env where e: "e = (c, env)" by (cases e)
  obtain x p' s' where n: "next_node_or_restart c p (env st) = (x, p', s')"
    by (cases "next_node_or_restart c p (env st)")
  obtain outcome cfg' st' where a: "attempt U uri_ok H version sign i r c cfg (env st) = (outcome, cfg', st')"
    by (cases "attempt U uri_ok H version sign i r c cfg (env st)")
  from attempt_sent_to [OF assms(1,2) Cons.prems n a] Cons.IH [of cfg' p' st'] n a show ?case
    by (simp add: e)
qed simp

text \<open>The state that the hooks of a client leave, when no user interceptor runs among them.\<close>

lemma overrides_keep_plan:
  "query_plan_store (fst (fold (serialization_hook U murmur c inp) (fb_interceptors (fold customize overrides b)) s))
     = query_plan_store (fst (fold (serialization_hook U murmur c inp) (fb_interceptors b) s))
   \<and> snd (fold (serialization_hook U murmur c inp) (fb_interceptors (fold customize overrides b)) s)
     = snd (fold (serialization_hook U murmur c inp) (fb_interceptors b) s)"
proof (induction overrides rule: rev_induct)
  case (snoc x xs)
  then show ?case
    by (auto simp: customize_def alternator_config_override_def serialization_hook_def before_serialization_def
        override_request_compression_def override_response_compression_def Let_def split: option.split)
qed simp

lemma customize_client [simp]: "fb_client (fold customize overrides b) = fb_client b"
  by (induction overrides arbitrary: b) (simp_all add: customize_def)

lemma client_hooks:
  assumes "sdk_law S" and "try_from_conf S VB U env fits rt now config = Inr client"
    and "s_interceptors (c_settings S (dynamodb_config config)) = []" and "b \<in> set (all_operations client)"
    and "s' = serialization_hooks U murmur c inp (operation_interceptors S (fold customize overrides b)) res st"
    and "t = fold (serialization_hook U murmur c inp) (routing_interceptors config) (empty_interceptor_state, res, st)"
  shows "query_plan_store (fst s') = query_plan_store (fst t) \<and> snd s' = snd t"
proof -
  have "serialization_hook U murmur c inp (AlternatorInterceptor i) s = s" for i s
    by (simp add: serialization_hook_def before_serialization_def)
  then show ?thesis
    using overrides_keep_plan [of U murmur c inp overrides b t] all_operations_client [OF assms(4)]
      client_main_interceptors [OF assms(1,2)] assms(3)
    by (simp add: serialization_hooks_def operation_interceptors_def assms(5,6))
qed

lemma image_repeat: "image_mset f (repeat_mset k M) = repeat_mset k (image_mset f M)"
  by (induction k) simp_all

lemma map_the_Some:
  assumes "None \<notin> set xs"
  shows "map Some (map the xs) = xs"
  using assms by (induction xs) auto

text \<open>Without affinity, the plan of an operation is a fresh round-robin pass.\<close>

lemma client_plan:
  assumes "sdk_law S" and "try_from_conf S VB U env fits rt now config = Inr client"
    and "s_interceptors (c_settings S (dynamodb_config config)) = []" and "b \<in> set (all_operations client)"
    and "serialization_hooks U murmur c inp (operation_interceptors S (fold customize overrides b)) res st
      = (cfg, res', st')"
    and mode: "\<not> config_without_discovery config" "enabled_affinity config = None"
  shows "query_plan_store cfg = Some (new_basic OrdinaryHandle)" "res' = res" "st' = st"
  using client_hooks [OF assms(1-4) assms(5) [symmetric] refl] mode
  by (simp_all add: routing_interceptors_def serialization_hook_def before_serialization_def
      round_robin_before_serialization_def)

text \<open>The attempts of a plan that starts a round-robin pass.\<close>

lemma round_robin_sends:
  assumes "url_set_law U" and "sign_law sign" and plan: "query_plan_store cfg = Some (new_basic OrdinaryHandle)"
    and others: "keeps_members OrdinaryHandle es"
    and len: "length es = k * card (set (live_nodes (ordinary_view st)))"
  shows "\<exists>ns. mset ns = repeat_mset k (mset_set (set (live_nodes (ordinary_view st))))
    \<and> list_all2 (sent_to U) (map Some ns) (send U uri_ok H version sign i r es cfg st)"
proof -
  let ?xs = "attempts es (new_basic OrdinaryHandle) st"
  have view: "view_of OrdinaryHandle st = ordinary_view st" by (simp add: view_of_def)
  have spread: "mset ?xs = image_mset Some (repeat_mset k (mset_set (set (live_nodes (ordinary_view st)))))"
    using attempts_round_robin [OF others, of k st "{}"] len by (simp add: view new_basic_def image_repeat)
  then have "None \<notin> set ?xs" by (metis (no_types) imageE option.distinct(1) set_image_mset set_mset_mset)
  then have some: "map Some (map the ?xs) = ?xs" by (rule map_the_Some)
  have "mset (map the ?xs) = repeat_mset k (mset_set (set (live_nodes (ordinary_view st))))"
    using arg_cong [OF spread, of "image_mset the"] by (simp add: image_mset.compositionality comp_def)
  moreover have "list_all2 (sent_to U) (map Some (map the ?xs)) (send U uri_ok H version sign i r es cfg st)"
    unfolding some by (rule send_attempts [OF assms(1,2) plan])
  ultimately show ?thesis by blast
qed

section \<open>Correctness\<close>

text \<open>
  C7: the attempts of a request spread evenly. Whatever operation is sent by a discovering client
  without key route affinity whose configuration brings no interceptors of the user's own (those may
  rewrite a request at will), and whatever driver overrides it has: while the membership stays the
  same,
  \<open>k\<close> times as many attempts as there are distinct live nodes go to each of them exactly \<open>k\<close>
  times, whatever other requests and discovery do in between; preparing the request changes
  neither the resolver nor the live state.
\<close>

theorem client_attempts_spread:
  assumes "sdk_law S" and "url_set_law U" and "sign_law sign"
    and client: "try_from_conf S VB U env fits rt now config = Inr client"
    and mode: "\<not> config_without_discovery config" "enabled_affinity config = None"
    and user: "s_interceptors (c_settings S (dynamodb_config config)) = []"
    and op: "b \<in> set (all_operations client)"
    and hooks: "serialization_hooks U murmur c inp (operation_interceptors S (fold customize overrides b)) res st
      = (cfg, res', st')"
    and others: "keeps_members OrdinaryHandle es"
    and len: "length es = k * card (set (live_nodes (ordinary_view st)))"
  shows "\<exists>ns. mset ns = repeat_mset k (mset_set (set (live_nodes (ordinary_view st))))
    \<and> list_all2 (sent_to U) (map Some ns)
        (send U uri_ok H version sign (client_interceptor config) r es cfg st')
    \<and> res' = res \<and> st' = st"
proof -
  note plan = client_plan [OF assms(1) client user op hooks mode]
  from round_robin_sends [OF assms(2,3) plan(1) others len] show ?thesis unfolding plan(2,3) by blast
qed

theorem client_attempts_spread_witness:
  "\<exists>client cfg ns. try_from_conf record_sdk (\<lambda>c rc. None) text_url example_env (\<lambda>t. True) (Some 7) 0 example_config = Inr client
    \<and> mset ns = {#''http://a'', ''http://b''#}
    \<and> list_all2 (sent_to text_url) (map Some ns)
        (send text_url (\<lambda>u. True) list_headers ''1'' Some (client_interceptor example_config)
          \<lparr>req_headers = [], req_uri = ''http://b'', req_body = Collected [] :: unit sdk_body\<rparr>
          [((None, 1), id), ((None, 2), id)] cfg
          \<lparr>ordinary_view = view_new from_cluster [''http://a'', ''http://b''], affinity_nodes = None, manager = None\<rparr>)"
proof -
  let ?st = "\<lparr>ordinary_view = view_new from_cluster [''http://a'', ''http://b''], affinity_nodes = None, manager = None\<rparr>"
  let ?es = "[((None, 1), id), ((None, 2), id)] :: (call \<times> (string live_state \<Rightarrow> string live_state)) list"
  obtain client where c: "try_from_conf record_sdk (\<lambda>c rc. None) text_url example_env (\<lambda>t. True) (Some 7) 0 example_config = Inr client"
    using example_client by blast
  obtain cfg res' st' where h: "serialization_hooks text_url (\<lambda>b s. 0) (None, 0) (OtherInput)
      (operation_interceptors record_sdk (fold customize [] (list_tables client))) (new_with_timeout Map.empty None) ?st
      = (cfg, res', st')" by (metis prod_cases3)
  have sign: "sign_law (Some :: ((string \<times> string) list, unit) request \<Rightarrow> _)" by (simp add: sign_law_def)
  have mode: "\<not> config_without_discovery example_config" "enabled_affinity example_config = None"
    by (simp_all add: example_config_settings enabled_affinity_def)
  have user: "s_interceptors (c_settings record_sdk (dynamodb_config example_config)) = []"
    by (simp add: example_config_def build_def set_seed_hosts_def builder_new_def record_sdk_def empty_settings_def)
  have op: "list_tables client \<in> set (all_operations client)" by (simp add: all_operations_def)
  have len: "length ?es = 1 * card (set (live_nodes (ordinary_view ?st)))" by (simp add: view_new_def)
  have ms: "repeat_mset 1 (mset_set (set (live_nodes (ordinary_view ?st)))) = {#''http://a'', ''http://b''#}"
    by (simp add: view_new_def add_mset_commute)
  from client_attempts_spread [OF record_sdk_law text_url_set_law sign c mode user op h _ len, unfolded ms,
      of "\<lambda>u. True" list_headers "''1''" "\<lparr>req_headers = [], req_uri = ''http://b'', req_body = Collected []\<rparr>"] c
  show ?thesis by (auto simp del: send.simps)
qed

text \<open>The order of an affinity plan.\<close>

definition affinity_order :: "('u, 'x) url_api_scheme \<Rightarrow> u64 \<Rightarrow> 'u list \<Rightarrow> 'u list" where
  "affinity_order U hash nodes = the (drain (rng_new hash) (sort_node_urls U nodes) [])"

lemma affinity_sends:
  assumes "sdk_law S" and U: "url_eq_law U" "url_set_law U" and "sign_law sign"
    and client: "try_from_conf S VB U env fits rt now config = Inr client"
    and mode: "\<not> config_without_discovery config" "enabled_affinity config = Some a"
    and user: "s_interceptors (c_settings S (dynamodb_config config)) = []"
    and op: "b \<in> set (all_operations client)"
    and hooks: "serialization_hooks U murmur c inp (operation_interceptors S (fold customize overrides b)) res st
      = (cfg, res', st')"
    and item: "from_input inp = Some dop" "\<forall>r. dop \<noteq> BatchWrite r" "should_apply dop (affinity_type a)"
    and key: "partition_key_candidates dop = [cand]" "key_hash murmur (cache res) cand = Some h"
    and nodes: "nodes = live_nodes (view_of (if has_rack_restriction (case config_routing_scope config of
        None \<Rightarrow> from_cluster | Some s \<Rightarrow> s) then AuxiliaryHandle else OrdinaryHandle) st)" "nodes \<noteq> []"
  shows "list_all2 (sent_to U)
      (map (\<lambda>k. Some (affinity_order U h nodes ! (k mod length nodes))) [0..<length es])
      (send U uri_ok H version sign (client_interceptor config) r es cfg st')
    \<and> mset (affinity_order U h nodes) = mset nodes
    \<and> (\<forall>nodes'. mset nodes' = mset nodes \<longrightarrow> affinity_order U h nodes' = affinity_order U h nodes)"
proof -
  define i where "i = \<lparr>a_config = a, a_routing_nodes = OrdinaryHandle,
      a_affinity_nodes = (if has_rack_restriction (case config_routing_scope config of
        None \<Rightarrow> from_cluster | Some s \<Rightarrow> s) then AuxiliaryHandle else OrdinaryHandle)\<rparr>"
  have routing: "routing_interceptors config = [AffinityQueryPlanInterceptor i]"
    using mode by (simp add: routing_interceptors_def i_def)
  have "affinity_type a \<noteq> AffinityNone"
    using item(3) by (cases dop) (auto simp: should_apply_def should_apply_put_def should_apply_delete_def
        should_apply_update_def)
  then obtain ns where ns: "fst (get_query_plan U murmur i c inp res st) = \<lparr>plan_live_nodes = a_affinity_nodes i, plan_state = Ordered ns 0\<rparr>"
      "drain (rng_new h) (sort_node_urls U nodes) [] = Some ns" "mset ns = mset nodes"
    using single_key_plan [of i inp dop cand murmur res h U c st] item key nodes(1) by (auto simp: i_def)
  have plan: "query_plan_store cfg = Some \<lparr>plan_live_nodes = a_affinity_nodes i, plan_state = Ordered ns 0\<rparr>"
    using client_hooks [OF assms(1) client user op hooks [symmetric] refl] ns(1)
    by (auto simp: routing serialization_hook_def affinity_before_serialization_def split: prod.splits)
  have order: "affinity_order U h nodes = ns" by (simp add: affinity_order_def ns(2))
  have ne: "ns \<noteq> []" "length ns = length nodes" using ns(3) nodes(2) by (auto dest: mset_eq_length)
  have "attempts es \<lparr>plan_live_nodes = a_affinity_nodes i, plan_state = Ordered ns 0\<rparr> st' =
      map (\<lambda>k. Some (affinity_order U h nodes ! (k mod length nodes))) [0..<length es]"
    using attempts_ordered [OF ne(1), of 0 es] ne(2) by (simp add: order)
  moreover have "affinity_order U h nodes' = affinity_order U h nodes" if "mset nodes' = mset nodes" for nodes'
  proof -
    have "sort_node_urls U nodes' = sort_node_urls U nodes"
      unfolding sort_node_urls_def using U(1) that by (intro sort_key_mset_unique) (auto simp: url_eq_law_def)
    then show ?thesis by (simp add: affinity_order_def)
  qed
  ultimately show ?thesis
    using send_attempts [OF U(2) assms(4) plan, of es st'] ns(3) by (auto simp: order)
qed

text \<open>
  C3: key route affinity, end to end. Take a client with affinity whose configuration brings no
  interceptors of the user's own (those may rewrite a request at will), and a single-item operation
  that qualifies for affinity: a put, an update or a delete that the configured mode covers (any of
  them, or only those that read before they write), with one candidate for its partition key, whose
  table's key name is known and whose key can be hashed. With any overrides, attempt \<open>k\<close> goes to
  node \<open>k\<close> (from 0, modulo their number) of an order of the affinity membership that is determined
  by the hash of the key and by which nodes there are, not by their order in the membership, the
  client, the operation or what happens to the membership between the attempts.
\<close>

theorem client_attempts_affinity:
  assumes "sdk_law S" and U: "url_eq_law U" "url_set_law U" and "sign_law sign"
    and client: "try_from_conf S VB U env fits rt now config = Inr client"
    and mode: "\<not> config_without_discovery config" "enabled_affinity config = Some a"
    and user: "s_interceptors (c_settings S (dynamodb_config config)) = []"
    and op: "b \<in> set (all_operations client)"
    and hooks: "serialization_hooks U murmur c inp (operation_interceptors S (fold customize overrides b)) res st
      = (cfg, res', st')"
    and item: "from_input inp = Some dop" "\<forall>r. dop \<noteq> BatchWrite r" "should_apply dop (affinity_type a)"
    and key: "partition_key_candidates dop = [cand]" "key_hash murmur (cache res) cand = Some h"
    and nodes: "nodes = live_nodes (view_of (if has_rack_restriction (case config_routing_scope config of
        None \<Rightarrow> from_cluster | Some s \<Rightarrow> s) then AuxiliaryHandle else OrdinaryHandle) st)" "nodes \<noteq> []"
  shows "list_all2 (sent_to U)
      (map (\<lambda>k. Some (affinity_order U h nodes ! (k mod length nodes))) [0..<length es])
      (send U uri_ok H version sign (client_interceptor config) r es cfg st')
    \<and> mset (affinity_order U h nodes) = mset nodes
    \<and> (\<forall>nodes'. mset nodes' = mset nodes \<longrightarrow> affinity_order U h nodes' = affinity_order U h nodes)"
  using assms by (rule affinity_sends)

definition affinity_config :: "sdk_settings alternator_config" where
  "affinity_config = build record_sdk text_url
     (set_key_route_affinity (config_from_type AnyWrite) (set_seed_hosts [''b'', ''a''] (builder_new record_sdk)))"

lemma affinity_config_settings:
  "config_seed_hosts affinity_config = Some [''b'', ''a'']" "scheme_or_http affinity_config = ''http''"
  "config_port affinity_config = None" "\<not> config_without_discovery affinity_config"
  "config_http_client record_sdk affinity_config = None" "config_discovery_timeout affinity_config = None"
  "enabled_affinity affinity_config = Some (config_from_type AnyWrite)"
  "config_routing_scope affinity_config = None"
  "s_interceptors (c_settings record_sdk (dynamodb_config affinity_config)) = []"
  "\<not> x_stalled_stream_protection_explicitly_unset (config_ext affinity_config)"
  by (simp_all add: affinity_config_def build_def set_seed_hosts_def set_key_route_affinity_def builder_new_def
      default_extensions_def record_sdk_def empty_settings_def config_seed_hosts_def scheme_or_http_def
      config_scheme_def config_port_def config_without_discovery_def config_http_client_def
      config_discovery_timeout_def config_key_route_affinity_def enabled_affinity_def is_enabled_def
      config_from_type_def config_routing_scope_def)

lemma affinity_client:
  "\<exists>client. try_from_conf record_sdk (\<lambda>c rc. None) text_url example_env (\<lambda>t. True) (Some 7) 0 affinity_config = Inr client"
proof -
  obtain st where st: "try_new record_sdk text_url example_env 0 affinity_config = Inr (Some st)"
    using two_seeds_try_new [OF affinity_config_settings(1-5)] by blast
  from accepted_configuration [OF record_sdk_law _ st affinity_config_settings(10)]
  show ?thesis by (simp add: timeout_refused_def affinity_config_settings)
qed

theorem client_attempts_affinity_witness:
  "\<exists>client cfg st'. try_from_conf record_sdk (\<lambda>c rc. None) text_url example_env (\<lambda>t. True) (Some 7) 0 affinity_config = Inr client
    \<and> list_all2 (sent_to text_url)
        (map (\<lambda>k. Some (affinity_order text_url 7 [''http://a'', ''http://b''] ! (k mod 2))) [0..<3])
        (send text_url (\<lambda>u. True) list_headers ''1'' Some (client_interceptor affinity_config)
          \<lparr>req_headers = [], req_uri = ''http://b'', req_body = Collected [] :: unit sdk_body\<rparr>
          [((None, 1), id), ((None, 2), id), ((None, 3), id)] cfg st')"
proof -
  let ?st = "\<lparr>ordinary_view = view_new from_cluster [''http://a'', ''http://b''], affinity_nodes = None, manager = None\<rparr>"
  let ?es = "[((None, 1), id), ((None, 2), id), ((None, 3), id)] :: (call \<times> (string live_state \<Rightarrow> string live_state)) list"
  let ?put = "\<lparr>put_table_name = Some ''t'', put_item = Some [(''k'', AvS ''v'')],
           put_condition_expression = None, put_expected = None, put_return_values = None\<rparr>"
  let ?cand = "\<lparr>cand_table_name = ''t'', cand_attributes = [(''k'', AvS ''v'')]\<rparr>"
  let ?res = "new_with_timeout [''t'' \<mapsto> ''k''] None"
  obtain client where c: "try_from_conf record_sdk (\<lambda>c rc. None) text_url example_env (\<lambda>t. True) (Some 7) 0 affinity_config = Inr client"
    using affinity_client by blast
  obtain cfg res' st' where h: "serialization_hooks text_url (\<lambda>b s. 7) (None, 0) (PutItemInput ?put)
      (operation_interceptors record_sdk (fold customize [] (put_item client))) ?res ?st = (cfg, res', st')"
    by (metis prod_cases3)
  have sign: "sign_law (Some :: ((string \<times> string) list, unit) request \<Rightarrow> _)" by (simp add: sign_law_def)
  have op: "put_item client \<in> set (all_operations client)" by (simp add: all_operations_def)
  have q: "should_apply (Put ?put) (affinity_type (config_from_type AnyWrite))"
    by (simp add: config_from_type_def should_apply_def should_apply_put_def)
  have cand: "partition_key_candidates (Put ?put) = [?cand]"
    by (simp add: partition_key_candidates_def single_candidate_def)
  have key: "key_hash (\<lambda>b s. 7) (cache ?res) ?cand = Some 7"
    by (simp add: key_hash_def new_with_timeout_def hash_attribute_value_def)
  have scope: "\<not> has_rack_restriction from_cluster" by code_simp
  have nodes: "[''http://a'', ''http://b''] = live_nodes (view_of (if has_rack_restriction (case config_routing_scope affinity_config of
        None \<Rightarrow> from_cluster | Some s \<Rightarrow> s) then AuxiliaryHandle else OrdinaryHandle) ?st)"
    by (simp add: affinity_config_settings scope view_of_def view_new_def)
  have item: "from_input (PutItemInput ?put) = Some (Put ?put)" "\<forall>r. Put ?put \<noteq> BatchWrite r" by simp_all
  have len: "length ?es = 3" "length [''http://a'', ''http://b''] = 2" by simp_all
  note sent = client_attempts_affinity [where es = ?es and uri_ok = "\<lambda>u. True" and H = list_headers and version = "''1''"
      and r = "\<lparr>req_headers = [], req_uri = ''http://b'', req_body = Collected []\<rparr>",
      OF record_sdk_law text_url_eq_law text_url_set_law sign c affinity_config_settings(4,7,9)
        op h item q cand key nodes, OF list.distinct(2), THEN conjunct1, unfolded len]
  show ?thesis by (intro exI conjI, rule c, rule sent)
qed

text \<open>What the transmit hook leaves of the headers of a signed request, name by name.\<close>

definition dropped_after_signing ::
  "('h, 'y) headers_api_scheme \<Rightarrow> alternator_interceptor \<Rightarrow> 'h \<Rightarrow> string \<Rightarrow> bool" where
  "dropped_after_signing H i h m \<longleftrightarrow> i_optimize_headers i
     \<and> (\<exists>a hs. get_all H h ''authorization'' = [a] \<and> parse_signed_headers a = Some hs
          \<and> m \<notin> set (BASE_WHITELIST @ AUTH_WHITELIST @ hs))"

lemma signed_headers_transmitted:
  assumes H: "headers_law H" and c: "canonical_name m"
    and signed: "contains_key H (req_headers s) ''authorization''" "contains_key H (req_headers s) ''x-amz-date''"
    and t: "modify_before_transmit H version i (read_after_signing H s k) s = (wire, None)"
  shows "get_all H (req_headers wire) m =
    (if m = ''user-agent'' then (case resolve version (i_user_agent i) of None \<Rightarrow> [] | Some v \<Rightarrow> [v])
     else if dropped_after_signing H i (req_headers s) m then [] else get_all H (req_headers s) m)"
proof -
  let ?r = "if i_optimize_headers i then strip_headers H True s else s"
  have ap: "apply_user_agent H version (i_user_agent i) ?r = (wire, None)"
    using t signed by (simp add: modify_before_transmit_def read_after_signing_def Let_def)
  have strip: "get_all H (req_headers ?r) m =
      (if dropped_after_signing H i (req_headers s) m then [] else get_all H (req_headers s) m)"
  proof (cases "headers_to_preserve H (req_headers s) True")
    case None
    then show ?thesis
      by (auto simp: strip_headers_def dropped_after_signing_def headers_to_preserve_def)
  next
    case (Some hs)
    then obtain a where "get_all H (req_headers s) ''authorization'' = [a]" "parse_signed_headers a = Some hs"
      by (auto simp: headers_to_preserve_def split: list.splits)
    with strip_get_all [OF H c Some] show ?thesis by (auto simp: dropped_after_signing_def)
  qed
  have "get_all H (req_headers wire) m = (if m = ''user-agent''
      then (case resolve version (i_user_agent i) of None \<Rightarrow> [] | Some v \<Rightarrow> [v]) else get_all H (req_headers ?r) m)"
    using ap headers_lawD(1,3) [OF H _ c]
    by (auto simp: apply_user_agent_def header_try_insert_def Let_def split: option.splits if_splits)
  with strip show ?thesis by simp
qed

text \<open>
  C8: what is signed is what is sent. A request that reaches the wire was signed after it was
  routed, and as it is sent: the signer got the headers and the body that the retry loop started
  with (compressed and with its \<^verbatim>\<open>Accept-Encoding\<close>), and what it signed keeps its URI and body on
  the wire. Without a query plan the URI is not rewritten. Of the headers of a signed request (one
  with \<^verbatim>\<open>authorization\<close> and \<^verbatim>\<open>x-amz-date\<close>), even if the client was built without authentication,
  exactly two kinds change. The user agent is the configured one, set after signing, so a signature
  that covered it would not hold; and if headers are optimised and there is one \<^verbatim>\<open>authorization\<close> value
  in the SigV4 format, those go that are neither on the two lists of the driver nor covered by the
  signature. With several or unrecognised \<^verbatim>\<open>authorization\<close> values none goes. So every header that
  the signature covers, the user agent apart, is sent as it was signed.
\<close>

theorem signed_is_sent:
  assumes "headers_law H"
    and "attempt U uri_ok H version sign i r c cfg st = (Inr wire, cfg', st')"
  shows "\<exists>routed s. sign routed = Some s
    \<and> req_headers routed = req_headers r \<and> req_body routed = req_body r
    \<and> (query_plan_store cfg = None \<longrightarrow> routed = r)
    \<and> req_uri wire = req_uri s \<and> req_body wire = req_body s
    \<and> (contains_key H (req_headers s) ''authorization'' \<longrightarrow> contains_key H (req_headers s) ''x-amz-date'' \<longrightarrow>
        (\<forall>m. canonical_name m \<longrightarrow> get_all H (req_headers wire) m =
          (if m = ''user-agent'' then (case resolve version (i_user_agent i) of None \<Rightarrow> [] | Some v \<Rightarrow> [v])
           else if dropped_after_signing H i (req_headers s) m then [] else get_all H (req_headers s) m)))"
proof -
  obtain routed s k where m: "modify_before_signing U uri_ok c cfg st r = (routed, None, k, st')"
    and s: "sign routed = Some s"
    and t: "modify_before_transmit H version i (read_after_signing H s k) s = (wire, None)"
    using assms(2) by (auto simp: attempt_def Let_def split: prod.splits option.splits)
  have "req_headers routed = req_headers r \<and> req_body routed = req_body r
      \<and> (query_plan_store cfg = None \<longrightarrow> routed = r)"
    using m by (auto simp: modify_before_signing_def split: option.splits prod.splits sum.splits)
  with s transmit_frame [OF t] signed_headers_transmitted [OF assms(1) _ _ _ t] show ?thesis
    by (intro exI [of _ routed] exI [of _ s]) simp
qed

theorem signed_is_sent_witness:
  "\<exists>wire cfg' st'. attempt text_url (\<lambda>u. True) list_headers ''1''
      (\<lambda>r. Some (r\<lparr>req_headers := [(''host'', ''h''), (''x-amz-date'', ''d''), (''x-extra'', ''e''),
         (''authorization'', ''AWS4-HMAC-SHA256 SignedHeaders=host'')]\<rparr>))
      \<lparr>i_request_compression = compression_disabled, i_response_compression = response_disabled,
       i_optimize_headers = True, i_user_agent = UaDisabled, i_preserve_auth_headers = False\<rparr>
      \<lparr>req_headers = [(''host'', ''h'')], req_uri = ''http://b'', req_body = Collected [] :: unit sdk_body\<rparr>
      (None, 0) (empty_interceptor_state :: string interceptor_state)
      \<lparr>ordinary_view = view_new from_cluster [], affinity_nodes = None, manager = None\<rparr> = (Inr wire, cfg', st')
    \<and> req_uri wire = ''http://b'' \<and> get_all list_headers (req_headers wire) ''host'' = [''h'']
    \<and> get_all list_headers (req_headers wire) ''x-extra'' = []"
proof -
  let ?h = "[(''host'', ''h''), (''x-amz-date'', ''d''), (''x-extra'', ''e''),
         (''authorization'', ''AWS4-HMAC-SHA256 SignedHeaders=host'')]"
  let ?sign = "\<lambda>r :: ((string \<times> string) list, unit) request. Some (r\<lparr>req_headers := ?h\<rparr>)"
  let ?i = "\<lparr>i_request_compression = compression_disabled, i_response_compression = response_disabled,
       i_optimize_headers = True, i_user_agent = UaDisabled, i_preserve_auth_headers = False\<rparr>"
  let ?r = "\<lparr>req_headers = [(''host'', ''h'')], req_uri = ''http://b'', req_body = Collected [] :: unit sdk_body\<rparr>"
  let ?st = "\<lparr>ordinary_view = view_new from_cluster [], affinity_nodes = None, manager = None\<rparr>"
  obtain wire cfg' st' where a: "attempt text_url (\<lambda>u. True) list_headers ''1'' ?sign ?i ?r (None, 0)
      (empty_interceptor_state :: string interceptor_state) ?st = (Inr wire, cfg', st')"
    by (auto simp: attempt_def modify_before_signing_def empty_interceptor_state_def modify_before_transmit_def
        apply_user_agent_def resolve_def Let_def)
  have p: "parse_signed_headers ''AWS4-HMAC-SHA256 SignedHeaders=host'' = Some [''host'']"
    and c: "canonical_name ''host''" "canonical_name ''x-extra''" by code_simp+
  have k: "contains_key list_headers ?h ''authorization''" "contains_key list_headers ?h ''x-amz-date''"
    by (simp_all add: contains_key_def list_get_all)
  have d: "\<not> dropped_after_signing list_headers ?i ?h ''host''" "dropped_after_signing list_headers ?i ?h ''x-extra''"
    using p by (simp_all add: dropped_after_signing_def list_get_all BASE_WHITELIST_def AUTH_WHITELIST_def)
  from signed_is_sent [OF list_headers_law a] obtain routed where
    uri: "req_uri wire = req_uri routed" "routed = ?r" and all: "\<forall>m. canonical_name m \<longrightarrow>
         get_all list_headers (req_headers wire) m =
         (if m = ''user-agent'' then (case resolve ''1'' (i_user_agent ?i) of None \<Rightarrow> [] | Some v \<Rightarrow> [v])
          else if dropped_after_signing list_headers ?i ?h m then [] else get_all list_headers ?h m)"
    using k by (auto simp: empty_interceptor_state_def)
  have "get_all list_headers (req_headers wire) ''host'' = [''h'']"
    "get_all list_headers (req_headers wire) ''x-extra'' = []"
    using all [rule_format, OF c(1)] all [rule_format, OF c(2)] d by (simp_all add: list_get_all)
  with a uri show ?thesis by auto
qed

end
