(* ===== verification/Discovered_Requests.thy ===== *)
theory Discovered_Requests
  imports Client_Requests Agreed_Refresh
begin

text \<open>
  From the configuration to the wire: what a new client starts from, and where its requests go after
  a round of its discovery loop.
\<close>

section \<open>The discovery state of a new client\<close>

lemma spawn_inputs: "spawn_task w b m = (t, m') \<Longrightarrow> m_inputs m' = m_inputs m"
  by (auto simp: spawn_task_def split: prod.splits option.splits)

lemma arrange_recheck_inputs: "m_inputs (arrange_recheck rid ref m) = m_inputs m"
  by (auto simp: arrange_recheck_def set_runtime_def Let_def dest!: spawn_inputs split: option.split prod.split)

lemma retain_inputs: "m_inputs (snd (retain_current rid now m)) = m_inputs m"
  by (auto simp: retain_current_def retain_discovery_owner_def arrange_recheck_inputs set_runtime_def Let_def
      split: option.split prod.split)

lemma ensure_locked_inputs: "m_inputs (ensure_locked rid now m) = m_inputs m"
proof -
  have start: "m_inputs (start_discovery rid now m) = m_inputs m" for m :: "'u discovery_manager"
    by (auto simp: start_discovery_def Let_def abort_task_def set_runtime_def mark_activity_def guard_drop_def
        dest!: spawn_inputs split: prod.split)
  show ?thesis by (auto simp: ensure_locked_def Let_def split_def retain_inputs start)
qed

lemma ensure_inputs: "m_inputs (ensure_discovery_started rt now m) = m_inputs m"
  by (auto simp: ensure_discovery_started_def Let_def split_def retain_inputs ensure_locked_inputs split: option.split)

lemma client_discovery_state:
  assumes "try_from_conf S VB U env fits rt now config = Inr client" and "topology client = [st]"
  obtains m where "manager st = Some m" and "seed_urls (m_inputs m) \<noteq> []"
    and "alternator_scheme (m_inputs m) = scheme_or_http config" and "inputs_port (m_inputs m) = config_port config"
    and "ordinary_view st = view_new (case config_routing_scope config of None \<Rightarrow> from_cluster | Some s \<Rightarrow> s)
      (seed_urls (m_inputs m))"
  using assms(1)
proof (rule try_from_conf_Inr)
  fix live b routing live' keys
  assume new: "try_new S U env now config = Inr live"
    and rt: "choose_routing S VB config live (default_region S config b) = Inr (routing, live', keys)"
    and top: "topology client = (case live' of None \<Rightarrow> [] | Some st \<Rightarrow> [start_discovery_of rt now st])"
  note routing = choose_routing_Inr [OF new rt]
  obtain st' where live': "live' = Some st'" using top assms(2) by (cases live') auto
  then obtain st0 where st0: "live = Some st0" "manager st' = manager st0" "ordinary_view st' = ordinary_view st0"
    using routing(5) by blast
  obtain hosts urls where "hosts \<noteq> []" and coll: "collect_seed_urls U (scheme_or_http config) (config_port config) hosts = Inr urls"
    and b: "build_live_nodes S U env now config urls = Inr st0"
    using new st0(1) unfolding try_new_cases
    by (auto simp: probed_seeds_def split: if_splits sum.splits option.splits)
  then have "urls \<noteq> []" by (auto simp: collect_seed_urls_Inr)
  then have ne: "sort_key (as_str U) urls \<noteq> []" by (metis length_sort length_0_conv)
  from b obtain active idle inp where "manager st0 = Some (new_manager inp active idle now)"
    "seed_urls inp = sort_key (as_str U) urls" "alternator_scheme inp = scheme_or_http config"
    "inputs_port inp = config_port config"
    "ordinary_view st0 = view_new (case config_routing_scope config of None \<Rightarrow> from_cluster | Some s \<Rightarrow> s)
       (sort_key (as_str U) urls)"
    by (elim build_live_nodes_Inr) auto
  with that [of "ensure_discovery_started rt now (new_manager inp active idle now)"] ne top assms(2) live' st0
  show ?thesis by (auto simp: start_discovery_of_def ensure_inputs) (simp add: new_manager_def)
qed

lemma client_topology:
  assumes "try_from_conf S VB U env fits rt now config = Inr client" and "\<not> config_without_discovery config"
  shows "\<exists>st. topology client = [st]"
  using assms(1)
proof (rule try_from_conf_Inr)
  fix live b routing live' keys
  assume new: "try_new S U env now config = Inr live"
    and rt: "choose_routing S VB config live (default_region S config b) = Inr (routing, live', keys)"
    and top: "topology client = (case live' of None \<Rightarrow> [] | Some st \<Rightarrow> [start_discovery_of rt now st])"
  from choose_routing_Inr(2) [OF new rt] assms(2) top show ?thesis by auto
qed

text \<open>After a round of the loop, whatever the view was before.\<close>

lemma requests_after_round:
  assumes "sdk_law S" and "url_set_law U" and "sign_law sign" and U: "url_eq_law U" and shuf: "shuffle_law shuf"
    and client: "try_from_conf S VB U env fits rt now config = Inr client"
    and mode: "\<not> config_without_discovery config" "enabled_affinity config = None"
    and user: "s_interceptors (c_settings S (dynamodb_config config)) = []"
    and view: "view_scope (ordinary_view st1) = scope" "live_nodes (ordinary_view st1) \<noteq> []"
      "latest_published_generation (ordinary_view st1) \<le> next_generation (ordinary_view st1)"
    and m: "manager st1 = Some m"
    and refresh: "loop_iteration U net shuf ref start st1 = Some (pause, st)"
    and seed: "seed \<in> set (seed_urls (m_inputs m))"
    and answers: "agreed_answers U (m_inputs m) net D A scope seed"
    and found: "first_nonempty A (chain_ops scope) = Some ns"
    and op: "b \<in> set (all_operations client)"
    and hooks: "serialization_hooks U murmur c inp (operation_interceptors S (fold customize overrides b)) res st
      = (cfg, res', st')"
    and others: "keeps_members OrdinaryHandle es" and len: "length es = k * card (set ns)"
  shows "\<exists>xs. mset xs = repeat_mset k (mset_set (set ns))
    \<and> list_all2 (sent_to U) (map Some xs) (send U uri_ok H version sign (client_interceptor config) r es cfg st')"
proof -
  obtain outs v where upd: "update_live_nodes_from U (m_inputs m) net shuf Map.empty [] False (ordinary_view st1) = Some (outs, v)"
    and v: "ordinary_view st = v"
    using refresh m by (auto simp: loop_iteration_def update_live_nodes_def Let_def split: option.splits)
  have "live_nodes v = ns"
    using refresh_agreed [OF upd U shuf view(2) seed, unfolded view(1), OF answers view(3) outcomes_of_empty] found
    by (simp add: published_def)
  then have nodes: "live_nodes (ordinary_view st) = ns" by (simp add: v)
  note plan = client_plan [OF assms(1) client user op hooks mode]
  from round_robin_sends [OF assms(2,3) plan(1) others, of k st] len show ?thesis
    unfolding plan(3) nodes by blast
qed

section \<open>The seeds of a new client\<close>

lemma client_seeds:
  assumes "try_from_conf S VB U env fits rt now config = Inr client" and "topology client = [st]"
    and "manager st = Some m" and "config_seed_hosts config = Some hosts"
    and "collect_seed_urls U (scheme_or_http config) (config_port config) hosts = Inr urls"
  shows "set (seed_urls (m_inputs m)) = set urls"
  using assms(1)
proof (rule try_from_conf_Inr)
  fix live b routing live' keys
  assume new: "try_new S U env now config = Inr live"
    and rt: "choose_routing S VB config live (default_region S config b) = Inr (routing, live', keys)"
    and top: "topology client = (case live' of None \<Rightarrow> [] | Some st \<Rightarrow> [start_discovery_of rt now st])"
  obtain st' where live': "live' = Some st'" using top assms(2) by (cases live') auto
  then obtain st0 where st0: "live = Some st0" "manager st' = manager st0"
    using choose_routing_Inr(5) [OF new rt] by blast
  have "build_live_nodes S U env now config urls = Inr st0"
    using new st0(1) assms(4,5) unfolding try_new_cases
    by (auto simp: probed_seeds_def split: if_splits sum.splits)
  then obtain active idle inp where "manager st0 = Some (new_manager inp active idle now)"
    "seed_urls inp = sort_key (as_str U) urls" by (elim build_live_nodes_Inr) auto
  with top assms(2,3) live' st0(2) show ?thesis
    by (auto simp: start_discovery_of_def ensure_inputs) (simp_all add: new_manager_def)
qed

lemma example_client_seeds:
  assumes "try_from_conf record_sdk (\<lambda>c rc. None) text_url example_env (\<lambda>t. True) (Some 7) 0 example_config = Inr client"
    and "topology client = [st]" and "manager st = Some m"
  shows "{''http://a'', ''http://b''} \<subseteq> set (seed_urls (m_inputs m))"
proof -
  have "collect_seed_urls text_url (scheme_or_http example_config) (config_port example_config) [''b'', ''a''] =
      Inr [''http://b'', ''http://a'']"
    unfolding example_config_settings by code_simp
  from client_seeds [OF assms example_config_settings(1) this] show ?thesis by simp
qed

end
