(* ===== verification/Simulation.thy ===== *)
theory Simulation
  imports Main
begin

text \<open>
  Refinement between a component, whose operations are the events of a total step function, and
  an abstract specification given as a step relation: an invariant of the component, an
  abstraction function, and a simulation in which one event is any number of abstract steps.
\<close>

locale event_system =
  fixes step :: "'s \<Rightarrow> 'e \<Rightarrow> 's"
    and inv :: "'s \<Rightarrow> bool"
  assumes inv_step: "inv s \<Longrightarrow> inv (step s e)"
begin

lemma inv_run: "inv s \<Longrightarrow> inv (foldl step s es)"
  by (induction es arbitrary: s) (auto intro: inv_step)

end

locale simulation = event_system +
  fixes abs_of :: "'s \<Rightarrow> 'a"
    and spec :: "'a \<Rightarrow> 'a \<Rightarrow> bool"
  assumes simulates: "inv s \<Longrightarrow> rtranclp spec (abs_of s) (abs_of (step s e))"
begin

lemma refines: "inv s \<Longrightarrow> rtranclp spec (abs_of s) (abs_of (foldl step s es))"
proof (induction es arbitrary: s)
  case (Cons e es)
  from simulates [OF Cons.prems] Cons.IH [OF inv_step [OF Cons.prems]] show ?case
    by (auto intro: rtranclp_trans)
qed simp

text \<open>What every abstract step keeps holds along every run.\<close>

lemma spec_invariant:
  assumes "inv s" and "P (abs_of s)" and "\<And>x y. P x \<Longrightarrow> spec x y \<Longrightarrow> P y"
  shows "P (abs_of (foldl step s es))"
  using refines [OF assms(1)] assms(2,3) by (induction rule: rtranclp_induct) auto

end

end
