(* ===== verification/Client_History.thy ===== *)
theory Client_History
  imports Affinity_Refresh Discovered_Requests Simulation
begin

text \<open>
  The live nodes of a client over its whole life (\<^verbatim>\<open>src/src/live_nodes.rs\<close>): rounds of the discovery
  loop and of the affinity task, refreshes that were cut off or overlap, requests that pick and
  list nodes, and everything that happens to the manager, in any order.
\<close>

section \<open>Histories\<close>

text \<open>
  \<open>BeginRefresh\<close> and \<open>Publication\<close> are the steps of refreshes beside the rounds: a refresh publishes
  under a generation it began, and a complete result only if it has nodes. A round whose
  generation overflows panics before it changes anything.
\<close>

datatype 'u live_event =
    Round "'u network" "'u shuffler" runtime_ref instant
  | AffinityRound "'u network" "'u shuffler" "'u discovery_outcomes" "'u list"
  | BeginRefresh handle
  | Publication handle "'u publication"
  | PickNode handle call "'u set"
  | ListNodes handle call
  | ManagerEvent "'u mgr_event"

definition publishable :: "'u node_view \<Rightarrow> 'u publication \<Rightarrow> bool" where
  "publishable v p \<longleftrightarrow> generation_of p \<le> next_generation v \<and> (\<forall>g. p \<noteq> Full g [])"

fun live_step :: "('u, 'x) url_api_scheme \<Rightarrow> 'u live_state \<Rightarrow> 'u live_event \<Rightarrow> 'u live_state" where
  "live_step U st (Round net shuf ref now) =
     (case loop_iteration U net shuf ref now st of None \<Rightarrow> st | Some (pause, st') \<Rightarrow> st')"
| "live_step U st (AffinityRound net shuf outs cands) =
     (case manager st of
        None \<Rightarrow> st
      | Some m \<Rightarrow> (case run_affinity_task U (m_inputs m) net shuf outs cands st of None \<Rightarrow> st | Some st' \<Rightarrow> st'))"
| "live_step U st (BeginRefresh h) =
     (case begin_refresh (view_of h st) of None \<Rightarrow> st | Some (g, v) \<Rightarrow> set_view h v st)"
| "live_step U st (Publication h p) =
     (if publishable (view_of h st) p then set_view h (publish U (view_of h st) p) st else st)"
| "live_step U st (PickNode h c used) = snd (get_next_node_round_robin h (fst c) (snd c) used st)"
| "live_step U st (ListNodes h c) = snd (get_live_nodes h (fst c) (snd c) st)"
| "live_step U st (ManagerEvent e) = st\<lparr>manager := map_option (\<lambda>m. mgr_step m e) (manager st)\<rparr>"

section \<open>Invariant\<close>

definition view_ok :: "routing_scope \<Rightarrow> 'u node_view \<Rightarrow> bool" where
  "view_ok scope v \<longleftrightarrow> view_scope v = scope \<and> live_nodes v \<noteq> [] \<and> latest_published_generation v \<le> next_generation v"

definition live_inv :: "routing_scope \<Rightarrow> 'u discovery_inputs \<Rightarrow> 'u live_state \<Rightarrow> bool" where
  "live_inv scope inp st \<longleftrightarrow>
     view_ok scope (ordinary_view st)
     \<and> (\<forall>v. affinity_nodes st = Some v \<longrightarrow> view_ok (without_rack scope) v)
     \<and> (\<forall>m. manager st = Some m \<longrightarrow> m_inputs m = inp)"

lemma view_ok_new: "nodes \<noteq> [] \<Longrightarrow> view_ok scope (view_new scope nodes)"
  by (simp add: view_ok_def view_new_def)

text \<open>A refresh publishes under its own generation only.\<close>

lemma cluster_loop_generation:
  "cluster_loop U inp net g cs n acc got v = (n', acc', got', v') \<Longrightarrow> latest_published_generation v \<le> g \<Longrightarrow>
   latest_published_generation v' \<le> g"
proof (induction U inp net g cs n acc got v arbitrary: n' acc' got' v' rule: cluster_loop.induct)
  case (2 U inp net g c cs n acc got v)
  have partial: "latest_published_generation (publish_partial_cluster_live_nodes U g ns v) \<le> g" for ns
    using "2.prems"(2) by (simp add: publish_partial_cluster_live_nodes_def Let_def)
  note loop = "2.prems"(1) [unfolded cluster_loop.simps]
  show ?case
  proof (cases "node_is_in_list U c acc")
    case True
    from loop True have "cluster_loop U inp net g cs n acc got v = (n', acc', got', v')" by simp
    from "2.IH"(1) [OF True this "2.prems"(2)] show ?thesis .
  next
    case False
    show ?thesis
    proof (cases "fetch_live_nodes_for_scope U inp (net n) from_cluster c")
      case None
      from loop False None have "cluster_loop U inp net g cs (Suc n) acc got v = (n', acc', got', v')" by simp
      from "2.IH"(2) [OF False None this "2.prems"(2)] show ?thesis .
    next
      case (Some nodes)
      let ?acc = "sort_dedup (as_str U) (acc @ nodes)"
      let ?v = "if nodes \<noteq> [] then publish_partial_cluster_live_nodes U g ?acc v else v"
      have v: "latest_published_generation ?v \<le> g" using partial "2.prems"(2) by simp
      from loop False Some have "cluster_loop U inp net g cs (Suc n) ?acc True ?v = (n', acc', got', v')"
        by (simp add: Let_def)
      from "2.IH"(3) [OF False Some refl refl this v] show ?thesis .
    qed
  qed
qed simp

lemma refresh_loop_generation:
  "refresh_loop U inp net shuf extra reuse g cs us s n outs v = (n', outs', v') \<Longrightarrow>
   latest_published_generation v \<le> g \<Longrightarrow> latest_published_generation v' \<le> g"
proof (induction cs us s n outs v arbitrary: n' outs' v' rule: refresh_induct)
  case (Nil us s n outs v)
  then show ?case by (simp add: refresh_loop_Nil)
next
  case (Cons node rest us s n outs v)
  obtain n1 r v1 where q: "refresh_query U inp net shuf extra reuse g node s n outs v = (n1, r, v1)"
    by (metis prod_cases3)
  have v1: "latest_published_generation v1 \<le> g"
    using q Cons.prems(2) cluster_loop_generation
    by (fastforce simp: refresh_query_def discover_cluster_live_nodes_from_def split: option.splits if_splits prod.splits)
  have "latest_published_generation (publish_live_nodes g ns v1) \<le> g" for ns
    using v1 by (simp add: publish_live_nodes_def Let_def)
  then show ?case
    using Cons.prems(1) v1 unfolding refresh_loop_Cons [OF q]
    by (auto simp: Let_def split: option.splits if_splits intro: Cons.IH)
qed

lemma update_view_ok:
  assumes "update_live_nodes_from U inp net shuf outs extra reuse v = Some (outs', v')" and "view_ok scope v"
  shows "view_ok scope v'"
proof -
  let ?g = "next_generation v + 1"
  from update_loop [OF assms(1)] obtain n where no_ovf: "next_generation v \<noteq> - 1" and loop:
    "refresh_loop U inp net shuf extra reuse ?g (refresh_queue shuf extra v) False (view_scope v) 0 outs
       (v\<lparr>next_generation := ?g\<rparr>) = (n, outs', v')" by blast
  have "next_generation v \<le> ?g" using inc_greater [OF no_ovf] by simp
  then have "latest_published_generation v \<le> ?g" using assms(2) by (auto simp: view_ok_def)
  with refresh_loop_generation [OF loop] refreshed_loop [OF loop] assms(2) show ?thesis
    by (simp add: refreshed_def view_ok_def)
qed

lemma publish_view_ok:
  assumes "publishable v p" and "view_ok scope v"
  shows "view_ok scope (publish U v p)"
proof -
  have ne: "sort_dedup (as_str U) (live_nodes v @ ns) \<noteq> []" for ns
    using assms(2) by (simp add: view_ok_def)
  show ?thesis using assms ne
    by (cases p) (auto simp: publishable_def view_ok_def publish_live_nodes_def publish_partial_cluster_live_nodes_def Let_def)
qed

lemma begin_view_ok: "begin_refresh v = Some (g, v') \<Longrightarrow> view_ok scope v \<Longrightarrow> view_ok scope v'"
  using inc_greater [of "next_generation v"]
  by (auto simp: begin_refresh_def view_ok_def Let_def split: if_splits)

lemma next_view_ok: "view_next_node used v = (x, v') \<Longrightarrow> view_ok scope v \<Longrightarrow> view_ok scope v'"
  by (auto simp: view_next_node_def view_ok_def Let_def split: if_splits)

text \<open>The scope of the view behind a handle.\<close>

definition handle_scope :: "routing_scope \<Rightarrow> handle \<Rightarrow> 'u live_state \<Rightarrow> routing_scope" where
  "handle_scope scope h st = (if h = AuxiliaryHandle \<and> affinity_nodes st \<noteq> None then without_rack scope else scope)"

lemma view_of_ok: "live_inv scope inp st \<Longrightarrow> view_ok (handle_scope scope h st) (view_of h st)"
  by (auto simp: live_inv_def view_of_def handle_scope_def split: handle.split option.split)

lemma set_view_inv:
  "live_inv scope inp st \<Longrightarrow> view_ok (handle_scope scope h st) v \<Longrightarrow> live_inv scope inp (set_view h v st)"
  by (auto simp: live_inv_def set_view_def handle_scope_def split: handle.split option.split)

lemma access_inv: "live_inv scope inp st \<Longrightarrow> live_inv scope inp (access rt now st)"
  by (auto simp: live_inv_def access_def mark_activity_def ensure_inputs Let_def)

lemma mgr_step_inputs: "m_inputs (mgr_step m e) = m_inputs m"
proof -
  have recheck: "m_inputs (run_recheck owner rid now m) = m_inputs m" for owner rid now and m :: "'u discovery_manager"
    by (simp add: run_recheck_def ensure_inputs)
  show ?thesis
    by (cases e) (auto simp: ensure_inputs ensure_locked_inputs arrange_recheck_inputs recheck mark_activity_def set_runtime_def abort_task_def
        drop_tracked_def guard_drop_def start_affinity_refresh_def Let_def dest!: spawn_inputs
        split: prod.split option.split task_body.split)
qed

lemma start_affinity_inputs: "m_inputs (start_affinity_refresh outs ref st m) = m_inputs m"
  using mgr_step_inputs [of m "AffinityRefresh outs ref st"] by simp

lemma loop_iteration_inv:
  assumes "live_inv scope inp st" and "loop_iteration U net shuf ref now st = Some (pause, st')"
  shows "live_inv scope inp st'"
proof (cases "manager st")
  case (Some m)
  then obtain outs v where u: "update_live_nodes_from U (m_inputs m) net shuf Map.empty [] False (ordinary_view st) = Some (outs, v)"
    and st': "st' = st\<lparr>ordinary_view := v, manager := Some (start_affinity_refresh outs ref (st\<lparr>ordinary_view := v\<rparr>) m)\<rparr>"
    using assms(2) by (auto simp: loop_iteration_def update_live_nodes_def Let_def split: option.splits)
  from update_view_ok [OF u, of scope] assms(1) Some show ?thesis
    by (simp add: live_inv_def st' start_affinity_inputs)
qed (use assms in \<open>simp add: loop_iteration_def\<close>)

lemma affinity_task_inv:
  assumes "live_inv scope inp st" and "run_affinity_task U inp' net shuf outs cands st = Some st'"
  shows "live_inv scope inp st'"
  using assms update_view_ok [of U inp' net shuf outs cands True _ _ _ "without_rack scope"]
  by (fastforce simp: run_affinity_task_def live_inv_def split: option.splits)

lemma get_next_inv:
  assumes "live_inv scope inp st"
  shows "live_inv scope inp (snd (get_next_node_round_robin h rt now used st))"
proof -
  let ?st = "access rt now st"
  have inv: "live_inv scope inp ?st" by (rule access_inv [OF assms])
  obtain x v where n: "view_next_node used (view_of h ?st) = (x, v)" by (cases "view_next_node used (view_of h ?st)")
  from set_view_inv [OF inv next_view_ok [OF n view_of_ok [OF inv]]] n show ?thesis
    by (simp add: get_next_node_round_robin_def)
qed

lemma live_step_inv:
  assumes "live_inv scope inp st"
  shows "live_inv scope inp (live_step U st e)"
proof (cases e)
  case (Round net shuf ref now)
  then show ?thesis using assms loop_iteration_inv [OF assms] by (auto split: option.split)
next
  case (AffinityRound net shuf outs cands)
  then show ?thesis using assms affinity_task_inv [OF assms] by (auto split: option.split)
next
  case (BeginRefresh h)
  then show ?thesis
    using assms set_view_inv [OF assms begin_view_ok [OF _ view_of_ok [OF assms]]] by (auto split: option.split)
next
  case (Publication h p)
  then show ?thesis using assms set_view_inv [OF assms publish_view_ok [where U = U, OF _ view_of_ok [OF assms]]] by simp
next
  case (PickNode h c used)
  then show ?thesis using get_next_inv [OF assms] by simp
next
  case (ListNodes h c)
  then show ?thesis using access_inv [OF assms] by (simp add: get_live_nodes_def Let_def)
next
  case (ManagerEvent e)
  then show ?thesis using assms by (auto simp: live_inv_def mgr_step_inputs)
qed

interpretation live_history: event_system "live_step U" "live_inv scope inp" for U scope inp
  by unfold_locales (rule live_step_inv)

section \<open>The start\<close>

lemma try_new_affinity:
  assumes "try_new S U env now config = Inr (Some st)"
  shows "affinity_nodes st = None"
  using assms by (auto simp: try_new_cases build_live_nodes_def Let_def split: if_splits sum.splits prod.splits)

lemma client_live_inv:
  assumes "try_from_conf S VB U env fits rt now config = Inr client" and "topology client = [st]" and "manager st = Some m"
  shows "live_inv (case config_routing_scope config of None \<Rightarrow> from_cluster | Some s \<Rightarrow> s) (m_inputs m) st"
  using assms(1)
proof (rule try_from_conf_Inr)
  fix live b routing live' keys
  assume new: "try_new S U env now config = Inr live"
    and rt: "choose_routing S VB config live (default_region S config b) = Inr (routing, live', keys)"
    and top: "topology client = (case live' of None \<Rightarrow> [] | Some st \<Rightarrow> [start_discovery_of rt now st])"
  let ?scope = "case config_routing_scope config of None \<Rightarrow> from_cluster | Some s \<Rightarrow> s"
  obtain st' where live': "live' = Some st'" "st = start_discovery_of rt now st'" using top assms(2) by (cases live') auto
  from client_discovery_state [OF assms(1,2)] assms(3) have seeds: "seed_urls (m_inputs m) \<noteq> []"
    and view: "ordinary_view st = view_new ?scope (seed_urls (m_inputs m))" by auto
  obtain m' where m': "manager st' = Some m'" "m_inputs m' = m_inputs m"
    using assms(3) live'(2) by (auto simp: start_discovery_of_def ensure_inputs)
  have scope: "view_scope (ordinary_view st') = ?scope" using view live'(2) by (simp add: start_discovery_of_def view_new_def)
  obtain st0 where live: "live = Some st0" using rt live'(1) by (cases live) (auto simp: choose_routing_def)
  have none: "affinity_nodes st0 = None" by (rule try_new_affinity [OF new [unfolded live]])
  have st0: "st' = st0 \<or> st' = snd (affinity_view st0)"
  proof (cases "enabled_affinity config")
    case None
    then show ?thesis using rt live'(1) by (simp add: choose_routing_def live)
  next
    case (Some a)
    obtain k st1 where "affinity_view st0 = (k, st1)" by (cases "affinity_view st0")
    with Some show ?thesis using rt live'(1) by (auto simp: choose_routing_def live split: sum.splits)
  qed
  have "affinity_nodes st' = None \<or> affinity_nodes st' = Some (view_new (without_rack ?scope) (seed_urls (m_inputs m)))"
    using none st0 m' scope by (auto simp: affinity_view_def split: option.splits if_splits)
  then have "affinity_nodes st = None \<or> affinity_nodes st = Some (view_new (without_rack ?scope) (seed_urls (m_inputs m)))"
    by (simp add: live'(2) start_discovery_of_def)
  with view assms(3) view_ok_new [OF seeds] show ?thesis by (auto simp: live_inv_def)
qed

section \<open>Requests find a node\<close>

definition plan_nonempty :: "'u query_plan \<Rightarrow> bool" where
  "plan_nonempty p \<longleftrightarrow> (case plan_state p of RoundRobin used \<Rightarrow> True | Ordered ns i \<Rightarrow> ns \<noteq> [])"

lemma inv_nodes: "live_inv scope inp st \<Longrightarrow> live_nodes (view_of h st) \<noteq> []"
  using view_of_ok [of scope inp st h] by (simp add: view_ok_def)

lemma hash_plan_nonempty:
  assumes "new_with_hash U h c seed st = Some (p, st')" and "live_nodes (view_of h st) \<noteq> []"
  shows "plan_nonempty p \<and> st' = access (fst c) (snd c) st"
proof -
  obtain ns where "drain (rng_new seed) (sort_node_urls U (live_nodes (view_of h st))) [] = Some ns"
    and "mset ns = mset (live_nodes (view_of h st))"
    using drain_perm [of "rng_new seed" "sort_node_urls U (live_nodes (view_of h st))" "[]"]
    by (auto simp: sort_node_urls_def)
  with assms show ?thesis
    by (auto simp: new_with_hash_def sorted_affinity_nodes_def get_live_nodes_def plan_nonempty_def Let_def)
qed

lemma preferred_plan_nonempty:
  assumes "snapshot \<noteq> []"
  shows "plan_nonempty (new_with_preferred_nodes h preferred snapshot)"
  using preferred_loop_perm [of preferred "[]" snapshot] assms
  by (auto simp: new_with_preferred_nodes_def plan_nonempty_def)

lemma query_plan_nonempty:
  assumes "\<And>h. live_nodes (view_of h st) \<noteq> []" and "get_query_plan U murmur i c x res st = (p, res', st')"
  shows "plan_nonempty p \<and> (st' = st \<or> st' = access (fst c) (snd c) st)"
proof -
  have basic: "plan_nonempty (new_basic h)" for h by (simp add: new_basic_def plan_nonempty_def)
  have sorted: "sort_node_urls U (live_nodes (view_of h st)) \<noteq> []" for h
    using assms(1) [of h] by (metis length_0_conv length_sort sort_node_urls_def)
  have affinity: "(case plan of None \<Rightarrow> True | Some p \<Rightarrow> plan_nonempty p) \<and> (st1 = st \<or> st1 = access (fst c) (snd c) st)"
    if try_plan: "try_affinity_plan U murmur i c x res st = (plan, res1, st1)" for plan res1 st1
  proof (cases "is_enabled (a_config i)")
    case True
    show ?thesis
    proof (cases "from_input x")
      case (Some op)
      show ?thesis
      proof (cases "should_apply op (affinity_type (a_config i))")
        case applies: True
        show ?thesis
        proof (cases "\<exists>r. op = BatchWrite r")
          case batch: True
          from try_plan batch preferred_plan_nonempty [OF sorted [of "a_affinity_nodes i"]] show ?thesis
            by (auto simp: try_affinity_plan_def True Some applies sorted_affinity_nodes_def get_live_nodes_def Let_def
                split: option.splits prod.splits)
        next
          case single: False
          obtain hash res2 where f: "first_hash murmur c (partition_key_candidates op) res = (hash, res2)" by fastforce
          have "(case op of BatchWrite r \<Rightarrow> False | _ \<Rightarrow> True)" using single by (cases op) auto
          with try_plan show ?thesis using hash_plan_nonempty [of U "a_affinity_nodes i" c "the hash" st] assms(1)
            by (auto simp: try_affinity_plan_def True Some applies f Let_def split: option.splits)
        qed
      qed (use try_plan True Some in \<open>simp add: try_affinity_plan_def\<close>)
    qed (use try_plan True in \<open>simp add: try_affinity_plan_def\<close>)
  qed (use try_plan in \<open>simp add: try_affinity_plan_def\<close>)
  obtain plan res1 st1 where t: "try_affinity_plan U murmur i c x res st = (plan, res1, st1)" by (metis prod_cases3)
  from affinity [OF t] assms(2) basic show ?thesis
    by (cases plan) (auto simp: get_query_plan_def t)
qed

lemma next_node_inv:
  assumes "live_inv scope inp st" and "plan_nonempty p" and "next_node c p st = (x, p', st')"
  shows "live_inv scope inp st' \<and> plan_nonempty p'"
  using assms get_next_inv [OF assms(1), of "plan_live_nodes p" "fst c" "snd c"]
  by (auto simp: next_node_def plan_nonempty_def split: query_plan_state.splits prod.splits option.splits if_splits)
    (metis snd_conv)+

lemma next_or_restart_inv:
  assumes "live_inv scope inp st" and "plan_nonempty p" and "next_node_or_restart c p st = (x, p', st')"
  shows "x \<noteq> None \<and> live_inv scope inp st' \<and> plan_nonempty p'"
proof -
  obtain y q s where n: "next_node c p st = (y, q, s)" by (cases "next_node c p st")
  note inv = next_node_inv [OF assms(1,2) n]
  then have r: "plan_nonempty (restart q)" by (auto simp: restart_def plan_nonempty_def split: query_plan_state.splits)
  have "live_inv scope inp st' \<and> plan_nonempty p'"
    using assms(3) inv next_node_inv [OF conjunct1 [OF inv] r] by (auto simp: next_node_or_restart_def n split: option.splits)
  moreover have "x \<noteq> None"
    using next_node_or_restart_routes [of p st c] assms(2,3) inv_nodes [OF assms(1)]
    by (auto simp: plan_nonempty_def Let_def split: query_plan_state.splits)
  ultimately show ?thesis by blast
qed

lemma attempts_found:
  assumes "live_inv scope inp st" and "plan_nonempty p"
    and "\<And>c env s. (c, env) \<in> set es \<Longrightarrow> live_inv scope inp s \<Longrightarrow> live_inv scope inp (env s)"
  shows "None \<notin> set (attempts es p st)"
  using assms
proof (induction es arbitrary: p st)
  case (Cons e es)
  obtain c env where e: "e = (c, env)" by (cases e)
  have inv: "live_inv scope inp (env st)" using Cons.prems(1) Cons.prems(3) [of c env st] e by simp
  obtain x p' st' where n: "next_node_or_restart c p (env st) = (x, p', st')"
    by (cases "next_node_or_restart c p (env st)")
  from next_or_restart_inv [OF inv Cons.prems(2) n] Cons.IH [of st' p'] Cons.prems(3) show ?case
    by (auto simp: e n)
qed simp

lemma client_first_plan:
  assumes "sdk_law S" and "try_from_conf S VB U env fits rt now config = Inr client"
    and "s_interceptors (c_settings S (dynamodb_config config)) = []" and "b \<in> set (all_operations client)"
    and hooks: "serialization_hooks U murmur c inp (operation_interceptors S (fold customize overrides b)) res st
      = (cfg, res', st')"
    and mode: "\<not> config_without_discovery config" and nodes: "\<And>h. live_nodes (view_of h st) \<noteq> []"
  shows "(\<exists>p. query_plan_store cfg = Some p \<and> plan_nonempty p) \<and> (st' = st \<or> st' = access (fst c) (snd c) st)"
proof (cases "enabled_affinity config")
  case None
  from client_plan [OF assms(1-4) hooks mode None] show ?thesis by (simp add: new_basic_def plan_nonempty_def)
next
  case (Some a)
  then obtain i where i: "routing_interceptors config = [AffinityQueryPlanInterceptor i]"
    using mode by (simp add: routing_interceptors_def)
  obtain p res1 st1 where q: "get_query_plan U murmur i c inp res st = (p, res1, st1)" by (metis prod_cases3)
  from query_plan_nonempty [OF nodes q] client_hooks [OF assms(1-4) hooks [symmetric] refl] show ?thesis
    by (auto simp: i serialization_hook_def affinity_before_serialization_def q)
qed

section \<open>Correctness\<close>

text \<open>
  C5: a request always finds a node. Take a discovering client whose configuration brings no
  interceptors of the user's own (those run before the driver's and are not modelled). After any
  history of it (rounds that succeed, fail or find other nodes, refreshes that overlap or are cut
  off, requests of other threads, handoffs of discovery and the stop of the client), and whatever
  history goes on between its attempts, no attempt of any operation fails for want of a live node,
  with round robin and with key route affinity, single items and batches.
\<close>

theorem always_a_node:
  assumes "sdk_law S" and "url_set_law U" and "sign_law sign"
    and client: "try_from_conf S VB U env fits rt now config = Inr client"
    and mode: "\<not> config_without_discovery config"
    and user: "s_interceptors (c_settings S (dynamodb_config config)) = []"
    and top: "topology client = [st0]"
    and op: "b \<in> set (all_operations client)"
    and hooks: "serialization_hooks U murmur c inp (operation_interceptors S (fold customize overrides b)) res
      (foldl (live_step U) st0 history) = (cfg, res', st')"
  shows "Inl (RoutingFailed NoLiveNode) \<notin> set (send U uri_ok H version sign (client_interceptor config) r
    (map (\<lambda>(c, evs). (c, \<lambda>s. foldl (live_step U) s evs)) calls) cfg st')"
proof -
  let ?es = "map (\<lambda>(c, evs). (c, \<lambda>s. foldl (live_step U) s evs)) calls"
  let ?scope = "case config_routing_scope config of None \<Rightarrow> from_cluster | Some s \<Rightarrow> s"
  obtain m where m: "manager st0 = Some m" using client_discovery_state [OF client top] by blast
  have inv: "live_inv ?scope (m_inputs m) (foldl (live_step U) st0 history)"
    by (rule live_history.inv_run [OF client_live_inv [OF client top m]])
  from client_first_plan [OF assms(1) client user op hooks mode inv_nodes [OF inv]] access_inv [OF inv] inv
  obtain p where p: "query_plan_store cfg = Some p" "plan_nonempty p" and inv': "live_inv ?scope (m_inputs m) st'" by auto
  have "None \<notin> set (attempts ?es p st')"
    by (rule attempts_found [OF inv' p(2)]) (auto intro: live_history.inv_run)
  moreover have "x = Some n \<Longrightarrow> sent_to U x out \<Longrightarrow> out \<noteq> Inl (RoutingFailed NoLiveNode)" for x n out
    by (auto simp: sent_to_def)
  ultimately show ?thesis
    using send_attempts [OF assms(2,3) p(1), of ?es st' uri_ok H version "client_interceptor config" r]
    by (fastforce simp: list_all2_conv_all_nth in_set_conv_nth)
qed

text \<open>A round in which no node answers, and a refresh that begins between the attempts.\<close>

theorem always_a_node_witness:
  "\<exists>client st0 cfg st'.
     try_from_conf record_sdk (\<lambda>c rc. None) text_url example_env (\<lambda>t. True) (Some 7) 0 example_config = Inr client
     \<and> topology client = [st0]
     \<and> Inl (RoutingFailed NoLiveNode) \<notin> set (send text_url (\<lambda>u. True) list_headers ''1'' Some
          (client_interceptor example_config)
          \<lparr>req_headers = [], req_uri = ''http://b'', req_body = Collected [] :: unit sdk_body\<rparr>
          (map (\<lambda>(c, evs). (c, \<lambda>s. foldl (live_step text_url) s evs))
             [((None, 1), []), ((None, 2), [BeginRefresh OrdinaryHandle])]) cfg st')"
proof -
  let ?history = "[Round (\<lambda>n u. None) (\<lambda>n xs. xs) 0 1] :: string live_event list"
  obtain client where c: "try_from_conf record_sdk (\<lambda>c rc. None) text_url example_env (\<lambda>t. True) (Some 7) 0 example_config = Inr client"
    using example_client by blast
  have mode: "\<not> config_without_discovery example_config" by (simp add: example_config_settings)
  obtain st0 where top: "topology client = [st0]" using client_topology [OF c mode] by blast
  obtain cfg res' st' where h: "serialization_hooks text_url (\<lambda>b s. 0) (None, 0) OtherInput
      (operation_interceptors record_sdk (fold customize [] (list_tables client))) (new_with_timeout Map.empty None)
      (foldl (live_step text_url) st0 ?history) = (cfg, res', st')" by (metis prod_cases3)
  have user: "s_interceptors (c_settings record_sdk (dynamodb_config example_config)) = []"
    by (simp add: example_config_def build_def set_seed_hosts_def builder_new_def record_sdk_def empty_settings_def)
  have sign: "sign_law (Some :: ((string \<times> string) list, unit) request \<Rightarrow> _)" by (simp add: sign_law_def)
  have op: "list_tables client \<in> set (all_operations client)" by (simp add: all_operations_def)
  note found = always_a_node [OF record_sdk_law text_url_set_law sign c mode user top op h, of "\<lambda>u. True" list_headers "''1''"
      "\<lparr>req_headers = [], req_uri = ''http://b'', req_body = Collected []\<rparr>"
      "[((None, 1), []), ((None, 2), [BeginRefresh OrdinaryHandle])]"]
  show ?thesis by (intro exI conjI, rule c, rule top, rule found)
qed

text \<open>
  C1: requests follow the discovery of their time. Take any point of any history of a discovering
  client without key route affinity whose configuration brings no interceptors of the user's own
  (those may rewrite a request at will). A completed round of the loop makes requests follow what it
  found, whatever earlier rounds published. The cluster has to agree at the time of the round: nodes
  asked for a rack or a datacenter of the configured chain name its members or fail, nodes asked for
  the whole cluster name their own datacenter or fail, one seed always answers, and, when the chain
  reaches the whole cluster, one seed of each datacenter does. If \<open>ns\<close> are the nodes of the first
  scope of the chain that has any (all nodes, for a cluster-wide scope), then, as long as the
  membership stays, \<open>k\<close> times as many attempts of any operation as there are such nodes go to each
  of them exactly \<open>k\<close> times; an attempt that does not reach the wire failed in signing, in the
  rewriting of its request or before transmission, and not for want of a node.
\<close>

theorem requests_follow_rounds:
  assumes "sdk_law S" and "url_set_law U" and "sign_law sign" and U: "url_eq_law U" and shuf: "shuffle_law shuf"
    and client: "try_from_conf S VB U env fits rt now config = Inr client"
    and mode: "\<not> config_without_discovery config" "enabled_affinity config = None"
    and user: "s_interceptors (c_settings S (dynamodb_config config)) = []"
    and top: "topology client = [st0]" "manager st0 = Some m"
    and refresh: "loop_iteration U net shuf ref start (foldl (live_step U) st0 history) = Some (Some pause, st)"
    and scope: "scope = (case config_routing_scope config of None \<Rightarrow> from_cluster | Some s \<Rightarrow> s)"
    and seed: "seed \<in> set (seed_urls (m_inputs m))"
    and answers: "agreed_answers U (m_inputs m) net D A scope seed"
    and found: "first_nonempty A (chain_ops scope) = Some ns"
    and op: "b \<in> set (all_operations client)"
    and hooks: "serialization_hooks U murmur c inp (operation_interceptors S (fold customize overrides b)) res st
      = (cfg, res', st')"
    and others: "keeps_members OrdinaryHandle es" and len: "length es = k * card (set ns)"
  shows "\<exists>xs. mset xs = repeat_mset k (mset_set (set ns))
    \<and> list_all2 (sent_to U) (map Some xs) (send U uri_ok H version sign (client_interceptor config) r es cfg st')"
proof -
  let ?st = "foldl (live_step U) st0 history"
  have inv: "live_inv scope (m_inputs m) ?st"
    unfolding scope by (rule live_history.inv_run [OF client_live_inv [OF client top]])
  then have view: "view_scope (ordinary_view ?st) = scope" "live_nodes (ordinary_view ?st) \<noteq> []"
    "latest_published_generation (ordinary_view ?st) \<le> next_generation (ordinary_view ?st)"
    by (simp_all add: live_inv_def view_ok_def)
  obtain m' where m': "manager ?st = Some m'" using refresh by (auto simp: loop_iteration_def split: option.splits)
  with inv have inputs: "m_inputs m' = m_inputs m" by (simp add: live_inv_def)
  from requests_after_round [OF assms(1-3) U shuf client mode user view m' refresh, unfolded inputs,
      OF seed answers found op hooks others len]
  show ?thesis .
qed

text \<open>
  The default scope, the whole cluster: two datacenters of one node each. An earlier refresh
  published a node that is gone; four attempts go to both nodes twice.
\<close>

theorem requests_follow_rounds_witness:
  "\<exists>client st0 st pause cfg st' xs.
     try_from_conf record_sdk (\<lambda>c rc. None) text_url example_env (\<lambda>t. True) (Some 7) 0 example_config = Inr client
     \<and> topology client = [st0]
     \<and> loop_iteration text_url two_dc_net (\<lambda>n xs. xs) 0 1
         (foldl (live_step text_url) st0 [BeginRefresh OrdinaryHandle, Publication OrdinaryHandle (Full 1 [''http://old''])])
         = Some (Some pause, st)
     \<and> mset xs = {#''http://a'', ''http://a'', ''http://b'', ''http://b''#}
     \<and> list_all2 (sent_to text_url) (map Some xs)
        (send text_url (\<lambda>u. True) list_headers ''1'' Some (client_interceptor example_config)
          \<lparr>req_headers = [], req_uri = ''http://b'', req_body = Collected [] :: unit sdk_body\<rparr>
          (map (\<lambda>i. ((None, i), id)) [1, 2, 3, 4]) cfg st')"
proof -
  let ?es = "map (\<lambda>i. ((None, i), id)) [1, 2, 3, 4] :: (call \<times> (string live_state \<Rightarrow> string live_state)) list"
  let ?r = "\<lparr>req_headers = [], req_uri = ''http://b'', req_body = Collected [] :: unit sdk_body\<rparr>"
  obtain client where c: "try_from_conf record_sdk (\<lambda>c rc. None) text_url example_env (\<lambda>t. True) (Some 7) 0 example_config = Inr client"
    using example_client by blast
  have mode: "\<not> config_without_discovery example_config" "enabled_affinity example_config = None"
    "config_routing_scope example_config = None"
    "s_interceptors (c_settings record_sdk (dynamodb_config example_config)) = []"
    by (simp_all add: example_config_settings enabled_affinity_def)
      (simp_all add: example_config_def build_def set_seed_hosts_def builder_new_def record_sdk_def empty_settings_def
        default_extensions_def config_routing_scope_def)
  obtain st0 where top: "topology client = [st0]" using client_topology [OF c mode(1)] by blast
  from client_discovery_state [OF c top, unfolded example_config_settings mode(3)] obtain m where
    m: "manager st0 = Some m" "seed_urls (m_inputs m) \<noteq> []" "alternator_scheme (m_inputs m) = ''http''"
      "inputs_port (m_inputs m) = None" "ordinary_view st0 = view_new from_cluster (seed_urls (m_inputs m))"
    by auto
  note seeds = example_client_seeds [OF c top m(1)]
  then have seed: "''http://a'' \<in> set (seed_urls (m_inputs m))" by simp
  let ?st1 = "foldl (live_step text_url) st0 [BeginRefresh OrdinaryHandle, Publication OrdinaryHandle (Full 1 [''http://old''])]"
  have st1: "manager ?st1 = Some m" "next_generation (ordinary_view ?st1) = 1"
    by (simp_all add: view_of_def set_view_def begin_refresh_def m publishable_def publish_live_nodes_def view_new_def Let_def)
  have "update_live_nodes text_url two_dc_net (\<lambda>n xs. xs) (ordinary_view ?st1) m \<noteq> None"
    by (simp add: update_live_nodes_def update_live_nodes_from_def begin_refresh_def st1(2) Let_def split_def
        del: foldl.simps)
  then obtain pause st where it: "loop_iteration text_url two_dc_net (\<lambda>n xs. xs) 0 1 ?st1 = Some (Some pause, st)"
    using st1(1) by (auto simp: loop_iteration_def Let_def simp del: foldl.simps)
  obtain cfg res' st' where h: "serialization_hooks text_url (\<lambda>b s. 0) (None, 0) OtherInput
      (operation_interceptors record_sdk (fold customize [] (list_tables client))) (new_with_timeout Map.empty None) st
      = (cfg, res', st')" by (metis prod_cases3)
  have sign: "sign_law (Some :: ((string \<times> string) list, unit) request \<Rightarrow> _)" by (simp add: sign_law_def)
  have shuf: "shuffle_law (\<lambda>n (xs :: string list). xs)" by (simp add: shuffle_law_def)
  note answers = two_dc_agreed [OF m(3,4) seeds]
  have found: "first_nonempty two_dc_answers (chain_ops from_cluster) = Some [''http://a'', ''http://b'']"
    by (simp add: two_dc_answers_def chain_ops_def from_cluster_def)
  have scope: "from_cluster = (case config_routing_scope example_config of None \<Rightarrow> from_cluster | Some s \<Rightarrow> s)"
    by (simp add: mode(3))
  have op: "list_tables client \<in> set (all_operations client)" by (simp add: all_operations_def)
  have len: "length ?es = 2 * card (set [''http://a'', ''http://b''])" by simp
  have others: "keeps_members OrdinaryHandle ?es" by simp
  have ms: "repeat_mset 2 (mset_set (set [''http://a'', ''http://b''])) = {#''http://a'', ''http://a'', ''http://b'', ''http://b''#}"
    by (simp add: numeral_2_eq_2)
  from requests_follow_rounds [OF record_sdk_law text_url_set_law sign text_url_eq_law shuf c mode(1,2,4) top m(1)
      it scope seed answers found op h others len, of "\<lambda>u. True" list_headers "''1''" ?r, unfolded ms]
  obtain xs where xs: "mset xs = {#''http://a'', ''http://a'', ''http://b'', ''http://b''#}"
    "list_all2 (sent_to text_url) (map Some xs)
        (send text_url (\<lambda>u. True) list_headers ''1'' Some (client_interceptor example_config) ?r ?es cfg st')" by blast
  show ?thesis by (intro exI conjI, rule c, rule top, rule it, rule xs(1), rule xs(2))
qed

end
