(* ===== verification/Affinity_Learning.thy ===== *)
theory Affinity_Learning
  imports Client_Requests
begin

text \<open>
  How a client learns to route by key: a request for a table whose key name is unknown starts a
  discovery (\<^verbatim>\<open>src/src/interceptors.rs\<close>, \<^verbatim>\<open>src/src/keyrouting/resolver.rs\<close>) and goes round robin;
  after the discovery the requests for that table go by their key, whatever else the resolver does.
\<close>

section \<open>A discovery among other events\<close>

lemma step_timeout: "discovery_timeout (resolver_step r e) = discovery_timeout r"
proof -
  have settle: "discovery_timeout (settle table now x q) = discovery_timeout q" for table now x q
    by (auto simp: settle_def record_failure_def split: describe_result.split option.split list.split)
  have run: "discovery_timeout (snd (discover_with_retry w table q)) = discovery_timeout q" for w table q
    by (simp add: discover_with_retry_def discover_loop_eq [of 0] INITIAL_RETRY_DELAY_MS_def Let_def settle)
  show ?thesis
    by (cases e) (auto simp: trigger_eq claim_eq started_def run_task_def end_task_def run split: option.split)
qed

lemma run_timeout: "discovery_timeout (foldl resolver_step r es) = discovery_timeout r"
  by (induction es arbitrary: r) (simp_all add: step_timeout)

text \<open>A task keeps its table until it runs or ends.\<close>

lemma step_task:
  assumes "resolver_inv r" and "task_table r t = Some table" and "e \<noteq> EndTask t" and "\<forall>w. e \<noteq> RunTask w t"
  shows "task_table (resolver_step r e) t = Some table"
proof -
  have "t < next_task (r_tasks r)" using assms(1,2) by (auto simp: resolver_inv_def tasks_inv_def)
  then show ?thesis using assms
    by (cases e) (auto simp: trigger_eq claim_eq started_def run_task_def end_task_def discover_frame split: option.split)
qed

lemma run_keeps_task:
  assumes "resolver_inv r" and "task_table r t = Some table"
    and "\<forall>e \<in> set es. e \<noteq> EndTask t \<and> (\<forall>w. e \<noteq> RunTask w t)"
  shows "task_table (foldl resolver_step r es) t = Some table"
  using assms
proof (induction es arbitrary: r)
  case (Cons e es)
  from Cons.prems step_task [of r t table e] resolver_step_inv [of r e] Cons.IH [of "resolver_step r e"]
  show ?case by simp
qed simp

lemma takeWhile_upt:
  assumes "\<forall>i<n. P i" and "\<not> P n" and "n \<le> m"
  shows "takeWhile P [0..<m] = [0..<n]"
proof -
  have "[0..<m] = [0..<n] @ [n..<m]" using assms(3) by (metis le_add_diff_inverse upt_add_eq_append zero_le)
  moreover have "takeWhile P [n..<m] = []" using assms(2) by (cases "n < m") (simp_all add: upt_rec)
  ultimately show ?thesis using assms(1) takeWhile_append2 [of "[0..<n]" P "[n..<m]"] by simp
qed

text \<open>The service answers a discovery, after at most three transient failures, with a schema.\<close>

definition describes ::
  "discovery_world \<Rightarrow> duration option \<Rightarrow> string \<Rightarrow> bool" where
  "describes w timeout pk \<longleftrightarrow>
     (\<exists>n \<le> MAX_RETRIES. (\<forall>i<n. transient (response w timeout i))
       \<and> (\<exists>schema k. response w timeout n = DescribeOk (Some (Some schema))
            \<and> find (\<lambda>k. key_type_of k = HashKey) schema = Some k \<and> attribute_name k = pk))"

lemma describes_learns:
  assumes "describes w (discovery_timeout r) pk" and "task_table r t = Some table"
  shows "cache (run_task w t r) table = Some pk"
proof -
  obtain n schema k where n: "n \<le> MAX_RETRIES" "\<forall>i<n. transient (response w (discovery_timeout r) i)"
    and ok: "response w (discovery_timeout r) n = DescribeOk (Some (Some schema))"
    and k: "find (\<lambda>k. key_type_of k = HashKey) schema = Some k" "attribute_name k = pk"
    using assms(1) by (auto simp: describes_def)
  have "takeWhile (\<lambda>i. transient (response w (discovery_timeout r) i)) [0..<MAX_RETRIES] = [0..<n]"
    using n ok by (intro takeWhile_upt) (auto simp: transient_def)
  then have "snd (discover_with_retry w table r) = settle table (clock w n) (DescribeOk (Some (Some schema))) r"
    by (simp add: discover_with_retry_def discover_loop_eq [of 0] INITIAL_RETRY_DELAY_MS_def Let_def ok)
  then have "cache (snd (discover_with_retry w table r)) table = Some pk"
    using k by (auto simp: settle_def find_filter split: list.splits)
  then show ?thesis using assms(2) by (simp add: run_task_def end_task_def split: option.split)
qed

lemma discovery_known:
  assumes "resolver_inv r" and "task_table r t = Some table"
    and "\<forall>e \<in> set es. e \<noteq> EndTask t \<and> (\<forall>w. e \<noteq> RunTask w t)" and "describes w (discovery_timeout r) pk"
  shows "cache (foldl resolver_step r (es @ RunTask w t # es')) table = Some pk"
proof -
  let ?r = "foldl resolver_step r es"
  have inv: "resolver_inv ?r" using resolver_run [OF assms(1)] by blast
  have pk: "cache (run_task w t ?r) table = Some pk"
    using describes_learns [of w ?r pk t table] assms(4) run_keeps_task [OF assms(1-3)] by (simp add: run_timeout)
  have "cache (run_task w t ?r) \<subseteq>\<^sub>m cache (foldl resolver_step (run_task w t ?r) es')"
    using resolver_run run_task_cases [OF inv] by blast
  moreover have "table \<in> dom (cache (run_task w t ?r))" using pk by (simp add: domIff)
  ultimately have "cache (run_task w t ?r) table = cache (foldl resolver_step (run_task w t ?r) es') table"
    unfolding map_le_def by (rule bspec)
  with pk show ?thesis by simp
qed

section \<open>Correctness\<close>

text \<open>
  C11: a client learns to route by key. The client's configuration brings no interceptors of the
  user's own (those may rewrite a request at will), and operations are on a single item, qualify for
  affinity (a put, update or delete that the configured mode covers) and have one candidate for
  their partition key; batches are another matter. When a discovery may start (the key name of the
  table is unknown, none for it is in flight or cooling down after a failure, the resolver is not
  stopped, and the caller is on a runtime), such an operation goes round robin and starts the
  table's discovery. Once that ran, and the service described the table after at most three
  transient failures, every later such operation on the table with a discovered key attribute that can be hashed
  goes to the nodes in the order of its key, whatever other triggers, discoveries, their ends and
  the stop of the client happened between and after.
\<close>

theorem affinity_learned:
  fixes U :: "('u, 'x) url_api_scheme"
  assumes "sdk_law S" and "url_eq_law U" and "url_set_law U" and "sign_law sign"
    and client: "try_from_conf S VB U env fits rt now config = Inr client"
    and mode: "\<not> config_without_discovery config" "enabled_affinity config = Some a"
    and user: "s_interceptors (c_settings S (dynamodb_config config)) = []"
    and res: "res = foldl resolver_step (new_with_timeout pk_info timeout) es0"
    and op1: "b1 \<in> set (all_operations client)"
      "serialization_hooks U murmur c1 inp1 (operation_interceptors S (fold customize os1 b1)) res st1 = (cfg1, res1, st1')"
    and item1: "from_input inp1 = Some dop1" "\<forall>r. dop1 \<noteq> BatchWrite r" "should_apply dop1 (affinity_type a)"
      "partition_key_candidates dop1 = [cand1]" "cand_table_name cand1 = table"
    and unknown: "may_start (fst c1) (snd c1) table res"
    and discovery: "\<forall>e \<in> set es1. e \<noteq> EndTask (next_task (r_tasks res)) \<and> (\<forall>w. e \<noteq> RunTask w (next_task (r_tasks res)))"
      "describes w timeout pk"
    and op2: "b2 \<in> set (all_operations client)"
      "serialization_hooks U murmur c2 inp2 (operation_interceptors S (fold customize os2 b2))
         (foldl resolver_step res1 (es1 @ RunTask w (next_task (r_tasks res)) # es2)) st2 = (cfg2, res2, st2')"
    and item2: "from_input inp2 = Some dop2" "\<forall>r. dop2 \<noteq> BatchWrite r" "should_apply dop2 (affinity_type a)"
      "partition_key_candidates dop2 = [cand2]" "cand_table_name cand2 = table"
      "Option.bind (map_of (cand_attributes cand2) pk) (hash_attribute_value murmur) = Some h"
    and nodes: "nodes = live_nodes (view_of (if has_rack_restriction (case config_routing_scope config of
        None \<Rightarrow> from_cluster | Some s \<Rightarrow> s) then AuxiliaryHandle else OrdinaryHandle) st2)" "nodes \<noteq> []"
  shows "query_plan_store cfg1 = Some (new_basic OrdinaryHandle) \<and> st1' = st1
    \<and> task_table res1 (next_task (r_tasks res)) = Some table
    \<and> list_all2 (sent_to U)
        (map (\<lambda>k. Some (affinity_order U h nodes ! (k mod length nodes))) [0..<length es])
        (send U uri_ok H version sign (client_interceptor config) r es cfg2 st2')"
proof -
  define i where "i = \<lparr>a_config = a, a_routing_nodes = OrdinaryHandle,
      a_affinity_nodes = (if has_rack_restriction (case config_routing_scope config of
        None \<Rightarrow> from_cluster | Some s \<Rightarrow> s) then AuxiliaryHandle else OrdinaryHandle)\<rparr>"
  have routing: "routing_interceptors config = [AffinityQueryPlanInterceptor i]"
    using mode by (simp add: routing_interceptors_def i_def)
  have "get_partition_key table res = None" using unknown by (simp add: may_start_def get_partition_key_def)
  then have "get_query_plan U murmur i c1 inp1 res st1 =
      (new_basic OrdinaryHandle, trigger_discovery (fst c1) (snd c1) table res, st1)"
    using cache_miss_triggers_discovery [of inp1 dop1 i cand1 res U murmur c1 st1] item1 by (simp add: i_def)
  then have first: "query_plan_store cfg1 = Some (new_basic OrdinaryHandle)" "res1 = started (the (fst c1)) table res" "st1' = st1"
    using client_hooks [OF assms(1) client user op1(1) op1(2) [symmetric] refl] unknown
    by (simp_all add: routing serialization_hook_def affinity_before_serialization_def trigger_eq)
  have inv: "resolver_inv res" unfolding res using resolver_run [OF resolver_inv_new] by blast
  then have inv1: "resolver_inv res1"
    using resolver_inv_trigger [of res "fst c1" "snd c1" table] unknown by (simp add: trigger_eq first(2))
  have task: "task_table res1 (next_task (r_tasks res)) = Some table" by (simp add: first(2) started_def)
  have timeout: "discovery_timeout res1 = timeout"
    by (simp add: first(2) started_def res run_timeout) (simp add: new_with_timeout_def)
  note known = discovery_known [OF inv1 task discovery(1) discovery(2) [folded timeout], of es2]
  then have "key_hash murmur (cache (foldl resolver_step res1 (es1 @ RunTask w (next_task (r_tasks res)) # es2))) cand2 = Some h"
    using item2(5,6) by (simp add: key_hash_def)
  from affinity_sends [OF assms(1-4) client mode user op2 item2(1-4) this nodes] first task show ?thesis by blast
qed

text \<open>The first description of the table fails, the second names its key.\<close>

theorem affinity_learned_witness:
  "\<exists>client cfg1 res1 cfg2 st2'.
     try_from_conf record_sdk (\<lambda>c rc. None) text_url example_env (\<lambda>t. True) (Some 7) 0 affinity_config = Inr client
     \<and> query_plan_store (cfg1 :: string interceptor_state) = Some (new_basic OrdinaryHandle)
     \<and> task_table (res1 :: partition_key_resolver) 0 = Some ''t''
     \<and> list_all2 (sent_to text_url)
        (map (\<lambda>k. Some (affinity_order text_url 7 [''http://a'', ''http://b''] ! (k mod 2))) [0..<3])
        (send text_url (\<lambda>u. True) list_headers ''1'' Some (client_interceptor affinity_config)
          \<lparr>req_headers = [], req_uri = ''http://b'', req_body = Collected [] :: unit sdk_body\<rparr>
          [((None, 1), id), ((None, 2), id), ((None, 3), id)] cfg2 st2')"
proof -
  let ?st = "\<lparr>ordinary_view = view_new from_cluster [''http://a'', ''http://b''], affinity_nodes = None, manager = None\<rparr>"
  let ?es = "[((None, 1), id), ((None, 2), id), ((None, 3), id)] :: (call \<times> (string live_state \<Rightarrow> string live_state)) list"
  let ?put = "\<lparr>put_table_name = Some ''t'', put_item = Some [(''k'', AvS ''v'')],
           put_condition_expression = None, put_expected = None, put_return_values = None\<rparr>"
  let ?cand = "\<lparr>cand_table_name = ''t'', cand_attributes = [(''k'', AvS ''v'')]\<rparr>"
  let ?res = "foldl resolver_step (new_with_timeout Map.empty None) []"
  let ?w = "\<lparr>request = (\<lambda>i. (0, if i = 0 then DescribeErr timeout_error
      else DescribeOk (Some (Some [\<lparr>attribute_name = ''k'', key_type_of = HashKey\<rparr>])))),
      random = (\<lambda>i lo hi. hi), clock = (\<lambda>i. i)\<rparr>"
  obtain client where c: "try_from_conf record_sdk (\<lambda>c rc. None) text_url example_env (\<lambda>t. True) (Some 7) 0 affinity_config = Inr client"
    using affinity_client by blast
  have op: "put_item client \<in> set (all_operations client)" by (simp add: all_operations_def)
  obtain cfg1 res1 st1' where h1: "serialization_hooks text_url (\<lambda>b s. 7) (Some 1, 0) (PutItemInput ?put)
      (operation_interceptors record_sdk (fold customize [] (put_item client))) ?res ?st = (cfg1, res1, st1')"
    by (metis prod_cases3)
  obtain cfg2 res2 st2' where h2: "serialization_hooks text_url (\<lambda>b s. 7) (None, 0) (PutItemInput ?put)
      (operation_interceptors record_sdk (fold customize [] (put_item client)))
      (foldl resolver_step res1 ([] @ RunTask ?w (next_task (r_tasks ?res)) # [StopResolver])) ?st = (cfg2, res2, st2')"
    by (metis prod_cases3)
  have sign: "sign_law (Some :: ((string \<times> string) list, unit) request \<Rightarrow> _)" by (simp add: sign_law_def)
  have q: "should_apply (Put ?put) (affinity_type (config_from_type AnyWrite))"
    by (simp add: config_from_type_def should_apply_def should_apply_put_def)
  have cand: "partition_key_candidates (Put ?put) = [?cand]"
    by (simp add: partition_key_candidates_def single_candidate_def)
  have start: "may_start (fst (Some 1 :: nat option, 0 :: nat)) (snd (Some 1 :: nat option, 0 :: nat)) ''t'' ?res"
    by (simp add: may_start_def new_with_timeout_def new_tasks_def is_stopped_def)
  have quiet: "\<forall>e \<in> set []. e \<noteq> EndTask (next_task (r_tasks ?res)) \<and> (\<forall>w. e \<noteq> RunTask w (next_task (r_tasks ?res)))" by simp
  have describes: "describes ?w None ''k''"
    unfolding describes_def by (rule exI [of _ 1]) (simp add: MAX_RETRIES_def response_def transient_def timeout_error_def
        is_permanent_failure_def)
  have hash: "Option.bind (map_of (cand_attributes ?cand) ''k'') (hash_attribute_value (\<lambda>b s. 7)) = Some 7"
    by (simp add: hash_attribute_value_def)
  have scope: "\<not> has_rack_restriction from_cluster" by code_simp
  have nodes: "[''http://a'', ''http://b''] = live_nodes (view_of (if has_rack_restriction (case config_routing_scope affinity_config of
        None \<Rightarrow> from_cluster | Some s \<Rightarrow> s) then AuxiliaryHandle else OrdinaryHandle) ?st)"
    by (simp add: affinity_config_settings scope view_of_def view_new_def)
  have item: "from_input (PutItemInput ?put) = Some (Put ?put)" "\<forall>r. Put ?put \<noteq> BatchWrite r" by simp_all
  have table: "cand_table_name ?cand = ''t''" by simp
  have len: "length ?es = 3" "length [''http://a'', ''http://b''] = 2" by simp_all
  have first: "next_task (r_tasks ?res) = 0" by (simp add: new_with_timeout_def new_tasks_def)
  note learned = affinity_learned [where es = ?es and uri_ok = "\<lambda>u. True" and H = list_headers and version = "''1''"
      and r = "\<lparr>req_headers = [], req_uri = ''http://b'', req_body = Collected []\<rparr>",
      OF record_sdk_law text_url_eq_law text_url_set_law sign c affinity_config_settings(4,7,9) refl
        op h1 item q cand table start quiet describes op h2 item q cand table hash nodes, OF list.distinct(2), unfolded len first]
  show ?thesis
    by (intro exI conjI, rule c, rule learned [THEN conjunct1], rule learned [THEN conjunct2, THEN conjunct2, THEN conjunct1],
        rule learned [THEN conjunct2, THEN conjunct2, THEN conjunct2])
qed

end
