(* ===== verification/Affinity_Agreement.thy ===== *)
theory Affinity_Agreement
  imports Client_History Affinity_Learning
begin

text \<open>
  Key route affinity over discovery: where the requests for a key go is decided by the hash of the
  key and by what the cluster answers, not by the client that sends them, its rack, its seeds or
  its past.
\<close>

section \<open>The view of an affinity client\<close>

lemma set_view_affinity: "affinity_nodes (set_view h v st) = None \<longleftrightarrow> affinity_nodes st = None"
  by (simp add: set_view_def split: handle.split option.split)

lemma live_step_affinity: "affinity_nodes (live_step U st e) = None \<longleftrightarrow> affinity_nodes st = None"
proof (cases e)
  case (Round net shuf ref now)
  then show ?thesis by (auto simp: loop_iteration_def Let_def split: option.split)
next
  case (AffinityRound net shuf outs cands)
  then show ?thesis by (auto simp: run_affinity_task_def split: option.split)
qed (auto simp: set_view_affinity get_next_node_round_robin_def get_live_nodes_def Let_def split_def split: option.split)

lemma history_affinity: "affinity_nodes (foldl (live_step U) st es) = None \<longleftrightarrow> affinity_nodes st = None"
  by (induction es arbitrary: st) (simp_all add: live_step_affinity)

lemma client_new_affinity:
  assumes "try_from_conf S VB U env fits rt now config = Inr client" and "topology client = [st]"
    and "enabled_affinity config = Some a"
    and "has_rack_restriction (case config_routing_scope config of None \<Rightarrow> from_cluster | Some s \<Rightarrow> s)"
  shows "\<exists>m. manager st = Some m \<and> affinity_nodes st = Some (view_new
    (without_rack (case config_routing_scope config of None \<Rightarrow> from_cluster | Some s \<Rightarrow> s)) (seed_urls (m_inputs m)))"
  using assms(1)
proof (rule try_from_conf_Inr)
  fix live b routing live' keys
  assume new: "try_new S U env now config = Inr live"
    and rt: "choose_routing S VB config live (default_region S config b) = Inr (routing, live', keys)"
    and top: "topology client = (case live' of None \<Rightarrow> [] | Some st \<Rightarrow> [start_discovery_of rt now st])"
  let ?scope = "case config_routing_scope config of None \<Rightarrow> from_cluster | Some s \<Rightarrow> s"
  obtain st' where live': "live' = Some st'" "st = start_discovery_of rt now st'" using top assms(2) by (cases live') auto
  obtain st0 where live: "live = Some st0" using rt live'(1) by (cases live) (auto simp: choose_routing_def)
  obtain m where m: "manager st0 = Some m" using try_new_live(2) [OF new live] by blast
  have scope: "view_scope (ordinary_view st0) = ?scope" by (rule try_new_live(3) [OF new live])
  have "affinity_nodes st0 = None" by (rule try_new_affinity [OF new [unfolded live]])
  with m scope assms(4) have view: "snd (affinity_view st0) =
      st0\<lparr>affinity_nodes := Some (view_new (without_rack ?scope) (seed_urls (m_inputs m)))\<rparr>"
    by (simp add: affinity_view_def)
  obtain k st1 where "affinity_view st0 = (k, st1)" by (cases "affinity_view st0")
  with rt view live'(1) have "st' = st0\<lparr>affinity_nodes := Some (view_new (without_rack ?scope) (seed_urls (m_inputs m)))\<rparr>"
    by (auto simp: choose_routing_def live assms(3) split: sum.splits)
  then show ?thesis by (simp add: live'(2) start_discovery_of_def m ensure_inputs)
qed

text \<open>What a completed refresh of the view behind an affinity plan leaves there.\<close>

lemma affinity_view_refreshed:
  assumes inv: "live_inv scope (m_inputs m) st1" and U: "url_eq_law U" and shuf: "shuffle_law shuf"
    and seed: "seed \<in> set (seed_urls (m_inputs m))"
    and kscope: "kscope = (if has_rack_restriction scope then without_rack scope else scope)"
    and answers: "agreed_answers U (m_inputs m) net D A kscope seed"
    and found: "first_nonempty A (chain_ops kscope) = Some ns"
    and view: "has_rack_restriction scope \<Longrightarrow> affinity_nodes st1 \<noteq> None" and outs: "outcomes_of A outs"
    and refresh: "if has_rack_restriction scope
      then run_affinity_task U (m_inputs m) net shuf outs cands st1 = Some st
      else loop_iteration U net shuf ref now st1 = Some (Some pause, st)"
  shows "live_nodes (view_of (if has_rack_restriction scope then AuxiliaryHandle else OrdinaryHandle) st) = ns"
proof -
  have members: "published A (chain_ops kscope) old = ns" for old using found by (simp add: published_def)
  show ?thesis
  proof (cases "has_rack_restriction scope")
    case True
    then obtain av where av: "affinity_nodes st1 = Some av" using view by blast
    with inv have ok: "view_scope av = kscope" "live_nodes av \<noteq> []" "latest_published_generation av \<le> next_generation av"
      by (simp_all add: live_inv_def view_ok_def kscope True)
    obtain outs2 v where upd: "update_live_nodes_from U (m_inputs m) net shuf outs cands True av = Some (outs2, v)"
      and st: "affinity_nodes st = Some v"
      using refresh True by (auto simp: run_affinity_task_def av)
    from refresh_agreed [OF upd U shuf ok(2) seed, unfolded ok(1), OF answers ok(3) outs] st True
    show ?thesis by (simp add: view_of_def members)
  next
    case False
    obtain m' where m': "manager st1 = Some m'" using refresh False by (auto simp: loop_iteration_def split: option.splits)
    with inv have inputs: "m_inputs m' = m_inputs m" by (simp add: live_inv_def)
    obtain outs2 v where upd: "update_live_nodes_from U (m_inputs m) net shuf Map.empty [] False (ordinary_view st1) = Some (outs2, v)"
      and st: "ordinary_view st = v"
      using refresh False m' by (auto simp: loop_iteration_def update_live_nodes_def inputs Let_def split: option.splits)
    have ok: "view_scope (ordinary_view st1) = kscope" "live_nodes (ordinary_view st1) \<noteq> []"
      "latest_published_generation (ordinary_view st1) \<le> next_generation (ordinary_view st1)"
      using inv False by (simp_all add: live_inv_def view_ok_def kscope)
    from refresh_agreed [OF upd U shuf ok(2) seed, unfolded ok(1), OF answers ok(3) outcomes_of_empty] st False
    show ?thesis by (simp add: view_of_def members)
  qed
qed

lemma first_nonempty_Some: "first_nonempty A ks = Some ns \<Longrightarrow> ns \<noteq> []"
  by (induction ks) (auto split: if_splits)

section \<open>Correctness\<close>

text \<open>
  C2: the cluster and the key decide. Take any point of any history of a client with key route
  affinity whose configuration brings no interceptors of the user's own (those may rewrite a request
  at will), and let the cluster agree on the scopes of the chain behind its affinity plans: the
  configured chain without its racks when it has any, the configured chain (by default the whole
  cluster) otherwise. Nodes asked for a datacenter name its members or fail, nodes asked for the
  whole cluster name their own datacenter or fail, one seed always answers, and, when the chain
  reaches the whole cluster, one seed of each datacenter does. Once the view behind affinity plans
  was refreshed (by the affinity task when the configured chain has racks, reusing outcomes that are
  what the cluster is, by the loop otherwise), a
  single-item operation that qualifies for affinity (a write, or a read-modify-write, as the
  configured mode says), with one candidate for its partition key, whose table's key name is known
  and whose key can be hashed, goes to the nodes in an order that is determined by the hash of its key and by the nodes of the
  first scope of that chain that has any: two clients that differ in racks, seeds, shuffles,
  failures, histories and configuration otherwise send the same key to the same nodes in the same
  order.
\<close>

theorem affinity_follows_discovery:
  assumes "sdk_law S" and "url_eq_law U" and "url_set_law U" and "sign_law sign" and shuf: "shuffle_law shuf"
    and client: "try_from_conf S VB U env fits rt now config = Inr client"
    and mode: "\<not> config_without_discovery config" "enabled_affinity config = Some a"
    and user: "s_interceptors (c_settings S (dynamodb_config config)) = []"
    and top: "topology client = [st0]" "manager st0 = Some m"
    and scope: "scope = (case config_routing_scope config of None \<Rightarrow> from_cluster | Some s \<Rightarrow> s)"
    and kscope: "kscope = (if has_rack_restriction scope then without_rack scope else scope)"
    and seed: "seed \<in> set (seed_urls (m_inputs m))"
    and answers: "agreed_answers U (m_inputs m) net D A kscope seed"
    and found: "first_nonempty A (chain_ops kscope) = Some ns"
    and outs: "outcomes_of A outs"
    and refresh: "if has_rack_restriction scope
      then run_affinity_task U (m_inputs m) net shuf outs cands (foldl (live_step U) st0 history) = Some st
      else loop_iteration U net shuf ref start (foldl (live_step U) st0 history) = Some (Some pause, st)"
    and op: "b \<in> set (all_operations client)"
    and hooks: "serialization_hooks U murmur c inp (operation_interceptors S (fold customize overrides b)) res st
      = (cfg, res', st')"
    and item: "from_input inp = Some dop" "\<forall>r. dop \<noteq> BatchWrite r" "should_apply dop (affinity_type a)"
    and key: "partition_key_candidates dop = [cand]" "key_hash murmur (cache res) cand = Some h"
  shows "list_all2 (sent_to U)
      (map (\<lambda>k. Some (affinity_order U h ns ! (k mod length ns))) [0..<length es])
      (send U uri_ok H version sign (client_interceptor config) r es cfg st')
    \<and> mset (affinity_order U h ns) = mset ns"
proof -
  have inv: "live_inv scope (m_inputs m) (foldl (live_step U) st0 history)"
    unfolding scope by (rule live_history.inv_run [OF client_live_inv [OF client top]])
  have view: "affinity_nodes (foldl (live_step U) st0 history) \<noteq> None" if "has_rack_restriction scope"
    using client_new_affinity [OF client top(1) mode(2)] that by (auto simp: history_affinity scope)
  from affinity_view_refreshed [OF inv assms(2) shuf seed kscope answers found view outs refresh]
  have nodes: "ns = live_nodes (view_of (if has_rack_restriction (case config_routing_scope config of
        None \<Rightarrow> from_cluster | Some s \<Rightarrow> s) then AuxiliaryHandle else OrdinaryHandle) st)" by (simp add: scope)
  have ne: "ns \<noteq> []" using found by (auto dest: first_nonempty_Some)
  from affinity_sends [OF assms(1-4) client mode user op hooks item key nodes ne] show ?thesis by blast
qed

definition rack_config :: "sdk_settings alternator_config" where
  "rack_config = build record_sdk text_url
     (set_key_route_affinity (config_from_type AnyWrite) (set_routing_scope example_scope
       (set_seed_hosts [''b'', ''a''] (builder_new record_sdk))))"

lemma rack_config_settings:
  "config_seed_hosts rack_config = Some [''b'', ''a'']" "scheme_or_http rack_config = ''http''"
  "config_port rack_config = None" "\<not> config_without_discovery rack_config"
  "config_http_client record_sdk rack_config = None" "config_discovery_timeout rack_config = None"
  "enabled_affinity rack_config = Some (config_from_type AnyWrite)"
  "config_routing_scope rack_config = Some example_scope"
  "s_interceptors (c_settings record_sdk (dynamodb_config rack_config)) = []"
  "\<not> x_stalled_stream_protection_explicitly_unset (config_ext rack_config)"
  by (simp_all add: rack_config_def build_def set_seed_hosts_def set_routing_scope_def set_key_route_affinity_def builder_new_def
      default_extensions_def record_sdk_def empty_settings_def config_seed_hosts_def scheme_or_http_def
      config_scheme_def config_port_def config_without_discovery_def config_http_client_def
      config_discovery_timeout_def config_key_route_affinity_def enabled_affinity_def is_enabled_def
      config_from_type_def config_routing_scope_def)

lemma rack_client:
  "\<exists>client. try_from_conf record_sdk (\<lambda>c rc. None) text_url example_env (\<lambda>t. True) (Some 7) 0 rack_config = Inr client"
proof -
  obtain live where "try_new record_sdk text_url example_env 0 rack_config = Inr (Some live)"
    using two_seeds_try_new [OF rack_config_settings(1-5)] by blast
  from accepted_configuration [OF record_sdk_law _ this rack_config_settings(10)]
  show ?thesis by (auto simp: timeout_refused_def rack_config_settings)
qed

text \<open>The preferred rack is empty; the affinity view finds the node of its datacenter.\<close>

theorem affinity_follows_discovery_witness:
  "\<exists>client st0 m st cfg st'.
     try_from_conf record_sdk (\<lambda>c rc. None) text_url example_env (\<lambda>t. True) (Some 7) 0 rack_config = Inr client
     \<and> topology client = [st0] \<and> manager st0 = Some m
     \<and> run_affinity_task text_url (m_inputs m) example_net (\<lambda>n xs. xs) Map.empty []
         (foldl (live_step text_url) st0 [BeginRefresh OrdinaryHandle]) = Some st
     \<and> list_all2 (sent_to text_url)
        (map (\<lambda>k. Some (affinity_order text_url 7 [''http://n1''] ! (k mod 1))) [0..<2])
        (send text_url (\<lambda>u. True) list_headers ''1'' Some (client_interceptor rack_config)
          \<lparr>req_headers = [], req_uri = ''http://b'', req_body = Collected [] :: unit sdk_body\<rparr>
          [((None, 1), id), ((None, 2), id)] cfg st')"
proof -
  let ?es = "[((None, 1), id), ((None, 2), id)] :: (call \<times> (string live_state \<Rightarrow> string live_state)) list"
  let ?put = "\<lparr>put_table_name = Some ''t'', put_item = Some [(''k'', AvS ''v'')],
           put_condition_expression = None, put_expected = None, put_return_values = None\<rparr>"
  let ?cand = "\<lparr>cand_table_name = ''t'', cand_attributes = [(''k'', AvS ''v'')]\<rparr>"
  let ?res = "new_with_timeout [''t'' \<mapsto> ''k''] None"
  obtain client where c: "try_from_conf record_sdk (\<lambda>c rc. None) text_url example_env (\<lambda>t. True) (Some 7) 0 rack_config = Inr client"
    using rack_client by blast
  obtain st0 where top: "topology client = [st0]" using client_topology [OF c] rack_config_settings(4) by blast
  from client_discovery_state [OF c top, unfolded rack_config_settings] obtain m where
    m: "manager st0 = Some m" "seed_urls (m_inputs m) \<noteq> []" "alternator_scheme (m_inputs m) = ''http''"
      "inputs_port (m_inputs m) = None" by auto
  obtain seed where seed: "seed \<in> set (seed_urls (m_inputs m))" using m(2) by (cases "seed_urls (m_inputs m)") auto
  have scope: "example_scope = (case config_routing_scope rack_config of None \<Rightarrow> from_cluster | Some s \<Rightarrow> s)"
    by (simp add: rack_config_settings(8))
  have rack: "has_rack_restriction example_scope" by code_simp
  then have kscope: "without_rack example_scope = (if has_rack_restriction example_scope then without_rack example_scope else example_scope)"
    by simp
  let ?st1 = "foldl (live_step text_url) st0 [BeginRefresh OrdinaryHandle]"
  obtain av where av: "affinity_nodes st0 = Some av" "next_generation av = 0"
    using client_new_affinity [OF c top] m(1) rack by (auto simp: rack_config_settings view_new_def)
  have av1: "affinity_nodes ?st1 = Some av" by (simp add: begin_refresh_def set_view_def av Let_def split: option.split)
  obtain st where it: "run_affinity_task text_url (m_inputs m) example_net (\<lambda>n xs. xs) Map.empty [] ?st1 = Some st"
    by (simp add: run_affinity_task_def av1 update_live_nodes_from_def begin_refresh_def av(2) Let_def split_def del: foldl.simps)
  have refresh: "if has_rack_restriction example_scope
      then run_affinity_task text_url (m_inputs m) example_net (\<lambda>n xs. xs) Map.empty [] ?st1 = Some st
      else loop_iteration text_url example_net (\<lambda>n xs. xs) 0 0 ?st1 = Some (Some 0, st)"
    using rack it by simp
  obtain cfg res' st' where h: "serialization_hooks text_url (\<lambda>b s. 7) (None, 0) (PutItemInput ?put)
      (operation_interceptors record_sdk (fold customize [] (put_item client))) ?res st = (cfg, res', st')"
    by (metis prod_cases3)
  have sign: "sign_law (Some :: ((string \<times> string) list, unit) request \<Rightarrow> _)" by (simp add: sign_law_def)
  have shuf: "shuffle_law (\<lambda>n (xs :: string list). xs)" by (simp add: shuffle_law_def)
  note answers = example_agreed(2) [OF m(3,4), of "\<lambda>c. []" seed]
  have found: "first_nonempty example_answers (chain_ops (without_rack example_scope)) = Some [''http://n1'']"
    by (simp add: example_chain example_answers_def)
  have op: "put_item client \<in> set (all_operations client)" by (simp add: all_operations_def)
  have q: "should_apply (Put ?put) (affinity_type (config_from_type AnyWrite))"
    by (simp add: config_from_type_def should_apply_def should_apply_put_def)
  have cand: "partition_key_candidates (Put ?put) = [?cand]"
    by (simp add: partition_key_candidates_def single_candidate_def)
  have key: "key_hash (\<lambda>b s. 7) (cache ?res) ?cand = Some 7"
    by (simp add: key_hash_def new_with_timeout_def hash_attribute_value_def)
  have item: "from_input (PutItemInput ?put) = Some (Put ?put)" "\<forall>r. Put ?put \<noteq> BatchWrite r" by simp_all
  have len: "length ?es = 2" "length [''http://n1''] = 1" by simp_all
  note sent = affinity_follows_discovery [where es = ?es and uri_ok = "\<lambda>u. True" and H = list_headers and version = "''1''"
      and r = "\<lparr>req_headers = [], req_uri = ''http://b'', req_body = Collected []\<rparr>",
      OF record_sdk_law text_url_eq_law text_url_set_law sign shuf c rack_config_settings(4,7,9) top m(1) scope kscope
        seed answers found outcomes_of_empty refresh op h item q cand key, THEN conjunct1, unfolded len]
  show ?thesis by (intro exI conjI, rule c, rule top, rule m(1), rule it, rule sent)
qed

end
