(* ===== verification/Request_Integrity.thy ===== *)
theory Request_Integrity
  imports Client_Requests
begin

text \<open>
  What a server gets from an operation: the body that the operation serialized, as the attempts
  of a client send it, compressed once before the first attempt, signed and stripped of headers
  for each.
\<close>

section \<open>A whole operation\<close>

text \<open>
  The serialization hooks, the hook before the retry loop, the attempts. \<open>r\<close> is the request that
  the SDK serialized.
\<close>

definition run_operation ::
  "('u, 'x) url_api_scheme \<Rightarrow> (string \<Rightarrow> bool) \<Rightarrow> ('h, 'y) headers_api_scheme \<Rightarrow> encoders \<Rightarrow> string \<Rightarrow>
   (('h, 's) request \<Rightarrow> ('h, 's) request option) \<Rightarrow> murmur \<Rightarrow> alternator_interceptor \<Rightarrow> shared_interceptor list \<Rightarrow>
   input \<Rightarrow> call \<Rightarrow> (call \<times> ('u live_state \<Rightarrow> 'u live_state)) list \<Rightarrow> partition_key_resolver \<Rightarrow> 'u live_state \<Rightarrow>
   ('h, 's) request \<Rightarrow> (attempt_error + ('h, 's) request) list" where
  "run_operation U uri_ok H C version sign murmur i is inp c es res st r =
     (let (cfg, res', st') = serialization_hooks U murmur c inp is res st
      in send U uri_ok H version sign i (modify_before_retry_loop H C i cfg r) es cfg st')"

text \<open>The headers that say how to read a body; signing adds others.\<close>

definition BODY_HEADERS :: "string list" where
  "BODY_HEADERS = [''content-encoding'', ''content-length'', ''accept-encoding'']"

definition sign_headers_law ::
  "('h, 'y) headers_api_scheme \<Rightarrow> (('h, 's) request \<Rightarrow> ('h, 's) request option) \<Rightarrow> bool" where
  "sign_headers_law H sign \<longleftrightarrow> sign_law sign
     \<and> (\<forall>r s. sign r = Some s \<longrightarrow>
          (\<forall>m \<in> set BODY_HEADERS. get_all H (req_headers s) m = get_all H (req_headers r) m))"

text \<open>How a server reads a body, and what it relies on.\<close>

definition server_body ::
  "('h, 'y) headers_api_scheme \<Rightarrow> (bytes \<Rightarrow> bytes option) \<Rightarrow> (bytes \<Rightarrow> bytes option) \<Rightarrow> ('h, 's) request \<Rightarrow> bytes option" where
  "server_body H gunzip inflate r =
     Option.bind (body_bytes (req_body r))
       (case get_all H (req_headers r) ''content-encoding'' of
          [] \<Rightarrow> Some
        | [e] \<Rightarrow> if e = ''gzip'' then gunzip else if e = ''deflate'' then inflate else (\<lambda>b. None)
        | _ \<Rightarrow> (\<lambda>b. None))"

definition codec_law :: "encoders \<Rightarrow> (bytes \<Rightarrow> bytes option) \<Rightarrow> (bytes \<Rightarrow> bytes option) \<Rightarrow> bool" where
  "codec_law C gunzip inflate \<longleftrightarrow>
     (\<forall>b l z. gzip_encode C b l = Some z \<longrightarrow> gunzip z = Some b)
     \<and> (\<forall>b l z. zlib_encode C b l = Some z \<longrightarrow> inflate z = Some b)"

section \<open>From the retry loop to the wire\<close>

definition same_message :: "('h, 'y) headers_api_scheme \<Rightarrow> ('h, 's) request \<Rightarrow> ('h, 's) request \<Rightarrow> bool" where
  "same_message H r w \<longleftrightarrow> req_body w = req_body r
     \<and> (\<forall>m \<in> set BODY_HEADERS. get_all H (req_headers w) m = get_all H (req_headers r) m)"

lemma body_header:
  "m \<in> set BODY_HEADERS \<Longrightarrow> m \<in> set BASE_WHITELIST \<and> canonical_name m \<and> m \<noteq> ''user-agent''"
  by (auto simp: BODY_HEADERS_def BASE_WHITELIST_def)

lemma transmit_same:
  assumes "headers_law H" and "modify_before_transmit H version i cfg r = (w, e)"
  shows "same_message H r w"
proof -
  have strip: "get_all H (req_headers (strip_headers H p r)) m = get_all H (req_headers r) m"
    if "m \<in> set BODY_HEADERS" for p m
    using strip_get_all [OF assms(1), of m r p] body_header [OF that]
    by (cases "headers_to_preserve H (req_headers r) p") (auto simp: strip_headers_def)
  have agent: "get_all H (req_headers q') m = get_all H (req_headers q) m"
    if "m \<in> set BODY_HEADERS" "apply_user_agent H version ua q = (q', e')" for m ua q q' e'
    using that(2) headers_lawD(1,3) [OF assms(1), of "''user-agent''" m] body_header [OF that(1)]
    by (auto simp: apply_user_agent_def header_try_insert_def Let_def split: option.splits if_splits)
  show ?thesis
    using assms(2) agent [OF _ assms(2) [unfolded modify_before_transmit_def Let_def]] strip transmit_frame [OF assms(2)]
    by (auto simp: same_message_def split: if_splits)
qed

lemma attempt_same:
  assumes "headers_law H" and "sign_headers_law H sign"
    and "attempt U uri_ok H version sign i r c cfg st = (Inr w, cfg', st')"
  shows "same_message H r w"
proof -
  obtain routed s k where m: "modify_before_signing U uri_ok c cfg st r = (routed, None, k, st')"
    and s: "sign routed = Some s"
    and t: "modify_before_transmit H version i (read_after_signing H s k) s = (w, None)"
    using assms(3) by (auto simp: attempt_def Let_def split: prod.splits option.splits)
  have "req_headers routed = req_headers r \<and> req_body routed = req_body r"
    using m by (auto simp: modify_before_signing_def split: option.splits prod.splits sum.splits)
  with s assms(2) transmit_same [OF assms(1) t] show ?thesis
    by (simp add: same_message_def sign_headers_law_def sign_law_def)
qed

lemma send_same:
  assumes "headers_law H" and "sign_headers_law H sign"
    and "Inr w \<in> set (send U uri_ok H version sign i r es cfg st)"
  shows "same_message H r w"
  using assms(3)
proof (induction es arbitrary: cfg st)
  case (Cons e es)
  obtain c env where e: "e = (c, env)" by (cases e)
  obtain x cfg' st' where a: "attempt U uri_ok H version sign i r c cfg (env st) = (x, cfg', st')"
    by (cases "attempt U uri_ok H version sign i r c cfg (env st)")
  with Cons show ?case using attempt_same [OF assms(1,2), of U uri_ok version i r c cfg "env st" w cfg' st'] e by auto
qed simp

section \<open>Before the retry loop\<close>

definition encoded ::
  "encoders \<Rightarrow> compression_algorithm \<Rightarrow> compression_level \<Rightarrow> nat \<Rightarrow> bytes \<Rightarrow> (string \<times> bytes) option" where
  "encoded C algorithm level threshold body =
     (if length body < threshold then None
      else case algorithm of
          Gzip \<Rightarrow> map_option (Pair ''gzip'') (gzip_encode C body level)
        | Deflate \<Rightarrow> map_option (Pair ''deflate'') (zlib_encode C body level))"

definition body_encoding :: "encoders \<Rightarrow> request_compression \<Rightarrow> bytes \<Rightarrow> (string \<times> bytes) option" where
  "body_encoding C rq body =
     (case get_request_compression rq of
        None \<Rightarrow> None
      | Some (algorithm, level, threshold) \<Rightarrow> encoded C algorithm level threshold body)"

lemma compress_message:
  assumes "headers_law H" and "req_body r = Collected body" and "get_all H (req_headers r) ''content-encoding'' = []"
    and "canonical_name m"
  shows "req_body (compress_request H C algorithm level threshold r) =
      Collected (case encoded C algorithm level threshold body of None \<Rightarrow> body | Some (e, z) \<Rightarrow> z)"
    and "get_all H (req_headers (compress_request H C algorithm level threshold r)) m =
      (case encoded C algorithm level threshold body of
         None \<Rightarrow> get_all H (req_headers r) m
       | Some (e, z) \<Rightarrow>
           if m = ''content-encoding'' then [e] else if m = ''content-length'' then [decimal (length z)]
           else get_all H (req_headers r) m)"
proof -
  have h: "get_all H (header_insert H ''content-length'' l (header_append H ''content-encoding'' e (req_headers r))) m =
      (if m = ''content-encoding'' then [e] else if m = ''content-length'' then [l] else get_all H (req_headers r) m)" for e l
    using headers_lawD(1,2) [OF assms(1) _ assms(4)] assms(3) by auto
  have eq: "compress_request H C algorithm level threshold r =
      (case encoded C algorithm level threshold body of
         None \<Rightarrow> r
       | Some (e, z) \<Rightarrow> r\<lparr>req_headers := header_insert H ''content-length'' (decimal (length z))
             (header_append H ''content-encoding'' e (req_headers r)), req_body := Collected z\<rparr>)"
    using assms(2,3)
    by (cases algorithm) (simp_all add: compress_request_def contains_key_def encoded_def compress_gzip_def
        compress_zlib_def split: option.split)
  show "req_body (compress_request H C algorithm level threshold r) =
      Collected (case encoded C algorithm level threshold body of None \<Rightarrow> body | Some (e, z) \<Rightarrow> z)"
    using assms(2) by (simp add: eq split: option.split prod.split)
  show "get_all H (req_headers (compress_request H C algorithm level threshold r)) m =
      (case encoded C algorithm level threshold body of
         None \<Rightarrow> get_all H (req_headers r) m
       | Some (e, z) \<Rightarrow>
           if m = ''content-encoding'' then [e] else if m = ''content-length'' then [decimal (length z)]
           else get_all H (req_headers r) m)"
    unfolding eq by (cases "encoded C algorithm level threshold body") (simp_all add: h split: prod.split)
qed

lemma retry_loop_message:
  assumes H: "headers_law H" and r: "req_body r = Collected body" "get_all H (req_headers r) ''content-encoding'' = []"
    and c: "canonical_name m"
  shows "req_body (modify_before_retry_loop H C i cfg r) = Collected (case body_encoding C (load_request_compression i cfg) body of
      None \<Rightarrow> body | Some (e, z) \<Rightarrow> z)"
    and "get_all H (req_headers (modify_before_retry_loop H C i cfg r)) m =
      (if m = ''accept-encoding'' then
         (case accepted_algorithms (load_response_compression i cfg) of
            None \<Rightarrow> get_all H (req_headers r) m | Some as \<Rightarrow> [accept_encoding_header_value as])
       else case body_encoding C (load_request_compression i cfg) body of
          None \<Rightarrow> get_all H (req_headers r) m
        | Some (e, z) \<Rightarrow>
            if m = ''content-encoding'' then [e] else if m = ''content-length'' then [decimal (length z)]
            else get_all H (req_headers r) m)"
proof -
  define r1 where "r1 = (case get_request_compression (load_request_compression i cfg) of
      Some (algorithm, level, threshold) \<Rightarrow> compress_request H C algorithm level threshold r | None \<Rightarrow> r)"
  define enc where "enc = body_encoding C (load_request_compression i cfg) body"
  have r1: "req_body r1 = Collected (case enc of None \<Rightarrow> body | Some (e, z) \<Rightarrow> z)"
    "get_all H (req_headers r1) m = (case enc of None \<Rightarrow> get_all H (req_headers r) m
       | Some (e, z) \<Rightarrow> if m = ''content-encoding'' then [e] else if m = ''content-length'' then [decimal (length z)]
            else get_all H (req_headers r) m)"
    unfolding r1_def enc_def body_encoding_def
    by (cases "get_request_compression (load_request_compression i cfg)";
        simp add: compress_message [OF H r c] r(1) split: prod.split)+
  have loop: "modify_before_retry_loop H C i cfg r =
      (case accepted_algorithms (load_response_compression i cfg) of
         None \<Rightarrow> r1
       | Some as \<Rightarrow> r1\<lparr>req_headers := header_insert H ''accept-encoding'' (accept_encoding_header_value as) (req_headers r1)\<rparr>)"
    by (simp add: modify_before_retry_loop_def r1_def Let_def split: option.split)
  have ins: "get_all H (header_insert H ''accept-encoding'' v h) m = (if m = ''accept-encoding'' then [v] else get_all H h m)" for v h
    by (rule headers_lawD(1) [OF H _ c]) simp
  show "req_body (modify_before_retry_loop H C i cfg r) = Collected (case body_encoding C (load_request_compression i cfg) body of
      None \<Rightarrow> body | Some (e, z) \<Rightarrow> z)"
    unfolding loop by (simp add: r1(1) enc_def split: option.split)
  have ae: "m = ''accept-encoding'' \<Longrightarrow> get_all H (req_headers r1) m = get_all H (req_headers r) m"
    using r1(2) by (simp split: option.splits prod.splits)
  show "get_all H (req_headers (modify_before_retry_loop H C i cfg r)) m =
      (if m = ''accept-encoding'' then
         (case accepted_algorithms (load_response_compression i cfg) of
            None \<Rightarrow> get_all H (req_headers r) m | Some as \<Rightarrow> [accept_encoding_header_value as])
       else case body_encoding C (load_request_compression i cfg) body of
          None \<Rightarrow> get_all H (req_headers r) m
        | Some (e, z) \<Rightarrow>
            if m = ''content-encoding'' then [e] else if m = ''content-length'' then [decimal (length z)]
            else get_all H (req_headers r) m)"
    unfolding loop enc_def [symmetric] r1(2) [symmetric]
    using ae ins by (cases "accepted_algorithms (load_response_compression i cfg)") simp_all
qed

lemma hooks_store:
  "request_compression_store (fst (fold (serialization_hook U murmur c inp) is s))
      = request_compression_store (fold before_serialization is (fst s))
   \<and> response_compression_store (fst (fold (serialization_hook U murmur c inp) is s))
      = response_compression_store (fold before_serialization is (fst s))"
proof -
  have "request_compression_store (fst (fold (serialization_hook U murmur c inp) is s))
      = request_compression_store (fold before_serialization is cfg)
   \<and> response_compression_store (fst (fold (serialization_hook U murmur c inp) is s))
      = response_compression_store (fold before_serialization is cfg)"
    if "request_compression_store (fst s) = request_compression_store cfg"
      "response_compression_store (fst s) = response_compression_store cfg" for s cfg
    using that
  proof (induction "is" arbitrary: s cfg)
    case (Cons i "is")
    have "request_compression_store (fst (serialization_hook U murmur c inp i s)) = request_compression_store (before_serialization i cfg)
        \<and> response_compression_store (fst (serialization_hook U murmur c inp i s)) = response_compression_store (before_serialization i cfg)"
      using Cons.prems
      by (cases i) (auto simp: serialization_hook_def before_serialization_def affinity_before_serialization_def
          override_request_compression_def override_response_compression_def round_robin_before_serialization_def
          split: prod.split)
    with Cons.IH show ?case by simp
  qed simp
  from this [OF refl refl] show ?thesis .
qed

lemma customize_interceptors:
  "fb_interceptors (fold customize overrides b) = fold alternator_config_override overrides (fb_interceptors b)"
  by (induction overrides arbitrary: b) (simp_all add: customize_def)

lemma fold_override_prefix:
  "xs @ fold alternator_config_override overrides ys = fold alternator_config_override overrides (xs @ ys)"
proof (induction overrides arbitrary: ys)
  case (Cons x overrides)
  have "xs @ alternator_config_override x ys = alternator_config_override x (xs @ ys)"
    by (auto simp: alternator_config_override_def Let_def split: option.split)
  with Cons show ?case by simp
qed simp

text \<open>The settings in force in an operation of a client.\<close>

definition request_setting :: "'c alternator_config \<Rightarrow> operation_builder list \<Rightarrow> request_compression" where
  "request_setting config overrides =
     (case last_some (map o_request_compression overrides) of
        Some c \<Rightarrow> c
      | None \<Rightarrow> (case config_request_compression config of None \<Rightarrow> compression_disabled | Some c \<Rightarrow> c))"

definition response_setting :: "'c alternator_config \<Rightarrow> operation_builder list \<Rightarrow> response_compression" where
  "response_setting config overrides =
     (case last_some (map o_response_compression overrides) of
        Some c \<Rightarrow> c
      | None \<Rightarrow> (case config_response_compression config of None \<Rightarrow> response_disabled | Some c \<Rightarrow> c))"

lemma settings_in_force:
  assumes "sdk_law S" and "try_from_conf S VB U env fits rt now config = Inr client"
    and "s_interceptors (c_settings S (dynamodb_config config)) = []" and "b \<in> set (all_operations client)"
    and "serialization_hooks U' murmur c inp (operation_interceptors S (fold customize overrides b)) res st = (cfg, res', st')"
  shows "load_request_compression (client_interceptor config) cfg = request_setting config overrides"
    and "load_response_compression (client_interceptor config) cfg = response_setting config overrides"
proof -
  let ?base = "AlternatorInterceptor (client_interceptor config) # routing_interceptors config"
  have "is": "operation_interceptors S (fold customize overrides b) = fold alternator_config_override overrides ?base"
    using client_main_interceptors [OF assms(1,2)] assms(3) all_operations_client [OF assms(4)]
    by (simp add: operation_interceptors_def customize_interceptors fold_override_prefix)
  have none: "RequestCompressionOverride x \<notin> set ?base" "ResponseCompressionOverride y \<notin> set ?base" for x y
    by (auto simp: routing_interceptors_def split: option.splits)
  have cfg: "cfg = fst (fold (serialization_hook U' murmur c inp) (fold alternator_config_override overrides ?base)
      (empty_interceptor_state, res, st))"
    using assms(5) by (simp add: serialization_hooks_def "is")
  have "request_compression_store cfg = last_some (map o_request_compression overrides)
      \<and> response_compression_store cfg = last_some (map o_response_compression overrides)"
    unfolding cfg using hooks_store [of U' murmur c inp "fold alternator_config_override overrides ?base"
        "(empty_interceptor_state, res, st)"] stored_overrides [of ?base empty_interceptor_state overrides] none
    by (simp add: empty_interceptor_state_def)
  then show "load_request_compression (client_interceptor config) cfg = request_setting config overrides"
    and "load_response_compression (client_interceptor config) cfg = response_setting config overrides"
    by (simp_all add: load_request_compression_def load_response_compression_def request_setting_def
        response_setting_def client_interceptor_def split: option.split)
qed

section \<open>Correctness\<close>

text \<open>
  C4: every attempt of an operation delivers its body. Whatever operation is sent by a client whose
  configuration brings no interceptors of the user's own (those may rewrite a request at will), with
  any driver overrides, however routing and the optimisation of headers go, the SDK having serialized
  a body in memory with its \<^verbatim>\<open>Content-Length\<close> and no \<^verbatim>\<open>Content-Encoding\<close>: each request that
  reaches the wire decodes, by its \<^verbatim>\<open>Content-Encoding\<close>, to the body that was serialized, and its
  \<^verbatim>\<open>Content-Length\<close> is the length of the body it carries. The body is encoded as the setting in
  force says (the last override, else the client's). \<^verbatim>\<open>Accept-Encoding\<close> announces exactly the
  response encodings in force when response compression is on, and is the one of the serialized
  request when it is off.
\<close>

theorem request_body_delivered:
  assumes "sdk_law S" and "headers_law H" and "sign_headers_law H sign" and "codec_law C gunzip inflate"
    and client: "try_from_conf S VB U env fits rt now config = Inr client"
    and user: "s_interceptors (c_settings S (dynamodb_config config)) = []"
    and op: "b \<in> set (all_operations client)"
    and r: "req_body r = Collected body" "get_all H (req_headers r) ''content-encoding'' = []"
      "get_all H (req_headers r) ''content-length'' = [decimal (length body)]"
    and wire: "Inr w \<in> set (run_operation U uri_ok H C version sign murmur (client_interceptor config)
      (operation_interceptors S (fold customize overrides b)) inp c es res st r)"
  shows "server_body H gunzip inflate w = Some body
    \<and> (\<exists>sent. req_body w = Collected sent \<and> get_all H (req_headers w) ''content-length'' = [decimal (length sent)])
    \<and> get_all H (req_headers w) ''content-encoding'' =
        (case body_encoding C (request_setting config overrides) body of None \<Rightarrow> [] | Some (e, z) \<Rightarrow> [e])
    \<and> get_all H (req_headers w) ''accept-encoding'' =
        (case accepted_algorithms (response_setting config overrides) of
           None \<Rightarrow> get_all H (req_headers r) ''accept-encoding'' | Some as \<Rightarrow> [accept_encoding_header_value as])"
proof -
  obtain cfg res' st' where h: "serialization_hooks U murmur c inp
      (operation_interceptors S (fold customize overrides b)) res st = (cfg, res', st')"
    by (metis prod_cases3)
  let ?r1 = "modify_before_retry_loop H C (client_interceptor config) cfg r"
  have "same_message H ?r1 w"
    using wire send_same [OF assms(2,3)] by (auto simp: run_operation_def h)
  then have w: "req_body w = req_body ?r1"
    "get_all H (req_headers w) ''content-encoding'' = get_all H (req_headers ?r1) ''content-encoding''"
    "get_all H (req_headers w) ''content-length'' = get_all H (req_headers ?r1) ''content-length''"
    "get_all H (req_headers w) ''accept-encoding'' = get_all H (req_headers ?r1) ''accept-encoding''"
    by (simp_all add: same_message_def BODY_HEADERS_def)
  note loop = retry_loop_message [OF assms(2) r(1,2), where i = "client_interceptor config" and cfg = cfg and C = C,
      unfolded settings_in_force [OF assms(1) client user op h]]
  let ?e = "body_encoding C (request_setting config overrides) body"
  have dec: "?e = Some (e, z) \<Longrightarrow> e = ''gzip'' \<and> gunzip z = Some body \<or> e = ''deflate'' \<and> inflate z = Some body" for e z
    using assms(4) by (auto simp: body_encoding_def encoded_def codec_law_def split: option.splits compression_algorithm.splits if_splits)
  show ?thesis
    unfolding server_body_def w loop(1) [OF canonical_literals(1)]
    using dec r(2,3) by (cases ?e) (auto simp: loop(2))
qed

text \<open>An attempt of an operation of the example client, at its one node.\<close>

definition one_node :: "string live_state" where
  "one_node = \<lparr>ordinary_view = view_new from_cluster [''http://a''], affinity_nodes = None, manager = None\<rparr>"

lemma example_user: "s_interceptors (c_settings record_sdk (dynamodb_config example_config)) = []"
  by (simp add: example_config_def build_def set_seed_hosts_def builder_new_def record_sdk_def empty_settings_def)

lemma example_attempt:
  fixes r :: "((string \<times> string) list, unit) request"
  assumes c: "try_from_conf record_sdk (\<lambda>c rc. None) text_url example_env (\<lambda>t. True) (Some 7) 0 example_config = Inr client"
    and h: "serialization_hooks text_url (\<lambda>b s. 0) (None, 0) OtherInput
      (operation_interceptors record_sdk (fold customize os (list_tables client))) (new_with_timeout Map.empty None) one_node
      = (cfg, res', st')"
    and r: "req_uri r = ''http://b''"
  shows "\<exists>w cfg' st''. attempt text_url (\<lambda>u. True) list_headers ''1'' Some (client_interceptor example_config)
      (modify_before_retry_loop list_headers C (client_interceptor example_config) cfg r) (None, 1) cfg st' = (Inr w, cfg', st'')"
proof -
  let ?i = "client_interceptor example_config"
  let ?r1 = "modify_before_retry_loop list_headers C ?i cfg r"
  have op: "list_tables client \<in> set (all_operations client)" by (simp add: all_operations_def)
  have mode: "\<not> config_without_discovery example_config" "enabled_affinity example_config = None"
    by (simp_all add: example_config_settings enabled_affinity_def)
  note plan = client_plan [OF record_sdk_law c example_user op h mode]
  have uri: "req_uri ?r1 = ''http://b''"
    by (auto simp: modify_before_retry_loop_def compress_request_def r Let_def
        split: option.split compression_algorithm.split sdk_body.split)
  have ua: "i_user_agent ?i = UaDefault"
    by (simp add: client_interceptor_def config_user_agent_def example_config_def build_def set_seed_hosts_def
        builder_new_def default_extensions_def record_sdk_def)
  have agent: "valid_value list_headers (DEFAULT_USER_AGENT ''1'')" by code_simp
  have sent: "snd (modify_before_transmit list_headers ''1'' ?i k q) = None" for k :: "string interceptor_state"
      and q :: "((string \<times> string) list, unit) request"
    by (simp add: modify_before_transmit_def apply_user_agent_def resolve_def ua header_try_insert_def agent Let_def)
  have route: "fst (snd (modify_before_signing text_url (\<lambda>u. True) (None, 1) cfg st' ?r1)) = None"
    by (simp add: modify_before_signing_def plan one_node_def next_node_or_restart_def next_node_def new_basic_def
        get_next_node_round_robin_def access_def view_of_def view_next_node_def view_new_def route_uri_def uri
        Let_def) (simp add: text_url_def)
  show ?thesis
    using route sent by (auto simp: attempt_def Let_def split: prod.splits option.splits) (metis option.distinct(1) snd_conv)+
qed

text \<open>A body of one byte, an override that compresses everything, one node.\<close>

theorem request_body_delivered_witness:
  "\<exists>client w. try_from_conf record_sdk (\<lambda>c rc. None) text_url example_env (\<lambda>t. True) (Some 7) 0 example_config = Inr client
    \<and> Inr w \<in> set (run_operation text_url (\<lambda>u. True) list_headers \<lparr>gzip_encode = (\<lambda>b l. Some (0 # b)), zlib_encode = (\<lambda>b l. None)\<rparr>
        ''1'' Some (\<lambda>b s. 0) (client_interceptor example_config)
        (operation_interceptors record_sdk (fold customize
          [operation_request_compression (compression_enabled Gzip 6 0) operation_builder_new] (list_tables client)))
        OtherInput (None, 0) [((None, 1), id)] (new_with_timeout Map.empty None) one_node
        \<lparr>req_headers = [(''content-length'', ''1'')], req_uri = ''http://b'', req_body = Collected [7] :: unit sdk_body\<rparr>)
    \<and> server_body list_headers (\<lambda>z. Some (tl z)) (\<lambda>z. None) w = Some [7]
    \<and> get_all list_headers (req_headers w) ''content-encoding'' = [''gzip'']"
proof -
  let ?C = "\<lparr>gzip_encode = (\<lambda>b l. Some (0 # b)), zlib_encode = (\<lambda>b l. None)\<rparr> :: encoders"
  let ?os = "[operation_request_compression (compression_enabled Gzip 6 0) operation_builder_new]"
  let ?r = "\<lparr>req_headers = [(''content-length'', ''1'')], req_uri = ''http://b'', req_body = Collected [7] :: unit sdk_body\<rparr>"
  obtain client where c: "try_from_conf record_sdk (\<lambda>c rc. None) text_url example_env (\<lambda>t. True) (Some 7) 0 example_config = Inr client"
    using example_client by blast
  have op: "list_tables client \<in> set (all_operations client)" by (simp add: all_operations_def)
  obtain cfg res' st' where h: "serialization_hooks text_url (\<lambda>b s. 0) (None, 0) OtherInput
      (operation_interceptors record_sdk (fold customize ?os (list_tables client))) (new_with_timeout Map.empty None) one_node
      = (cfg, res', st')" by (metis prod_cases3)
  obtain w cfg' st'' where a: "attempt text_url (\<lambda>u. True) list_headers ''1'' Some (client_interceptor example_config)
      (modify_before_retry_loop list_headers ?C (client_interceptor example_config) cfg ?r) (None, 1) cfg st' = (Inr w, cfg', st'')"
    using example_attempt [OF c h, of ?r ?C] by auto
  have w: "Inr w \<in> set (run_operation text_url (\<lambda>u. True) list_headers ?C ''1'' Some (\<lambda>b s. 0) (client_interceptor example_config)
      (operation_interceptors record_sdk (fold customize ?os (list_tables client))) OtherInput (None, 0) [((None, 1), id)]
      (new_with_timeout Map.empty None) one_node ?r)"
    unfolding run_operation_def h Let_def prod.case send.simps id_apply a by simp
  have sign: "sign_headers_law list_headers (Some :: ((string \<times> string) list, unit) request \<Rightarrow> _)"
    by (simp add: sign_headers_law_def sign_law_def)
  have codec: "codec_law ?C (\<lambda>z. Some (tl z)) (\<lambda>z. None)" by (simp add: codec_law_def)
  have len: "decimal (length [7 :: 8 word]) = ''1''" by code_simp
  have set: "body_encoding ?C (request_setting example_config ?os) [7] = Some (''gzip'', [0, 7])"
    by (simp add: request_setting_def last_some_def operation_request_compression_def operation_builder_new_def
        compression_enabled_def body_encoding_def encoded_def)
  have r: "req_body ?r = Collected [7]" "get_all list_headers (req_headers ?r) ''content-encoding'' = []"
    "get_all list_headers (req_headers ?r) ''content-length'' = [decimal (length [7 :: 8 word])]"
    by (simp_all add: list_get_all len [simplified])
  from request_body_delivered [OF record_sdk_law list_headers_law sign codec c example_user op r w] c w show ?thesis
    unfolding set by auto
qed

end
