(* ===== verification/Response_Integrity.thy ===== *)
theory Response_Integrity
  imports Request_Integrity
begin

text \<open>
  What an operation gets back: the response to each attempt goes through the main interceptor's
  hook before deserialization (\<^verbatim>\<open>src/src/interceptors.rs\<close>), which undoes the encoding that the server
  chose from those the request announced.
\<close>

section \<open>Attempts with their responses\<close>

text \<open>
  The attempts of \<open>send\<close>; \<open>answer\<close> is the transport and the server, which turn a request on the
  wire into the headers and the body of a response.
\<close>

fun exchanges ::
  "('u, 'x) url_api_scheme \<Rightarrow> (string \<Rightarrow> bool) \<Rightarrow> ('h, 'y) headers_api_scheme \<Rightarrow> string \<Rightarrow>
   (('h, 's) request \<Rightarrow> ('h, 's) request option) \<Rightarrow> decoders \<Rightarrow> (('h, 's) request \<Rightarrow> 'h \<times> body_stream) \<Rightarrow>
   alternator_interceptor \<Rightarrow> ('h, 's) request \<Rightarrow> (call \<times> ('u live_state \<Rightarrow> 'u live_state)) list \<Rightarrow>
   'u interceptor_state \<Rightarrow> 'u live_state \<Rightarrow>
   (('h, 's) request \<times> (decode_error + 'h \<times> (body_stream + byte_stream))) list" where
  "exchanges U uri_ok H version sign dec answer i r [] cfg st = []"
| "exchanges U uri_ok H version sign dec answer i r ((c, env) # es) cfg st =
     (let (x, cfg', st') = attempt U uri_ok H version sign i r c cfg (env st);
          more = exchanges U uri_ok H version sign dec answer i r es cfg' st'
      in case x of
           Inl e \<Rightarrow> more
         | Inr w \<Rightarrow> (w, modify_before_deserialization H dec i cfg' (fst (answer w)) (snd (answer w))) # more)"

definition run_exchanges ::
  "('u, 'x) url_api_scheme \<Rightarrow> (string \<Rightarrow> bool) \<Rightarrow> ('h, 'y) headers_api_scheme \<Rightarrow> encoders \<Rightarrow> string \<Rightarrow>
   (('h, 's) request \<Rightarrow> ('h, 's) request option) \<Rightarrow> decoders \<Rightarrow> (('h, 's) request \<Rightarrow> 'h \<times> body_stream) \<Rightarrow>
   murmur \<Rightarrow> alternator_interceptor \<Rightarrow> shared_interceptor list \<Rightarrow>
   input \<Rightarrow> call \<Rightarrow> (call \<times> ('u live_state \<Rightarrow> 'u live_state)) list \<Rightarrow> partition_key_resolver \<Rightarrow> 'u live_state \<Rightarrow>
   ('h, 's) request \<Rightarrow> (('h, 's) request \<times> (decode_error + 'h \<times> (body_stream + byte_stream))) list" where
  "run_exchanges U uri_ok H C version sign dec answer murmur i is inp c es res st r =
     (let (cfg, res', st') = serialization_hooks U murmur c inp is res st
      in exchanges U uri_ok H version sign dec answer i (modify_before_retry_loop H C i cfg r) es cfg st')"

text \<open>
  A server that sends \<open>payload\<close>: as it is, or under one of the encodings that the request announced
  and with that name as its \<^verbatim>\<open>Content-Encoding\<close>. The whole body arrives, in any frames.
\<close>

definition serves ::
  "('h, 'y) headers_api_scheme \<Rightarrow> (string \<Rightarrow> bytes \<Rightarrow> bytes) \<Rightarrow> bytes \<Rightarrow> (('h, 's) request \<Rightarrow> 'h \<times> body_stream) \<Rightarrow> bool" where
  "serves H encode payload answer \<longleftrightarrow>
     (\<forall>w. snd (snd (answer w)) = Eof
       \<and> (case encoding_tokens (get_all H (fst (answer w)) ''content-encoding'') of
            [] \<Rightarrow> body_out (snd (answer w)) = payload
          | [t] \<Rightarrow> t \<in> set (encoding_tokens (get_all H (req_headers w) ''accept-encoding''))
              \<and> body_out (snd (answer w)) = encode t payload
          | _ \<Rightarrow> False))"

definition coding_law :: "decoders \<Rightarrow> (string \<Rightarrow> bytes \<Rightarrow> bytes) \<Rightarrow> bool" where
  "coding_law dec encode \<longleftrightarrow>
     (\<forall>t a b. from_content_encoding t = Some a \<longrightarrow> dec a (encode t b) = (b, MemberComplete))"

text \<open>What the SDK goes on to deserialize.\<close>

definition delivers :: "bytes \<Rightarrow> decode_error + 'h \<times> (body_stream + byte_stream) \<Rightarrow> bool" where
  "delivers payload d =
     (case d of
        Inl e \<Rightarrow> False
      | Inr (h, Inl body) \<Rightarrow> body_stream_of body = (payload, Eof)
      | Inr (h, Inr s) \<Rightarrow> s = (payload, Eof))"

section \<open>Facts\<close>

lemma announced_tokens:
  "encoding_tokens [accept_encoding_header_value as] = map accept_encoding_token as"
proof (cases "as = []")
  case True
  have "encoding_tokens [accept_encoding_header_value []] = []" by code_simp
  then show ?thesis by (simp add: True)
next
  case False
  have t: "trim (accept_encoding_token a) = accept_encoding_token a" for a
    by (rule trim_visible [OF token_visible(1)])
  have ne: "accept_encoding_token a \<noteq> []" for a by (cases a) simp_all
  have "map trim (split_on CHR '','' (accept_encoding_header_value as)) = map accept_encoding_token as"
    unfolding split_header_value [OF False] using False by (cases as) (simp_all add: t trim_space)
  then show ?thesis using ne by (simp add: encoding_tokens_def)
qed

lemma attempt_response_store:
  assumes "attempt U uri_ok H version sign i r c cfg st = (x, cfg', st')"
  shows "load_response_compression i cfg' = load_response_compression i cfg"
  using assms
  by (auto simp: attempt_def modify_before_signing_def read_after_signing_def load_response_compression_def Let_def
      split: option.splits prod.splits sum.splits if_splits)

lemma exchange_cases:
  fixes U :: "('u, 'x) url_api_scheme"
  assumes "headers_law H" and "sign_headers_law H sign"
    and "(w, d) \<in> set (exchanges U uri_ok H version sign dec answer i r es cfg st)"
  shows "same_message H r w
    \<and> (\<exists>cfg' :: 'u interceptor_state. d = modify_before_deserialization H dec i cfg' (fst (answer w)) (snd (answer w))
        \<and> load_response_compression i cfg' = load_response_compression i cfg)"
  using assms(3)
proof (induction es arbitrary: cfg st)
  case (Cons e es)
  obtain c env where e: "e = (c, env)" by (cases e)
  obtain x cfg' st' where a: "attempt U uri_ok H version sign i r c cfg (env st) = (x, cfg', st')"
    by (cases "attempt U uri_ok H version sign i r c cfg (env st)")
  note store = attempt_response_store [OF a]
  show ?case
  proof (cases x)
    case (Inl f)
    then have "(w, d) \<in> set (exchanges U uri_ok H version sign dec answer i r es cfg' st')"
      using Cons.prems by (simp add: e a)
    from Cons.IH [OF this] store show ?thesis by simp
  next
    case (Inr v)
    then consider "w = v" "d = modify_before_deserialization H dec i cfg' (fst (answer v)) (snd (answer v))"
      | "(w, d) \<in> set (exchanges U uri_ok H version sign dec answer i r es cfg' st')"
      using Cons.prems by (auto simp: e a)
    then show ?thesis
    proof cases
      case 1
      with attempt_same [OF assms(1,2) a [unfolded Inr]] store show ?thesis by blast
    next
      case 2
      from Cons.IH [OF this] store show ?thesis by simp
    qed
  qed
qed simp

lemma decode_one:
  assumes "coding_law dec encode" and "from_content_encoding t = Some a"
    and "encoding_tokens (get_all H h ''content-encoding'') = [t]"
    and "body_stream_of body = (encode t payload, Eof)"
    and "0 < max_encoding_layers (load_response_compression i cfg)"
    and "length payload \<le> max_decompressed_bytes (load_response_compression i cfg)"
  shows "delivers payload (modify_before_deserialization H dec i cfg h body)"
proof -
  have "dec a (encode t payload) = (payload, MemberComplete)" using assms(1,2) by (simp add: coding_law_def)
  then show ?thesis using assms(2-6)
    by (simp add: delivers_def modify_before_deserialization_def wrap_decompressed_body_def
        validate_response_encoding_layer_count_def decode_stage_def limit_stage_def Let_def)
qed

section \<open>Correctness\<close>

text \<open>
  C16: a client understands every answer it asked for, if its limits let it. Whatever operation is
  sent by a client whose configuration brings no interceptors of the user's own (those may rewrite
  requests and answers at will), with any driver overrides, and however its attempts are routed, the
  SDK having serialized a body in memory and no encoding headers: to each request that reaches the
  wire a server may answer in plain or under any one encoding it reads in the request's
  \<^verbatim>\<open>Accept-Encoding\<close>, in any frames, and the SDK deserializes exactly the server's payload and its
  proper end, as long as the payload is within the size limit in force and the setting in force
  admits an encoding layer at all (with \<^verbatim>\<open>max_encoding_layers\<close> 0 the driver
  refuses every encoded response, also those it asked for).
\<close>

theorem response_body_delivered:
  fixes U :: "('u, 'x) url_api_scheme"
  assumes "sdk_law S" and H: "headers_law H" and sign: "sign_headers_law H sign" and dec: "coding_law dec encode"
    and client: "try_from_conf S VB U env fits rt now config = Inr client"
    and user: "s_interceptors (c_settings S (dynamodb_config config)) = []"
    and op: "b \<in> set (all_operations client)"
    and r: "req_body r = Collected body" "get_all H (req_headers r) ''content-encoding'' = []"
      "get_all H (req_headers r) ''accept-encoding'' = []"
    and server: "serves H encode payload answer"
    and limits: "0 < max_encoding_layers (response_setting config overrides)"
      "length payload \<le> max_decompressed_bytes (response_setting config overrides)"
    and exchange: "(w, d) \<in> set (run_exchanges U uri_ok H C version sign dec answer murmur (client_interceptor config)
      (operation_interceptors S (fold customize overrides b)) inp c es res st r)"
  shows "delivers payload d"
proof -
  obtain cfg res' st' where h: "serialization_hooks U murmur c inp
      (operation_interceptors S (fold customize overrides b)) res st = (cfg, res', st')"
    by (metis prod_cases3)
  let ?i = "client_interceptor config"
  let ?r1 = "modify_before_retry_loop H C ?i cfg r"
  note setting = settings_in_force(2) [OF assms(1) client user op h]
  have "(w, d) \<in> set (exchanges U uri_ok H version sign dec answer ?i ?r1 es cfg st')"
    using exchange by (simp add: run_exchanges_def h)
  from exchange_cases [OF H sign this] obtain cfg' :: "'u interceptor_state" where "same_message H ?r1 w"
    and d: "d = modify_before_deserialization H dec ?i cfg' (fst (answer w)) (snd (answer w))"
    and cfg': "load_response_compression ?i cfg' = response_setting config overrides"
    unfolding setting by blast
  then have ae: "get_all H (req_headers w) ''accept-encoding'' = get_all H (req_headers ?r1) ''accept-encoding''"
    by (simp add: same_message_def BODY_HEADERS_def)
  obtain as where tokens: "encoding_tokens (get_all H (req_headers w) ''accept-encoding'') = map accept_encoding_token as"
  proof (cases "accepted_algorithms (response_setting config overrides)")
    case None
    with that [of "[]"] r(3) show ?thesis
      by (simp add: ae retry_loop_message(2) [OF H r(1,2) canonical_literals(7)] setting encoding_tokens_def
          split: option.split)
  next
    case (Some as)
    with that [of as] show ?thesis
      by (simp add: ae retry_loop_message(2) [OF H r(1,2) canonical_literals(7)] setting announced_tokens)
  qed
  let ?ts = "encoding_tokens (get_all H (fst (answer w)) ''content-encoding'')"
  have body: "snd (snd (answer w)) = Eof"
    and kind: "case ?ts of [] \<Rightarrow> body_out (snd (answer w)) = payload
      | [t] \<Rightarrow> t \<in> set (encoding_tokens (get_all H (req_headers w) ''accept-encoding'')) \<and> body_out (snd (answer w)) = encode t payload
      | _ \<Rightarrow> False"
    using server unfolding serves_def by blast+
  show ?thesis
  proof (cases ?ts)
    case Nil
    with kind body show ?thesis
      by (simp add: d modify_before_deserialization_def delivers_def body_stream_of_def)
  next
    case (Cons t ts)
    with kind have one: "?ts = [t]" and t: "t \<in> set (map accept_encoding_token as)"
      and out: "body_out (snd (answer w)) = encode t payload"
      by (cases ts; simp add: tokens)+
    from t obtain a where "from_content_encoding t = Some a" using from_content_encoding_token by auto
    from decode_one [OF dec this one, of "snd (answer w)" payload ?i cfg'] out body limits show ?thesis
      unfolding d cfg' by (simp add: body_stream_of_def)
  qed
qed

text \<open>
  An override that accepts deflate only, and a server that takes any encoding it is offered and
  marks what it encodes.
\<close>

definition marking_server :: "((string \<times> string) list, unit) request \<Rightarrow> (string \<times> string) list \<times> body_stream" where
  "marking_server w =
     (case encoding_tokens (get_all list_headers (req_headers w) ''accept-encoding'') of
        [] \<Rightarrow> ([], ([DataFrame [7]], Eof))
      | t # ts \<Rightarrow>
          if encoding_tokens [t] = [t] then ([(''content-encoding'', t)], ([DataFrame [0], NotReady, DataFrame [7]], Eof))
          else ([], ([DataFrame [7]], Eof)))"

lemma marking_server: "serves list_headers (\<lambda>t b. 0 # b) [7] marking_server"
  unfolding serves_def
proof
  fix w
  have none: "encoding_tokens [] = []" by (simp add: encoding_tokens_def)
  show "snd (snd (marking_server w)) = Eof
      \<and> (case encoding_tokens (get_all list_headers (fst (marking_server w)) ''content-encoding'') of
            [] \<Rightarrow> body_out (snd (marking_server w)) = [7]
          | [t] \<Rightarrow> t \<in> set (encoding_tokens (get_all list_headers (req_headers w) ''accept-encoding''))
              \<and> body_out (snd (marking_server w)) = 0 # [7]
          | _ \<Rightarrow> False)"
  proof (cases "encoding_tokens (get_all list_headers (req_headers w) ''accept-encoding'')")
    case Nil
    then show ?thesis by (simp add: marking_server_def list_get_all none body_out_def)
  next
    case (Cons t ts)
    then show ?thesis
      by (cases "encoding_tokens [t] = [t]") (simp_all add: marking_server_def list_get_all none body_out_def)
  qed
qed

theorem response_body_delivered_witness:
  "\<exists>client w d. try_from_conf record_sdk (\<lambda>c rc. None) text_url example_env (\<lambda>t. True) (Some 7) 0 example_config = Inr client
    \<and> (w, d) \<in> set (run_exchanges text_url (\<lambda>u. True) list_headers \<lparr>gzip_encode = (\<lambda>b l. None), zlib_encode = (\<lambda>b l. None)\<rparr>
        ''1'' Some (\<lambda>a b. (tl b, MemberComplete)) marking_server (\<lambda>b s. 0) (client_interceptor example_config)
        (operation_interceptors record_sdk (fold customize
          [operation_response_compression (response_enabled_many [RDeflate]) operation_builder_new] (list_tables client)))
        OtherInput (None, 0) [((None, 1), id)] (new_with_timeout Map.empty None) one_node
        \<lparr>req_headers = [], req_uri = ''http://b'', req_body = Collected [] :: unit sdk_body\<rparr>)
    \<and> delivers [7] d"
proof -
  let ?C = "\<lparr>gzip_encode = (\<lambda>b l. None), zlib_encode = (\<lambda>b l. None)\<rparr> :: encoders"
  let ?os = "[operation_response_compression (response_enabled_many [RDeflate]) operation_builder_new]"
  let ?r = "\<lparr>req_headers = [], req_uri = ''http://b'', req_body = Collected [] :: unit sdk_body\<rparr>"
  obtain client where c: "try_from_conf record_sdk (\<lambda>c rc. None) text_url example_env (\<lambda>t. True) (Some 7) 0 example_config = Inr client"
    using example_client by blast
  have op: "list_tables client \<in> set (all_operations client)" by (simp add: all_operations_def)
  obtain cfg res' st' where h: "serialization_hooks text_url (\<lambda>b s. 0) (None, 0) OtherInput
      (operation_interceptors record_sdk (fold customize ?os (list_tables client))) (new_with_timeout Map.empty None) one_node
      = (cfg, res', st')" by (metis prod_cases3)
  obtain w cfg' st'' where a: "attempt text_url (\<lambda>u. True) list_headers ''1'' Some (client_interceptor example_config)
      (modify_before_retry_loop list_headers ?C (client_interceptor example_config) cfg ?r) (None, 1) cfg st' = (Inr w, cfg', st'')"
    using example_attempt [OF c h, of ?r ?C] by auto
  obtain d where wd: "(w, d) \<in> set (run_exchanges text_url (\<lambda>u. True) list_headers ?C ''1'' Some (\<lambda>a b. (tl b, MemberComplete))
      marking_server (\<lambda>b s. 0) (client_interceptor example_config)
      (operation_interceptors record_sdk (fold customize ?os (list_tables client))) OtherInput (None, 0) [((None, 1), id)]
      (new_with_timeout Map.empty None) one_node ?r)"
    unfolding run_exchanges_def h Let_def prod.case exchanges.simps id_apply a by auto
  have sign: "sign_headers_law list_headers (Some :: ((string \<times> string) list, unit) request \<Rightarrow> _)"
    by (simp add: sign_headers_law_def sign_law_def)
  have coding: "coding_law (\<lambda>a b. (tl b, MemberComplete)) (\<lambda>t b. 0 # b)" by (simp add: coding_law_def)
  have setting: "response_setting example_config ?os = response_enabled_many [RDeflate]"
    by (simp add: response_setting_def last_some_def operation_response_compression_def operation_builder_new_def)
  have limits: "0 < max_encoding_layers (response_setting example_config ?os)"
    "length [7 :: 8 word] \<le> max_decompressed_bytes (response_setting example_config ?os)"
    using enabled_many_limits [of "[RDeflate]"] by (simp_all add: setting)
  have r: "req_body ?r = Collected []" "get_all list_headers (req_headers ?r) ''content-encoding'' = []"
    "get_all list_headers (req_headers ?r) ''accept-encoding'' = []"
    by (simp_all add: list_get_all)
  from response_body_delivered [OF record_sdk_law list_headers_law sign coding c example_user op r marking_server limits wd] c wd
  show ?thesis by blast
qed

end
