(* ===== verification/Body_Polls.thy ===== *)
theory Body_Polls
  imports Decompression
begin

text \<open>
  The body that \<^verbatim>\<open>wrap_decompressed_body\<close> of \<^verbatim>\<open>src/src/decompression.rs\<close> builds, poll by poll: the
  boxed readers of all layers on top of each other, the chunk stream over the outermost and the
  frames the SDK polls. It delivers what theory \<^verbatim>\<open>Decompression\<close> says of whole streams.
\<close>

section \<open>Boxed readers\<close>

text \<open>
  A \<^verbatim>\<open>BoxedAsyncRead\<close> is the reader over the transport or one layer over another reader: the limit
  that is left, the limit, the algorithm and the completion flag of the stage, its decoder state
  \<open>'d\<close> (the one of \<^verbatim>\<open>async-compression\<close> with its \<^verbatim>\<open>BufReader\<close>) and the reader below.
\<close>

datatype 'd boxed_reader =
    BodyReader body_stream
  | LayerReader nat nat response_compression_algorithm bool 'd "'d boxed_reader"

type_synonym 'd layer = "('d \<times> 'd boxed_reader) complete_stage_decoder size_limited_reader"

definition box_layer :: "'d layer \<Rightarrow> 'd boxed_reader" where
  "box_layer l =
     (let st = sl_inner l
      in LayerReader (take_limit l) (sl_limit l) (dec_algorithm st) (decoding_complete st)
           (fst (dec_inner st)) (snd (dec_inner st)))"

fun layer_of :: "nat \<Rightarrow> nat \<Rightarrow> response_compression_algorithm \<Rightarrow> bool \<Rightarrow> 'd \<Rightarrow> 'd boxed_reader \<Rightarrow> 'd layer" where
  "layer_of rest limit algorithm complete d r =
     \<lparr>take_limit = rest, sl_limit = limit,
      sl_inner = \<lparr>dec_algorithm = algorithm, dec_inner = (d, r), decoding_complete = complete\<rparr>\<rparr>"

text \<open>
  Decoders over any inner reader: how their two polls use the \<open>poll_read\<close> of the reader below.
\<close>

type_synonym 'd polled_decoders =
  "(nat \<Rightarrow> 'd boxed_reader \<Rightarrow> poll \<times> 'd boxed_reader) \<Rightarrow> ('d \<times> 'd boxed_reader) decoder_api"

text \<open>
  \<open>poll_read\<close> of a boxed reader, which calls the readers below it; \<open>k\<close> is at least the number of its
  layers.
\<close>

fun boxed_read :: "'d polled_decoders \<Rightarrow> nat \<Rightarrow> nat \<Rightarrow> 'd boxed_reader \<Rightarrow> poll \<times> 'd boxed_reader" where
  "boxed_read D k n (BodyReader b) = (let (p, b') = body_read n b in (p, BodyReader b'))"
| "boxed_read D 0 n (LayerReader rest limit a complete d r) = (Pending, LayerReader rest limit a complete d r)"
| "boxed_read D (Suc k) n (LayerReader rest limit a complete d r) =
     (let (p, l) = size_limited_read (complete_read (D (boxed_read D k))) n (layer_of rest limit a complete d r)
      in (p, box_layer l))"

text \<open>The fold of \<^verbatim>\<open>wrap_decompressed_body\<close>.\<close>

definition add_layer ::
  "(response_compression_algorithm \<Rightarrow> 'd) \<Rightarrow> nat \<Rightarrow> response_compression_algorithm \<Rightarrow> 'd boxed_reader \<Rightarrow> 'd boxed_reader" where
  "add_layer new limit algorithm reader =
     box_layer (size_limited_new (complete_new (\<lambda>a r. (new a, r)) reader algorithm) limit)"

text \<open>\<open>start\<close> is \<^verbatim>\<open>ReaderStream::new\<close>.\<close>

definition wrap_polled_body ::
  "(response_compression_algorithm \<Rightarrow> 'd) \<Rightarrow> ('d boxed_reader \<Rightarrow> 'q) \<Rightarrow> body_stream \<Rightarrow>
   response_compression_algorithm list \<Rightarrow> nat \<Rightarrow> nat \<Rightarrow> (nat \<times> nat) + 'q" where
  "wrap_polled_body new start body encodings max_layers max_bytes =
     (case validate_response_encoding_layer_count (length encodings) max_layers of
        Some e \<Rightarrow> Inl e
      | None \<Rightarrow> Inr (start (fold (add_layer new max_bytes) (rev encodings) (BodyReader body))))"

text \<open>The SDK polls the frames of a body until it ends or fails.\<close>

fun poll_frames :: "('q \<Rightarrow> stream_poll \<times> 'q) \<Rightarrow> nat \<Rightarrow> 'q \<Rightarrow> bytes \<times> ending option" where
  "poll_frames next 0 q = ([], None)"
| "poll_frames next (Suc m) q =
     (case poll_frame next q of
        (FrameReady f, q') \<Rightarrow> (let (bs, e) = poll_frames next m q' in (frame_bytes f @ bs, e))
      | (FrameError x, q') \<Rightarrow> ([], Some (Fail x))
      | (BodyDone, q') \<Rightarrow> ([], Some Eof)
      | (BodyPending, q') \<Rightarrow> poll_frames next m q')"

section \<open>What the libraries promise\<close>

text \<open>
  The decoders: a state of the decoder for \<open>a\<close> turns the bytes still to come from its reader into
  \<open>rest a d bs\<close>, a new one decodes like \<open>dec\<close>, and the polls report that in order, over any reader
  that keeps the contract of an \<^verbatim>\<open>AsyncRead\<close>.
\<close>

definition decoder_error :: "bytes \<times> decode_end \<Rightarrow> ending \<Rightarrow> io_error option" where
  "decoder_error r e =
     (case snd r of
        MemberComplete \<Rightarrow> None
      | InputTooShort x \<Rightarrow> Some (case e of Eof \<Rightarrow> x | Fail y \<Rightarrow> y)
      | InvalidData x \<Rightarrow> Some x)"

definition polled_decoders_law ::
  "'d polled_decoders \<Rightarrow> (response_compression_algorithm \<Rightarrow> 'd) \<Rightarrow>
   (response_compression_algorithm \<Rightarrow> 'd \<Rightarrow> bytes \<Rightarrow> bytes \<times> decode_end) \<Rightarrow> decoders \<Rightarrow> bool" where
  "polled_decoders_law D new rest dec \<longleftrightarrow>
     (\<forall>a bs. rest a (new a) bs = dec a bs)
     \<and> (\<forall>rd out fin. async_reader rd out fin \<longrightarrow>
          decoder_law (D rd) (\<lambda>a (d, s). fst (rest a d (out s)))
            (\<lambda>a (d, s). decoder_error (rest a d (out s)) (fin s)) (\<lambda>(d, s). fin s))"

text \<open>
  \<^verbatim>\<open>DecoderInner\<close> is a gzip or a zlib decoder of the library, each with its two polls over the
  reader below, and dispatches on which one it is.
\<close>

datatype ('g, 'z) decoder_inner = GzipDecoder 'g | ZlibDecoder 'z

record ('d, 's) library_decoder =
  decode_poll :: "nat \<Rightarrow> 'd \<times> 's \<Rightarrow> poll \<times> ('d \<times> 's)"
  input_poll :: "nat \<Rightarrow> 'd \<times> 's \<Rightarrow> poll \<times> ('d \<times> 's)"

fun inner_decode ::
  "('g, 's) library_decoder \<Rightarrow> ('z, 's) library_decoder \<Rightarrow> nat \<Rightarrow> ('g, 'z) decoder_inner \<times> 's \<Rightarrow>
   poll \<times> (('g, 'z) decoder_inner \<times> 's)" where
  "inner_decode G Z n (GzipDecoder d, s) =
     (let (p, d', s') = decode_poll G n (d, s) in (p, GzipDecoder d', s'))"
| "inner_decode G Z n (ZlibDecoder d, s) =
     (let (p, d', s') = decode_poll Z n (d, s) in (p, ZlibDecoder d', s'))"

fun inner_input ::
  "('g, 's) library_decoder \<Rightarrow> ('z, 's) library_decoder \<Rightarrow> nat \<Rightarrow> ('g, 'z) decoder_inner \<times> 's \<Rightarrow>
   poll \<times> (('g, 'z) decoder_inner \<times> 's)" where
  "inner_input G Z n (GzipDecoder d, s) =
     (let (p, d', s') = input_poll G n (d, s) in (p, GzipDecoder d', s'))"
| "inner_input G Z n (ZlibDecoder d, s) =
     (let (p, d', s') = input_poll Z n (d, s) in (p, ZlibDecoder d', s'))"

definition inner_api ::
  "('g, 's) library_decoder \<Rightarrow> ('z, 's) library_decoder \<Rightarrow> (('g, 'z) decoder_inner \<times> 's) decoder_api" where
  "inner_api G Z = \<lparr>poll_decode = (\<lambda>a. inner_decode G Z), poll_input = (\<lambda>a. inner_input G Z)\<rparr>"

definition inner_new :: "'g \<Rightarrow> 'z \<Rightarrow> response_compression_algorithm \<Rightarrow> ('g, 'z) decoder_inner" where
  "inner_new g z algorithm = (case algorithm of RGzip \<Rightarrow> GzipDecoder g | RDeflate \<Rightarrow> ZlibDecoder z)"

text \<open>The contract of one library decoder: \<open>new\<close> is its state at first, which decodes like \<open>dec\<close>.\<close>

definition library_law ::
  "((nat \<Rightarrow> 's \<Rightarrow> poll \<times> 's) \<Rightarrow> ('d, 's) library_decoder) \<Rightarrow> 'd \<Rightarrow>
   ('d \<Rightarrow> bytes \<Rightarrow> bytes \<times> decode_end) \<Rightarrow> (bytes \<Rightarrow> bytes \<times> decode_end) \<Rightarrow> bool" where
  "library_law L new rest dec \<longleftrightarrow>
     rest new = dec
     \<and> (\<forall>rd out fin. async_reader rd out fin \<longrightarrow>
          decoder_law \<lparr>poll_decode = (\<lambda>a. decode_poll (L rd)), poll_input = (\<lambda>a. input_poll (L rd))\<rparr>
            (\<lambda>a (d, s). fst (rest d (out s))) (\<lambda>a (d, s). decoder_error (rest d (out s)) (fin s)) (\<lambda>(d, s). fin s))"

definition inner_rest ::
  "('g \<Rightarrow> bytes \<Rightarrow> bytes \<times> decode_end) \<Rightarrow> ('z \<Rightarrow> bytes \<Rightarrow> bytes \<times> decode_end) \<Rightarrow>
   response_compression_algorithm \<Rightarrow> ('g, 'z) decoder_inner \<Rightarrow> bytes \<Rightarrow> bytes \<times> decode_end" where
  "inner_rest rg rz a d = (case d of GzipDecoder g \<Rightarrow> rg g | ZlibDecoder z \<Rightarrow> rz z)"

definition inner_dec ::
  "(bytes \<Rightarrow> bytes \<times> decode_end) \<Rightarrow> (bytes \<Rightarrow> bytes \<times> decode_end) \<Rightarrow> decoders" where
  "inner_dec dg dz a = (case a of RGzip \<Rightarrow> dg | RDeflate \<Rightarrow> dz)"

lemma inner_decoder_law:
  assumes "library_law G g rg dg" and "library_law Z z rz dz" and "async_reader rd out fin"
  shows "decoder_law (inner_api (G rd) (Z rd)) (\<lambda>a (d, s). fst (inner_rest rg rz a d (out s)))
    (\<lambda>a (d, s). decoder_error (inner_rest rg rz a d (out s)) (fin s)) (\<lambda>(d, s). fin s)"
proof -
  have laws: "decoder_law \<lparr>poll_decode = (\<lambda>a. decode_poll (G rd)), poll_input = (\<lambda>a. input_poll (G rd))\<rparr>
      (\<lambda>a (d, s). fst (rg d (out s))) (\<lambda>a (d, s). decoder_error (rg d (out s)) (fin s)) (\<lambda>(d, s). fin s)"
    "decoder_law \<lparr>poll_decode = (\<lambda>a. decode_poll (Z rd)), poll_input = (\<lambda>a. input_poll (Z rd))\<rparr>
      (\<lambda>a (d, s). fst (rz d (out s))) (\<lambda>a (d, s). decoder_error (rz d (out s)) (fin s)) (\<lambda>(d, s). fin s)"
    using assms unfolding library_law_def by blast+
  show ?thesis
    unfolding decoder_law_def
  proof (intro conjI allI impI, goal_cases)
    case (1 a n d p d')
    obtain i s where d: "d = (i, s)" by (cases d)
    show ?case
    proof (cases i)
      case (GzipDecoder x)
      obtain q x' s' where q: "decode_poll (G rd) n (x, s) = (q, x', s')" by (metis prod_cases3)
      from decoder_decode [OF laws(1) 1(1), of a "(x, s)" q "(x', s')"] q 1(2) d GzipDecoder show ?thesis
        by (cases q) (auto simp: inner_api_def inner_rest_def)
    next
      case (ZlibDecoder x)
      obtain q x' s' where q: "decode_poll (Z rd) n (x, s) = (q, x', s')" by (metis prod_cases3)
      from decoder_decode [OF laws(2) 1(1), of a "(x, s)" q "(x', s')"] q 1(2) d ZlibDecoder show ?thesis
        by (cases q) (auto simp: inner_api_def inner_rest_def)
    qed
  next
    case (2 a n d p d')
    obtain i s where d: "d = (i, s)" by (cases d)
    show ?case
    proof (cases i)
      case (GzipDecoder x)
      obtain q x' s' where q: "input_poll (G rd) n (x, s) = (q, x', s')" by (metis prod_cases3)
      from decoder_input [OF laws(1) 2(1), of a "(x, s)" q "(x', s')"] q 2(2) d GzipDecoder show ?thesis
        by (cases q) (auto simp: inner_api_def)
    next
      case (ZlibDecoder x)
      obtain q x' s' where q: "input_poll (Z rd) n (x, s) = (q, x', s')" by (metis prod_cases3)
      from decoder_input [OF laws(2) 2(1), of a "(x, s)" q "(x', s')"] q 2(2) d ZlibDecoder show ?thesis
        by (cases q) (auto simp: inner_api_def)
    qed
  qed
qed

lemma inner_polled_law:
  assumes "library_law G g rg dg" and "library_law Z z rz dz"
  shows "polled_decoders_law (\<lambda>rd. inner_api (G rd) (Z rd)) (inner_new g z) (inner_rest rg rz) (inner_dec dg dz)"
  using assms inner_decoder_law [OF assms]
  by (auto simp: polled_decoders_law_def library_law_def inner_new_def inner_rest_def inner_dec_def
      split: response_compression_algorithm.split)

text \<open>The chunks of a \<^verbatim>\<open>ReaderStream\<close> are what its reader delivers.\<close>

definition chunk_stream_law ::
  "(nat \<Rightarrow> 's \<Rightarrow> poll \<times> 's) \<Rightarrow> ('s \<Rightarrow> 'q) \<Rightarrow> ('q \<Rightarrow> stream_poll \<times> 'q) \<Rightarrow> bool" where
  "chunk_stream_law rd start next \<longleftrightarrow>
     (\<forall>out fin. async_reader rd out fin \<longrightarrow>
       (\<exists>cout cfin. (\<forall>s. cout (start s) = out s \<and> cfin (start s) = fin s)
         \<and> (\<forall>q p q'. next q = (p, q') \<longrightarrow>
              (case p of
                 ChunkReady bs \<Rightarrow> cout q = bs @ cout q' \<and> cfin q' = cfin q
               | ChunkError x \<Rightarrow> cout q = [] \<and> cfin q = Fail x
               | StreamDone \<Rightarrow> cout q = [] \<and> cfin q = Eof
               | StreamPending \<Rightarrow> cout q' = cout q \<and> cfin q' = cfin q))))"

section \<open>The layers as one reader\<close>

text \<open>What a boxed reader delivers.\<close>

fun boxed_stream ::
  "(response_compression_algorithm \<Rightarrow> 'd \<Rightarrow> bytes \<Rightarrow> bytes \<times> decode_end) \<Rightarrow> nat \<Rightarrow> 'd boxed_reader \<Rightarrow> byte_stream" where
  "boxed_stream rest k (BodyReader b) = body_stream_of b"
| "boxed_stream rest 0 (LayerReader t limit a complete d r) = ([], Eof)"
| "boxed_stream rest (Suc k) (LayerReader t limit a complete d r) =
     (let out = stage_out (\<lambda>a (d, s). fst (rest a d (fst (boxed_stream rest k s))));
          fin = stage_fin (\<lambda>a (d, s). decoder_error (rest a d (fst (boxed_stream rest k s))) (snd (boxed_stream rest k s)))
                  (\<lambda>(d, s). snd (boxed_stream rest k s));
          l = layer_of t limit a complete d r
      in (limited_out out l, limited_fin out fin l))"

lemma layer_of_box_layer: "box_layer l = LayerReader t limit a complete d r \<Longrightarrow> layer_of t limit a complete d r = l"
  by (cases l) (auto simp: box_layer_def Let_def)

lemma boxed_stream_layer:
  "boxed_stream rest (Suc k) (box_layer l) =
     (limited_out (stage_out (\<lambda>a (d, s). fst (rest a d (fst (boxed_stream rest k s))))) l,
      limited_fin (stage_out (\<lambda>a (d, s). fst (rest a d (fst (boxed_stream rest k s)))))
        (stage_fin (\<lambda>a (d, s). decoder_error (rest a d (fst (boxed_stream rest k s))) (snd (boxed_stream rest k s)))
          (\<lambda>(d, s). snd (boxed_stream rest k s))) l)"
proof -
  obtain t limit a complete d r where b: "box_layer l = LayerReader t limit a complete d r"
    by (auto simp: box_layer_def Let_def)
  from layer_of_box_layer [OF this] show ?thesis unfolding b by (simp add: Let_def)
qed

lemma async_readerI:
  assumes "\<And>n s p s'. 0 < n \<Longrightarrow> rd n s = (p, s') \<Longrightarrow>
    (case p of Pending \<Rightarrow> out s' = out s \<and> fin s' = fin s
     | Ready bs \<Rightarrow> if bs = [] then out s = [] \<and> fin s = Eof
         else length bs \<le> n \<and> out s = bs @ out s' \<and> fin s' = fin s
     | Failed x \<Rightarrow> out s = [] \<and> fin s = Fail x)"
  shows "async_reader rd out fin"
  by unfold_locales (auto dest: assms)

lemma boxed_body_read:
  assumes "0 < n" and "boxed_read D k n (BodyReader b) = (p, s')"
  shows "case p of Pending \<Rightarrow> boxed_stream rest k s' = boxed_stream rest k (BodyReader b)
      | Ready bs \<Rightarrow> if bs = [] then boxed_stream rest k (BodyReader b) = ([], Eof)
          else length bs \<le> n \<and> boxed_stream rest k (BodyReader b) = (bs @ fst (boxed_stream rest k s'), snd (boxed_stream rest k s'))
      | Failed x \<Rightarrow> boxed_stream rest k (BodyReader b) = ([], Fail x)"
proof -
  obtain b' where "body_read n b = (p, b')" "s' = BodyReader b'" using assms(2) by (auto split: prod.splits)
  with body_read_cases [OF assms(1) this(1)] show ?thesis
    by (cases p) (auto simp: body_stream_of_def)
qed

lemma boxed_async:
  assumes "polled_decoders_law D new rest dec"
  shows "async_reader (boxed_read D k) (\<lambda>r. fst (boxed_stream rest k r)) (\<lambda>r. snd (boxed_stream rest k r))"
proof (induction k)
  case 0
  show ?case
  proof (rule async_readerI, goal_cases)
    case (1 n s p s')
    then show ?case using boxed_body_read [of n D 0 _ p s' rest]
      by (cases s) (force split: poll.splits if_splits)+
  qed
next
  case (Suc k)
  let ?out = "stage_out (\<lambda>a (d, s). fst (rest a d (fst (boxed_stream rest k s))))"
  let ?fin = "stage_fin (\<lambda>a (d, s). decoder_error (rest a d (fst (boxed_stream rest k s))) (snd (boxed_stream rest k s)))
                  (\<lambda>(d, s). snd (boxed_stream rest k s))"
  have "decoder_law (D (boxed_read D k)) (\<lambda>a (d, s). fst (rest a d (fst (boxed_stream rest k s))))
      (\<lambda>a (d, s). decoder_error (rest a d (fst (boxed_stream rest k s))) (snd (boxed_stream rest k s)))
      (\<lambda>(d, s). snd (boxed_stream rest k s))"
    using assms Suc unfolding polled_decoders_law_def by blast
  note layer = size_limited_async [OF complete_read_async [OF this]]
  show ?case
  proof (rule async_readerI, goal_cases)
    case (1 n s p s')
    show ?case
    proof (cases s)
      case (BodyReader b)
      with 1 boxed_body_read [of n D "Suc k" b p s' rest] show ?thesis
        by (force split: poll.splits if_splits)
    next
      case (LayerReader t limit a complete d r)
      obtain l where l: "size_limited_read (complete_read (D (boxed_read D k))) n (layer_of t limit a complete d r) = (p, l)"
        and s': "s' = box_layer l" using 1(2) LayerReader by (auto split: prod.splits)
      from reader_cases [OF layer 1(1) l] show ?thesis
        unfolding s' boxed_stream_layer LayerReader by (cases p) (simp_all add: Let_def split: if_splits)
    qed
  qed
qed

section \<open>The layers as one stream\<close>

lemma add_layer_stream:
  assumes "polled_decoders_law D new rest dec"
  shows "boxed_stream rest (Suc k) (add_layer new limit a r) = limit_stage limit (decode_stage dec a (boxed_stream rest k r))"
proof -
  have new: "rest a (new a) bs = dec a bs" for bs using assms by (simp add: polled_decoders_law_def)
  obtain bs e where s: "boxed_stream rest k r = (bs, e)" by (cases "boxed_stream rest k r")
  obtain o' f where d: "dec a bs = (o', f)" by (cases "dec a bs")
  show ?thesis
    unfolding add_layer_def boxed_stream_layer
    by (cases f; cases e) (simp_all add: size_limited_new_def complete_new_def limited_out_def limited_fin_def stage_out_def
        stage_fin_def s d new decode_stage_def limit_stage_def decoder_error_def)
qed

lemma layers_stream:
  assumes "polled_decoders_law D new rest dec"
  shows "boxed_stream rest (length as + k) (fold (add_layer new limit) as r) =
    fold (\<lambda>a s. limit_stage limit (decode_stage dec a s)) as (boxed_stream rest k r)"
proof (induction as arbitrary: r k)
  case (Cons a as)
  from Cons.IH [of "Suc k" "add_layer new limit a r"] show ?case
    by (simp add: add_layer_stream [OF assms])
qed simp

text \<open>What the SDK has seen after some polls of the frames.\<close>

definition seen_of :: "byte_stream \<Rightarrow> bytes \<times> ending option \<Rightarrow> bool" where
  "seen_of s o' \<longleftrightarrow> (\<exists>rest. fst s = fst o' @ rest) \<and> (\<forall>x. snd o' = Some x \<longrightarrow> fst o' = fst s \<and> x = snd s)"

lemma poll_frames_seen:
  assumes "\<And>q p q'. next q = (p, q') \<Longrightarrow>
      (case p of
         ChunkReady bs \<Rightarrow> cout q = bs @ cout q' \<and> cfin q' = cfin q
       | ChunkError x \<Rightarrow> cout q = [] \<and> cfin q = Fail x
       | StreamDone \<Rightarrow> cout q = [] \<and> cfin q = Eof
       | StreamPending \<Rightarrow> cout q' = cout q \<and> cfin q' = cfin q)"
  shows "seen_of (cout q, cfin q) (poll_frames next m q)"
proof (induction m arbitrary: q)
  case (Suc m)
  obtain p q' where n: "next q = (p, q')" by (cases "next q")
  from assms [OF n] Suc.IH [of q'] n show ?case
    by (cases p) (auto simp: poll_frame_def seen_of_def split: prod.splits)
qed (simp add: seen_of_def)

section \<open>Correctness\<close>

text \<open>
  C17: the polled body refines the decompressed stream. The readers that are built on top of each
  other are refused exactly as the whole streams are. Otherwise, after any number of polls of the
  frames, over a gzip decoder, a zlib decoder and a chunk stream that keep the contracts of their
  libraries, the SDK has got a prefix of the decompressed stream, and once it is told that the
  body ended or failed, it has got all of it and the ending is that of the stream: no layer is
  dropped, swapped, cut short or left undrained by the way the readers call each other.
\<close>

theorem polled_body_refines:
  assumes decoders: "library_law G g rg dg" "library_law Z z rz dz"
    and chunks: "chunk_stream_law (boxed_read (\<lambda>rd. inner_api (G rd) (Z rd)) (length encodings)) start next"
  shows "case wrap_polled_body (inner_new g z) start body encodings max_layers max_bytes of
      Inl e \<Rightarrow> wrap_decompressed_body (inner_dec dg dz) body encodings max_layers max_bytes = Inl e
    | Inr q \<Rightarrow> \<exists>s. wrap_decompressed_body (inner_dec dg dz) body encodings max_layers max_bytes = Inr s
        \<and> (\<forall>m. seen_of s (poll_frames next m q))"
proof -
  note law = inner_polled_law [OF decoders]
  let ?k = "length encodings" and ?r = "fold (add_layer (inner_new g z) max_bytes) (rev encodings) (BodyReader body)"
  let ?s = "boxed_stream (inner_rest rg rz) ?k"
  note stream = chunks [unfolded chunk_stream_law_def, THEN spec, THEN spec, THEN mp, OF boxed_async [OF law]]
  obtain cout cfin where start: "\<forall>s. cout (start s) = fst (?s s) \<and> cfin (start s) = snd (?s s)"
    and step: "\<forall>q p q'. next q = (p, q') \<longrightarrow>
      (case p of
         ChunkReady bs \<Rightarrow> cout q = bs @ cout q' \<and> cfin q' = cfin q
       | ChunkError x \<Rightarrow> cout q = [] \<and> cfin q = Fail x
       | StreamDone \<Rightarrow> cout q = [] \<and> cfin q = Eof
       | StreamPending \<Rightarrow> cout q' = cout q \<and> cfin q' = cfin q)"
    using stream by blast
  have "seen_of (?s ?r) (poll_frames next m (start ?r))" for m
    using poll_frames_seen [of "next" cout cfin "start ?r" m] start step by simp
  then show ?thesis
    using layers_stream [OF law, of "rev encodings" 0 max_bytes "BodyReader body"]
    by (simp add: wrap_polled_body_def wrap_decompressed_body_def split: option.split)
qed

text \<open>
  An instance of the libraries: codings that add a number to each byte, and chunks of at most 4096
  bytes.
\<close>

definition shift_bytes :: "8 word \<Rightarrow> bytes \<Rightarrow> bytes \<times> decode_end" where
  "shift_bytes k bs = (map (\<lambda>b. b + k) bs, MemberComplete)"

definition shift_decoder :: "8 word \<Rightarrow> (nat \<Rightarrow> 's \<Rightarrow> poll \<times> 's) \<Rightarrow> (unit, 's) library_decoder" where
  "shift_decoder k rd =
     \<lparr>decode_poll = (\<lambda>n (d, s). case rd n s of
         (Ready [], s') \<Rightarrow> (Ready [], (d, s))
       | (Ready (b # bs), s') \<Rightarrow> (Ready (fst (shift_bytes k (b # bs))), (d, s'))
       | (p, s') \<Rightarrow> (p, (d, s'))),
      input_poll = (\<lambda>n (d, s). let (p, s') = rd n s in (p, (d, s')))\<rparr>"

definition next_chunk :: "(nat \<Rightarrow> 's \<Rightarrow> poll \<times> 's) \<Rightarrow> 's \<Rightarrow> stream_poll \<times> 's" where
  "next_chunk rd s =
     (case rd 4096 s of
        (Pending, s') \<Rightarrow> (StreamPending, s')
      | (Ready bs, s') \<Rightarrow> (if bs = [] then StreamDone else ChunkReady bs, s')
      | (Failed x, s') \<Rightarrow> (ChunkError x, s'))"

lemma shift_decoder_law: "library_law (shift_decoder k) () (\<lambda>d. shift_bytes k) (shift_bytes k)"
  unfolding library_law_def
proof (intro conjI allI impI)
  fix rd :: "nat \<Rightarrow> 's \<Rightarrow> poll \<times> 's" and out fin
  assume reader: "async_reader rd out fin"
  show "decoder_law \<lparr>poll_decode = (\<lambda>a. decode_poll (shift_decoder k rd)), poll_input = (\<lambda>a. input_poll (shift_decoder k rd))\<rparr>
      (\<lambda>a (d, s). fst (shift_bytes k (out s))) (\<lambda>a (d, s). decoder_error (shift_bytes k (out s)) (fin s)) (\<lambda>(d, s). fin s)"
    unfolding decoder_law_def
  proof (intro conjI allI impI, goal_cases)
    case (1 a n d p d')
    obtain q s' where q: "rd n (snd d) = (q, s')" by (cases "rd n (snd d)")
    from reader_cases [OF reader 1(1) q] 1(2) q show ?case
      by (cases q; cases d)
        (auto simp: shift_decoder_def shift_bytes_def decoder_error_def split: list.splits if_splits)
  next
    case (2 a n d p d')
    obtain q s' where q: "rd n (snd d) = (q, s')" by (cases "rd n (snd d)")
    from reader_cases [OF reader 2(1) q] 2(2) q show ?case
      by (cases q; cases d) (auto simp: shift_decoder_def split: if_splits)
  qed
qed simp

lemma next_chunk_law: "chunk_stream_law rd id (next_chunk rd)"
  unfolding chunk_stream_law_def
proof (intro allI impI, goal_cases)
  case (1 out fin)
  show ?case
  proof (intro exI [of _ out] exI [of _ fin] conjI allI impI, goal_cases)
    case (3 q p q')
    obtain x s where x: "rd 4096 q = (x, s)" by (cases "rd 4096 q")
    from reader_cases [OF 1 _ x] 3 x show ?case
      by (cases x) (auto simp: next_chunk_def split: if_splits)
  qed simp_all
qed

text \<open>Two layers; the second frame of the body is late.\<close>

theorem polled_body_refines_witness:
  "\<exists>q. wrap_polled_body (inner_new () ()) id ([DataFrame [1], NotReady, DataFrame [5]], Eof) [RGzip, RDeflate] 5 100 = Inr q
    \<and> poll_frames (next_chunk (boxed_read (\<lambda>rd. inner_api (shift_decoder 1 rd) (shift_decoder 2 rd)) 2)) 4 q = ([4, 8], Some Eof)
    \<and> wrap_decompressed_body (inner_dec (shift_bytes 1) (shift_bytes 2))
        ([DataFrame [1], NotReady, DataFrame [5]], Eof) [RGzip, RDeflate] 5 100 = Inr ([4, 8], Eof)"
proof -
  let ?body = "([DataFrame [1], NotReady, DataFrame [5]], Eof)"
  let ?q = "LayerReader 100 100 RGzip False (GzipDecoder ()) (LayerReader 100 100 RDeflate False (ZlibDecoder ()) (BodyReader ?body))"
  let ?read = "boxed_read (\<lambda>rd. inner_api (shift_decoder 1 rd) (shift_decoder 2 rd)) 2"
  have q: "wrap_polled_body (inner_new () ()) id ?body [RGzip, RDeflate] 5 100 = Inr ?q" by code_simp
  have polls: "poll_frames (next_chunk ?read) 4 ?q = ([4, 8], Some Eof)" by code_simp
  have "chunk_stream_law (boxed_read (\<lambda>rd. inner_api (shift_decoder 1 rd) (shift_decoder 2 rd)) (length [RGzip, RDeflate]))
      id (next_chunk ?read)"
    using next_chunk_law [of ?read] by (simp add: numeral_2_eq_2)
  from polled_body_refines [OF shift_decoder_law shift_decoder_law this, of ?body 5 100, unfolded q]
  obtain s where s: "wrap_decompressed_body (inner_dec (shift_bytes 1) (shift_bytes 2)) ?body [RGzip, RDeflate] 5 100 = Inr s"
    and "seen_of s (poll_frames (next_chunk ?read) 4 ?q)" by auto
  then have "s = ([4, 8], Eof)" unfolding polls by (cases s) (simp add: seen_of_def)
  with q polls s show ?thesis by blast
qed

end
