(* ===== verification/Discovery_Lease.thy ===== *)
theory Discovery_Lease
  imports Discovery_Manager Simulation
begin

text \<open>
  What the discovery manager promises, as a lease: at most one holder at a time, every grant goes
  to a holder that never held before, and nothing is granted once the lease is closed (a caller
  that comes too late uses up a number and takes the lease away). The
  manager's events, with their probes, rechecks, handoffs and aborted tasks, implement it.
\<close>

section \<open>The specification\<close>

record lease =
  holder :: "runtime_ref option"
  issued :: nat
  closed :: bool

inductive lease_step :: "lease \<Rightarrow> lease \<Rightarrow> bool" where
  grant: "\<not> closed l \<Longrightarrow> holder l = None \<Longrightarrow>
    lease_step l (l\<lparr>holder := Some (issued l), issued := Suc (issued l)\<rparr>)"
| refuse: "closed l \<Longrightarrow> lease_step l (l\<lparr>holder := None, issued := Suc (issued l)\<rparr>)"
| release: "holder l = Some r \<Longrightarrow> lease_step l (l\<lparr>holder := None\<rparr>)"
| close: "lease_step l (l\<lparr>closed := True\<rparr>)"

inductive_cases lease_stepE: "lease_step l l'"

definition lease_wf :: "lease \<Rightarrow> bool" where
  "lease_wf l \<longleftrightarrow> (\<forall>r. holder l = Some r \<longrightarrow> r < issued l)"

text \<open>The history of a lease, by induction on its steps.\<close>

lemma lease_history:
  assumes "rtranclp lease_step l l'" and "lease_wf l"
  shows "lease_wf l' \<and> issued l \<le> issued l' \<and> (closed l \<longrightarrow> closed l')
    \<and> (\<forall>r. holder l' = Some r \<longrightarrow> holder l = Some r \<or> issued l \<le> r \<and> \<not> closed l)"
  using assms
proof (induction rule: rtranclp_induct)
  case (step y z)
  from step.hyps(2) step.IH [OF step.prems] show ?case
    by (elim lease_stepE) (auto simp: lease_wf_def)
qed simp

section \<open>The simulation\<close>

definition lease_of :: "'u discovery_manager \<Rightarrow> lease" where
  "lease_of m = \<lparr>holder = discovery_runtime m, issued = next_runtime m, closed = is_stopped (m_tasks m)\<rparr>"

lemma lease_of_frame:
  "discovery_runtime m' = discovery_runtime m \<Longrightarrow> next_runtime m' = next_runtime m \<Longrightarrow>
   is_stopped (m_tasks m') = is_stopped (m_tasks m) \<Longrightarrow> lease_of m' = lease_of m"
  by (simp add: lease_of_def)

lemma lease_spawn:
  assumes "spawn_task w b m = (t, m')"
  shows "lease_of m' = lease_of m"
  using spawn_task_frame [OF assms] by (simp add: lease_of_def)

lemma lease_set [simp]: "lease_of (set_runtime ref r m) = lease_of m"
  by (simp add: lease_of_def set_runtime_def)

lemma lease_arrange: "lease_of (arrange_recheck rid ref m) = lease_of m"
proof -
  have flag: "lease_of (k\<lparr>unwrap_failed := True\<rparr>) = lease_of k" for k :: "'a discovery_manager"
    by (simp add: lease_of_def)
  show ?thesis
    by (auto simp: arrange_recheck_def Let_def flag lease_spawn split: option.split prod.split)
qed

lemma lease_retain: "lease_of (snd (retain_current rid now m)) = lease_of m"
  by (auto simp: retain_current_def retain_discovery_owner_def Let_def split_def lease_arrange
      split: option.split)

lemma lease_mark: "lease_of (mark_activity now m) = lease_of m"
  by (simp add: lease_of_def mark_activity_def Let_def)

lemma lease_start:
  assumes "\<not> is_stopped (m_tasks m)"
  shows "rtranclp lease_step (lease_of m) (lease_of (start_discovery rid now m))"
proof -
  let ?free = "(lease_of m)\<lparr>holder := None\<rparr>"
  have "rtranclp lease_step (lease_of m) ?free"
  proof (cases "discovery_runtime m")
    case None
    then have "?free = lease_of m" by (simp add: lease_of_def)
    then show ?thesis by simp
  next
    case (Some r)
    then show ?thesis by (intro r_into_rtranclp release) (simp add: lease_of_def)
  qed
  moreover have "lease_step ?free (?free\<lparr>holder := Some (issued ?free), issued := Suc (issued ?free)\<rparr>)"
    using assms by (intro grant) (simp_all add: lease_of_def)
  moreover have "lease_of (start_discovery rid now m) =
      ?free\<lparr>holder := Some (issued ?free), issued := Suc (issued ?free)\<rparr>"
    using assms by (simp add: lease_of_def start_discovery_open Let_def is_stopped_def)
  ultimately show ?thesis by simp
qed

lemma lease_locked: "rtranclp lease_step (lease_of m) (lease_of (ensure_locked rid now m))"
proof -
  let ?m = "snd (retain_current rid now m)"
  have "rtranclp lease_step (lease_of ?m) (lease_of (start_discovery rid now ?m))"
  proof (cases "is_stopped (m_tasks ?m)")
    case True
    then have "lease_of (start_discovery rid now ?m)
        = (lease_of ?m)\<lparr>holder := None, issued := Suc (issued (lease_of ?m))\<rparr>"
      by (simp add: lease_of_def start_discovery_stopped Let_def mark_activity_def)
    moreover have "closed (lease_of ?m)" using True by (simp add: lease_of_def)
    ultimately show ?thesis using refuse [of "lease_of ?m"] by simp
  qed (rule lease_start)
  then show ?thesis by (simp add: ensure_locked_def Let_def split_def lease_retain)
qed

lemma lease_ensure: "rtranclp lease_step (lease_of m) (lease_of (ensure_discovery_started rt now m))"
proof -
  have "rtranclp lease_step (lease_of m) (lease_of (ensure_locked rid now (snd (retain_current rid now m))))" for rid
    using lease_locked [of "snd (retain_current rid now m)" rid now] by (simp add: lease_retain)
  then show ?thesis
    by (auto simp: ensure_discovery_started_def Let_def split_def lease_retain split: option.split)
qed

lemma lease_guard: "rtranclp lease_step (lease_of m) (lease_of (guard_drop ref m))"
proof (cases "discovery_runtime m = Some ref")
  case True
  then have "lease_of (guard_drop ref m) = (lease_of m)\<lparr>holder := None\<rparr>"
    by (simp add: lease_of_def guard_drop_def set_runtime_def Let_def)
  moreover have "holder (lease_of m) = Some ref" using True by (simp add: lease_of_def)
  ultimately show ?thesis using release [of "lease_of m" ref] by simp
next
  case False
  then have "lease_of (guard_drop ref m) = lease_of m"
    by (simp add: lease_of_def guard_drop_def set_runtime_def Let_def)
  then show ?thesis by simp
qed

lemma lease_drop [simp]: "lease_of (drop_tracked t m) = lease_of m"
  by (simp add: lease_of_def drop_tracked_def drop_task_def is_stopped_def)

lemma lease_affinity: "lease_of (start_affinity_refresh outs ref st m) = lease_of m"
proof -
  have "lease_of (k\<lparr>affinity_task := t\<rparr>) = lease_of k" for t and k :: "'a discovery_manager"
    by (simp add: lease_of_def)
  then show ?thesis
    by (auto simp: start_affinity_refresh_def lease_spawn split: option.split prod.split)
qed

lemma lease_polled: "lease_of (mgr_step m (OwnerPolled ref)) = lease_of m"
  by (simp add: lease_of_def abort_task_def set_runtime_def split_def Let_def)

lemma lease_stop: "lease_of (mgr_step m StopTasks) = (lease_of m)\<lparr>closed := True\<rparr>"
  by (simp add: lease_of_def stop_def is_stopped_def)

lemma lease_simulates: "rtranclp lease_step (lease_of m) (lease_of (mgr_step m e))"
proof (cases e)
  case StopTasks
  then show ?thesis using close [of "lease_of m"] by (simp add: lease_stop del: mgr_step.simps)
next
  case (OwnerPolled ref)
  then show ?thesis by (simp add: lease_polled del: mgr_step.simps)
qed (auto simp: lease_ensure lease_locked lease_arrange lease_mark lease_guard lease_affinity run_recheck_def
    split: option.split task_body.split)

interpretation manager_lease: simulation mgr_step mgr_inv lease_of lease_step
  by unfold_locales (auto intro: mgr_inv_step lease_simulates simp del: mgr_step.simps)

section \<open>Correctness\<close>

text \<open>
  C13: discovery ownership is a lease. From the free lease of a new client on, whatever events
  happen and at whatever point they are cut, the registered owner, the count of runtime numbers
  handed out and the client's stop move only by the four steps of the specification: a grant of a
  free, open lease to a fresh owner, a release, closing, and, once closed, a refusal, by which a
  caller that comes too late uses up a number and takes the lease from whoever still holds it
  without becoming its holder. So after the stop nobody acquires discovery any more.
\<close>

theorem manager_refines_lease:
  "lease_of (new_manager inp active idle start) = \<lparr>holder = None, issued = 0, closed = False\<rparr>
   \<and> rtranclp lease_step (lease_of (foldl mgr_step (new_manager inp active idle start) es))
       (lease_of (foldl mgr_step (new_manager inp active idle start) (es @ fs)))"
proof -
  have "mgr_inv (foldl mgr_step (new_manager inp active idle start) es)"
    by (rule manager_lease.inv_run [OF mgr_inv_new])
  from manager_lease.refines [OF this, of fs] show ?thesis
    by (simp add: lease_of_def new_manager_def new_tasks_def is_stopped_def)
qed

text \<open>
  C31: ownership is never given back. An owner that lost discovery (its loop ended, or another
  runtime took over) is never registered again, and after the client's stop no owner is
  registered that was not registered at the stop, whatever happens later.
\<close>

theorem replaced_owner_never_returns:
  assumes "m = foldl mgr_step (new_manager inp active idle start) es"
    and "m' = foldl mgr_step m fs" and "m'' = foldl mgr_step m' gs"
  shows "(discovery_runtime m = Some ref \<longrightarrow> discovery_runtime m' \<noteq> Some ref \<longrightarrow> discovery_runtime m'' \<noteq> Some ref)
    \<and> (is_stopped (m_tasks m) \<longrightarrow> discovery_runtime m' = None \<or> discovery_runtime m' = discovery_runtime m)"
proof -
  have inv: "mgr_inv m" "mgr_inv m'" using manager_lease.inv_run mgr_inv_new assms by blast+
  have "lease_wf (lease_of (new_manager inp active idle start))"
    by (simp add: lease_wf_def lease_of_def new_manager_def)
  then have wf: "lease_wf (lease_of m)"
    using lease_history [OF manager_lease.refines [OF mgr_inv_new]] assms(1) by blast
  have h1: "lease_wf (lease_of m')" "issued (lease_of m) \<le> issued (lease_of m')"
    "holder (lease_of m') = Some r \<Longrightarrow> holder (lease_of m) = Some r \<or> \<not> closed (lease_of m)" for r
    using lease_history [OF manager_lease.refines [OF inv(1), of fs] wf] unfolding assms(2) by blast+
  have h2: "holder (lease_of m'') = Some r \<Longrightarrow> holder (lease_of m') = Some r \<or> issued (lease_of m') \<le> r" for r
    using lease_history [OF manager_lease.refines [OF inv(2), of gs] h1(1)] unfolding assms(3) by blast
  have "holder (lease_of m) = Some ref \<Longrightarrow> ref < issued (lease_of m')"
    using wf h1(2) by (auto simp: lease_wf_def)
  then show ?thesis
    using h1(3) h2 [of ref] by (cases "discovery_runtime m'") (auto simp: lease_of_def)
qed

text \<open>A client on runtime 1 whose owner stalls; runtime 2 takes over, and runtime 1 asks again.\<close>

theorem replaced_owner_never_returns_witness:
  "let m' = foldl mgr_step demo_manager [LoopEnds 0, Ensure (Some 2) 1]
   in discovery_runtime demo_manager = Some 0 \<and> discovery_runtime m' = Some 1
    \<and> discovery_runtime (foldl mgr_step m' [Ensure (Some 1) (secs 5), LoopEnds 1, Ensure (Some 1) (secs 6)]) \<noteq> Some 0"
proof -
  let ?m' = "foldl mgr_step demo_manager [LoopEnds 0, Ensure (Some 2) 1]"
  note d = demo_manager_def ensure_discovery_started_def ensure_locked_def retain_current_def new_manager_def Let_def
    start_discovery_def abort_task_def set_runtime_def mark_activity_def spawn_task_def spawn_def
    new_tasks_def is_stopped_def runtime_new_def is_finished_def drop_tracked_def drop_task_def
    guard_drop_def runtime_stop_def
  have "discovery_runtime demo_manager = Some 0" "discovery_runtime ?m' = Some 1"
    by (simp_all add: d)
  moreover have start: "\<exists>inp. demo_manager = foldl mgr_step (new_manager inp 1 2 0) [Ensure (Some 1) 0]"
    by (auto simp: demo_manager_def)
  then obtain inp where "demo_manager = foldl mgr_step (new_manager inp 1 2 0) [Ensure (Some 1) 0]" ..
  note lost = conjunct1 [OF replaced_owner_never_returns [OF this refl refl, of 0 "[LoopEnds 0, Ensure (Some 2) 1]"]]
  ultimately show ?thesis using lost [rule_format] unfolding Let_def by (metis n_not_Suc_n One_nat_def option.inject)
qed

end
