(* ===== verification/Discovery_Pacing.thy ===== *)
theory Discovery_Pacing
  imports Discovery_Manager
begin

text \<open>
  The pace of the discovery loop of \<^verbatim>\<open>src/src/live_nodes.rs\<close>: it pauses for the idle interval when
  no access came for that long, and an access wakes it. The theorems say when a client in use is
  refreshed again, and the window in which an access does not wake the loop.
\<close>

section \<open>What can set the activity\<close>

text \<open>The clock an event reads before it records activity.\<close>

fun activity_time :: "'u mgr_event \<Rightarrow> instant option" where
  "activity_time (Ensure rt now) = Some now"
| "activity_time (EnsureLocked rid now) = Some now"
| "activity_time (MarkActivity now) = Some now"
| "activity_time (RecheckFires t now) = Some now"
| "activity_time _ = None"

definition intervals :: "'u discovery_manager \<Rightarrow> duration \<times> duration" where
  "intervals m = (m_active_interval m, m_idle_interval m)"

text \<open>
  The loop has its permit, or the activity is still the one of \<open>seen\<close>. With \<open>None\<close> it has its
  permit.
\<close>

definition rested :: "duration \<times> duration \<Rightarrow> instant option \<Rightarrow> 'u discovery_manager \<Rightarrow> bool" where
  "rested iv seen m \<longleftrightarrow> intervals m = iv \<and> (notify m \<or> seen = Some (last_activity m))"

definition beyond :: "duration \<times> duration \<Rightarrow> instant option \<Rightarrow> instant \<Rightarrow> bool" where
  "beyond iv seen now \<longleftrightarrow> (\<forall>t. seen = Some t \<longrightarrow> t + snd iv < now)"

lemma rested_frame:
  "intervals m' = intervals m \<Longrightarrow> notify m' = notify m \<Longrightarrow> last_activity m' = last_activity m \<Longrightarrow>
   rested iv seen m' = rested iv seen m"
  by (simp add: rested_def)

lemma spawn_pace:
  "spawn_task w b m = (t, m') \<Longrightarrow>
   intervals m' = intervals m \<and> notify m' = notify m \<and> last_activity m' = last_activity m"
  by (auto simp: spawn_task_def intervals_def split: prod.splits option.splits)

lemma rested_update [simp]:
  "rested iv seen (m\<lparr>m_tasks := ts\<rparr>) = rested iv seen m"
  "rested iv seen (m\<lparr>affinity_task := t\<rparr>) = rested iv seen m"
  "rested iv seen (m\<lparr>aborted := ab\<rparr>) = rested iv seen m"
  "rested iv seen (m\<lparr>runtimes := rs\<rparr>) = rested iv seen m"
  "rested iv seen (m\<lparr>discovery_runtime := r\<rparr>) = rested iv seen m"
  by (simp_all add: rested_def intervals_def)

lemma rested_spawn: "spawn_task w b m = (t, m') \<Longrightarrow> rested iv seen m' = rested iv seen m"
  by (rule rested_frame) (simp_all add: spawn_pace)

lemma arrange_pace:
  "intervals (arrange_recheck rid ref m) = intervals m"
  "notify (arrange_recheck rid ref m) = notify m"
  "last_activity (arrange_recheck rid ref m) = last_activity m"
  by (auto simp: arrange_recheck_def set_runtime_def Let_def intervals_def
      dest!: spawn_pace split: option.split prod.split)

lemma retain_pace:
  "intervals (snd (retain_current rid now m)) = intervals m"
  "notify (snd (retain_current rid now m)) = notify m"
  "last_activity (snd (retain_current rid now m)) = last_activity m"
  by (auto simp: retain_current_def retain_discovery_owner_def Let_def split_def arrange_pace
      split: option.split) (simp_all add: set_runtime_def intervals_def)

lemma rested_mark:
  assumes "rested iv seen m" and "beyond iv seen now"
  shows "rested iv None (mark_activity now m)"
  using assms by (auto simp: rested_def beyond_def intervals_def mark_activity_def Let_def)

lemma rested_None: "rested iv None m \<Longrightarrow> rested iv seen m"
  by (simp add: rested_def)

lemma rested_start:
  assumes "rested iv seen m" and "beyond iv seen now"
  shows "rested iv seen (start_discovery rid now m)"
proof -
  have "notify (start_discovery rid now m) = notify (mark_activity now m)
      \<and> last_activity (start_discovery rid now m) = last_activity (mark_activity now m)
      \<and> intervals (start_discovery rid now m) = intervals (mark_activity now m)"
    by (auto simp: start_discovery_def Let_def abort_task_def set_runtime_def mark_activity_def
        guard_drop_def intervals_def dest!: spawn_pace split: prod.split)
  then have "rested iv seen (start_discovery rid now m) = rested iv seen (mark_activity now m)"
    by (intro rested_frame) auto
  with rested_mark [OF assms] show ?thesis by (simp add: rested_None)
qed

lemma rested_arrange: "rested iv seen (arrange_recheck rid ref m) = rested iv seen m"
  by (rule rested_frame) (simp_all add: arrange_pace)

lemma rested_retain: "rested iv seen (snd (retain_current rid now m)) = rested iv seen m"
  by (rule rested_frame) (simp_all add: retain_pace)

lemma rested_locked:
  assumes "rested iv seen m" and "beyond iv seen now"
  shows "rested iv seen (ensure_locked rid now m)"
  using assms by (auto simp: ensure_locked_def Let_def split_def rested_retain intro!: rested_start)

lemma rested_ensure:
  assumes "rested iv seen m" and "beyond iv seen now"
  shows "rested iv seen (ensure_discovery_started rt now m)"
  using assms by (auto simp: ensure_discovery_started_def Let_def split_def rested_retain
      split: option.split intro!: rested_locked)

lemma rested_step:
  assumes "rested iv seen m" and "\<And>now. activity_time e = Some now \<Longrightarrow> beyond iv seen now"
  shows "rested iv seen (mgr_step m e)"
proof (cases e)
  case (MarkActivity now)
  then show ?thesis using assms rested_mark [OF assms(1), of now] by (simp add: rested_None)
next
  case (AffinityRefresh outs ref st)
  then show ?thesis using assms(1)
    by (auto simp: start_affinity_refresh_def rested_spawn split: option.split prod.split)
qed (use assms in \<open>auto simp: rested_ensure rested_locked rested_arrange run_recheck_def abort_task_def set_runtime_def
    drop_tracked_def guard_drop_def Let_def split: option.split task_body.split prod.split\<close>)

lemma rested_run:
  assumes "rested iv seen m" and "\<And>e now. e \<in> set es \<Longrightarrow> activity_time e = Some now \<Longrightarrow> beyond iv seen now"
  shows "rested iv seen (foldl mgr_step m es)"
  using assms by (induction es arbitrary: m) (auto intro: rested_step)

text \<open>After an access beyond the idle interval the loop has its permit.\<close>

lemma access_notifies:
  assumes "rested iv seen m" and "\<And>e now. e \<in> set es \<Longrightarrow> activity_time e = Some now \<Longrightarrow> beyond iv seen now"
    and "MarkActivity now \<in> set es"
  shows "notify (foldl mgr_step m es)"
proof -
  obtain xs ys where es: "es = xs @ MarkActivity now # ys" using assms(3) by (meson split_list)
  have "rested iv seen (foldl mgr_step m xs)" using assms(1,2) es by (intro rested_run) auto
  then have "rested iv None (mark_activity now (foldl mgr_step m xs))"
    using assms(2) [of "MarkActivity now" now] es by (auto intro: rested_mark)
  then have "rested iv None (foldl mgr_step m es)"
    unfolding es by (auto intro: rested_run simp: beyond_def)
  then show ?thesis by (simp add: rested_def)
qed

section \<open>Correctness\<close>

text \<open>
  C14: a client in use is refreshed. When a refresh ended at time \<open>start\<close> with the permit unused
  or not, and later, in any interleaving of the manager's events, an access is recorded, then the
  pause of the loop is over at once if it was the idle one, and in every case no later than the
  active interval after its start.
\<close>

theorem busy_client_refreshes:
  assumes "loop_iteration U net shuf ref start st = Some (Some interval, st')"
    and "manager st' = Some m" and "last_activity m \<le> start"
    and "\<forall>e \<in> set es. \<forall>t. activity_time e = Some t \<longrightarrow> start < t"
    and "MarkActivity now \<in> set es"
    and "interval \<noteq> m_active_interval m \<or> start + m_active_interval m \<le> later"
  shows "loop_sleep first interval start later (foldl mgr_step m es) \<noteq> None"
proof -
  have interval: "interval = refresh_interval (last_activity m) start m"
    using assms(1,2) by (auto simp: loop_iteration_def Let_def split: option.splits)
  show ?thesis
  proof (cases "m_idle_interval m \<le> start - last_activity m")
    case True
    have "beyond (intervals m) (Some (last_activity m)) t" if "start < t" for t
      using True that assms(3) by (auto simp: beyond_def intervals_def)
    then have "notify (foldl mgr_step m es)"
      using assms(4,5) by (intro access_notifies [of "intervals m" "Some (last_activity m)"]) (auto simp: rested_def)
    then show ?thesis by (simp add: loop_sleep_def Let_def)
  next
    case False
    with interval have "interval = m_active_interval m" by (simp add: refresh_interval_def)
    with assms(6) show ?thesis by (auto simp: loop_sleep_def Let_def)
  qed
qed

text \<open>A view without candidates and an owner that was last used 60 seconds ago.\<close>

theorem busy_client_refreshes_witness:
  "\<exists>st' m. loop_iteration text_url (\<lambda>n u. None) (\<lambda>n xs. xs) 0 (secs 60)
      \<lparr>ordinary_view = view_new from_cluster [], affinity_nodes = None,
       manager = Some (new_manager \<lparr>inputs_timeout = None, seed_urls = [], alternator_scheme = ''http'',
         inputs_port = None, discovery_client = Smithy (UserHttpClient 0) None None,
         native_roots_usable = False\<rparr> (secs 1) (secs 60) 0)\<rparr> = Some (Some (secs 60), st')
    \<and> manager st' = Some m
    \<and> loop_sleep True (secs 60) (secs 60) (secs 61) (foldl mgr_step m [Ensure None (secs 61), MarkActivity (secs 61)]) \<noteq> None"
proof -
  let ?m = "new_manager \<lparr>inputs_timeout = None, seed_urls = [] :: string list, alternator_scheme = ''http'',
      inputs_port = None, discovery_client = Smithy (UserHttpClient 0) None None,
      native_roots_usable = False\<rparr> (secs 1) (secs 60) 0"
  let ?st = "\<lparr>ordinary_view = view_new from_cluster [], affinity_nodes = None, manager = Some ?m\<rparr>"
  obtain outs v where "update_live_nodes text_url (\<lambda>n u. None) (\<lambda>n xs. xs) (ordinary_view ?st) ?m = Some (outs, v)"
    by (auto simp: update_live_nodes_def update_live_nodes_from_def begin_refresh_def view_new_def Let_def)
      (metis prod.collapse)
  then have it: "loop_iteration text_url (\<lambda>n u. None) (\<lambda>n xs. xs) 0 (secs 60) ?st
      = Some (Some (secs 60), ?st\<lparr>ordinary_view := v\<rparr>)"
    by (simp add: loop_iteration_def start_affinity_refresh_def refresh_interval_def new_manager_def)
  have "secs 60 \<noteq> m_active_interval ?m" "last_activity ?m \<le> secs 60"
    by (simp_all add: new_manager_def secs_def)
  with busy_client_refreshes [OF it, of ?m "[Ensure None (secs 61), MarkActivity (secs 61)]" "secs 61" "secs 61" True]
  show ?thesis using it by (auto simp: secs_def simp del: foldl.simps)
qed

text \<open>
  C32: the window in which an access does not wake the loop. The loop copies \<^verbatim>\<open>last_activity\<close> and
  reads the clock afterwards. An access between the two, just within the idle interval, sets no
  permit, the loop still takes the idle pause, and further accesses during the next idle interval
  do not end that pause: the client is in use and is refreshed at the idle pace.
\<close>

theorem missed_wakeup:
  fixes m :: "'u discovery_manager"
  defines "idle \<equiv> m_idle_interval m"
  assumes "\<not> notify m" and "last_activity m \<le> t" and "t \<le> last_activity m + idle"
    and "last_activity m + idle \<le> start"
    and "sorted (t # ts)" and "\<forall>u \<in> set ts. u \<le> t + idle" and "later < start + idle"
  shows "refresh_interval (last_activity m) start (mark_activity t m) = idle
    \<and> loop_sleep first idle start later (foldl (\<lambda>k u. mark_activity u k) m (t # ts)) = None"
proof -
  have quiet: "\<not> notify (foldl (\<lambda>k u. mark_activity u k) k us)"
    if "\<not> notify k" "m_idle_interval k = idle" "s \<le> last_activity k" "sorted (last_activity k # us)"
      "\<forall>u \<in> set us. u \<le> s + idle" for s us and k :: "'u discovery_manager"
    using that by (induction us arbitrary: k) (auto simp: mark_activity_def Let_def)
  have first: "\<not> notify (mark_activity t m)" "m_idle_interval (mark_activity t m) = idle"
    "last_activity (mark_activity t m) = t"
    using assms by (auto simp: mark_activity_def Let_def)
  have "\<not> notify (foldl (\<lambda>k u. mark_activity u k) (mark_activity t m) ts)"
    using quiet [of "mark_activity t m" t ts] first assms(6,7) by simp
  moreover have "refresh_interval (last_activity m) start (mark_activity t m) = idle"
    using assms(5) first(2) by (auto simp: refresh_interval_def)
  ultimately show ?thesis using assms(8) by (simp add: loop_sleep_def Let_def)
qed

text \<open>Idle interval 60 s, last used at 0, accesses at 60, 61 and 119 s.\<close>

theorem missed_wakeup_witness:
  "loop_sleep True (secs 60) (secs 60) (secs 119)
     (foldl (\<lambda>k u. mark_activity u k) (demo_manager\<lparr>m_idle_interval := secs 60\<rparr>) [secs 60, secs 61, secs 119]) = None"
proof -
  let ?m = "demo_manager\<lparr>m_idle_interval := secs 60\<rparr>"
  have "\<not> notify ?m" "last_activity ?m = 0"
    by (simp_all add: demo_manager_def ensure_discovery_started_def ensure_locked_def retain_current_def new_manager_def Let_def
        start_discovery_def abort_task_def set_runtime_def mark_activity_def spawn_task_def spawn_def
        new_tasks_def is_stopped_def)
  with missed_wakeup [of ?m "secs 60" "secs 60" "[secs 61, secs 119]" "secs 119" True] show ?thesis
    by (simp add: secs_def)
qed

end
