(* ===== verification/Resolver_Flight.thy ===== *)
theory Resolver_Flight
  imports Resolver Simulation
begin

text \<open>
  What the partition key resolver promises, as a cache with single flights: a name that is known
  stays, at most one question per table is under way, only for tables whose name is unknown, and
  no question is asked after the close. Failures, cooldowns, retries and the task registry
  implement it.
\<close>

section \<open>The specification\<close>

record flights =
  known :: "string \<rightharpoonup> string"
  flying :: "string set"
  shut :: bool

inductive flight_step :: "flights \<Rightarrow> flights \<Rightarrow> bool" where
  ask: "\<not> shut f \<Longrightarrow> known f table = None \<Longrightarrow> table \<notin> flying f \<Longrightarrow>
    flight_step f (f\<lparr>flying := insert table (flying f)\<rparr>)"
| learn: "table \<in> flying f \<Longrightarrow> known f table = None \<Longrightarrow>
    flight_step f (f\<lparr>known := (known f)(table \<mapsto> name), flying := flying f - {table}\<rparr>)"
| give_up: "table \<in> flying f \<Longrightarrow> flight_step f (f\<lparr>flying := flying f - {table}\<rparr>)"
| shut_down: "flight_step f (f\<lparr>shut := True\<rparr>)"

inductive_cases flight_stepE: "flight_step f f'"

text \<open>The history of the flights, by induction on the steps.\<close>

lemma flight_history:
  assumes "rtranclp flight_step f f'"
  shows "known f \<subseteq>\<^sub>m known f' \<and> (shut f \<longrightarrow> shut f' \<and> flying f' \<subseteq> flying f)
    \<and> (\<forall>table \<in> dom (known f') - dom (known f). table \<in> flying f \<or> \<not> shut f)"
  using assms
proof (induction rule: rtranclp_induct)
  case (step y z)
  from step.hyps(2) step.IH show ?case
    by (elim flight_stepE) (auto simp: map_le_def dom_def)
qed simp

section \<open>The simulation\<close>

definition flights_of :: "partition_key_resolver \<Rightarrow> flights" where
  "flights_of r = \<lparr>known = cache r, flying = in_progress r, shut = is_stopped (r_tasks r)\<rparr>"

lemma flight_started:
  assumes "\<not> is_stopped (r_tasks r)" and "cache r table = None" and "table \<notin> in_progress r"
  shows "rtranclp flight_step (flights_of r) (flights_of (started w table r))"
proof -
  have "flights_of (started w table r) = (flights_of r)\<lparr>flying := insert table (flying (flights_of r))\<rparr>"
    by (simp add: started_def flights_of_def is_stopped_def)
  moreover have "flight_step (flights_of r) ((flights_of r)\<lparr>flying := insert table (flying (flights_of r))\<rparr>)"
    using assms by (intro ask) (simp_all add: flights_of_def)
  ultimately show ?thesis by simp
qed

lemma flight_claim: "rtranclp flight_step (flights_of r) (flights_of (claim_discovery w table r))"
  using flight_started [of r table w] by (auto simp: claim_eq) (simp add: flights_of_def)

lemma flight_trigger:
  "rtranclp flight_step (flights_of r) (flights_of (trigger_discovery rt now table r))"
  using flight_started [of r table "the rt"] by (simp add: trigger_eq may_start_def)

lemma task_flying:
  assumes "resolver_inv r" and "task_table r t = Some table"
  shows "table \<in> in_progress r" "cache r table = None"
proof -
  have "table \<in> ran (task_table r)" using assms(2) by (rule ranI)
  then show "table \<in> in_progress r" "cache r table = None"
    using assms(1) by (auto simp: resolver_inv_def)
qed

lemma flight_end:
  assumes "resolver_inv r"
  shows "rtranclp flight_step (flights_of r) (flights_of (end_task t r))"
proof (cases "task_table r t")
  case (Some table)
  then have "flights_of (end_task t r) = (flights_of r)\<lparr>flying := flying (flights_of r) - {table}\<rparr>"
    by (simp add: end_task_def flights_of_def is_stopped_def drop_task_def)
  with give_up [of table "flights_of r"] task_flying(1) [OF assms Some] show ?thesis
    by (simp add: flights_of_def)
qed (simp add: end_task_def)

lemma flight_run:
  assumes "resolver_inv r"
  shows "rtranclp flight_step (flights_of r) (flights_of (run_task w t r))"
proof (cases "task_table r t")
  case (Some table)
  let ?d = "snd (discover_with_retry w table r)"
  note f = discover_frame [of w table r]
  have run: "run_task w t r = end_task t ?d" using Some by (simp add: run_task_def)
  from f(4) show ?thesis
  proof
    assume "cache ?d = cache r"
    then have "flights_of (run_task w t r) = flights_of (end_task t r)"
      using Some f by (simp add: run end_task_def flights_of_def)
    with flight_end [OF assms] show ?thesis by simp
  next
    assume "\<exists>pk. cache ?d = (cache r)(table \<mapsto> pk)"
    then obtain pk where "cache ?d = (cache r)(table \<mapsto> pk)" ..
    then have "flights_of (run_task w t r) = (flights_of r)\<lparr>known := (known (flights_of r))(table \<mapsto> pk),
        flying := flying (flights_of r) - {table}\<rparr>"
      using Some f by (simp add: run end_task_def flights_of_def is_stopped_def drop_task_def)
    with learn [of table "flights_of r" pk] task_flying [OF assms Some] show ?thesis
      by (simp add: flights_of_def)
  qed
qed (simp add: run_task_def)

lemma flight_simulates:
  assumes "resolver_inv r"
  shows "rtranclp flight_step (flights_of r) (flights_of (resolver_step r e))"
proof (cases e)
  case StopResolver
  then have "flights_of (resolver_step r e) = (flights_of r)\<lparr>shut := True\<rparr>"
    by (simp add: flights_of_def stop_def is_stopped_def)
  with shut_down [of "flights_of r"] show ?thesis by simp
qed (simp_all add: flight_trigger flight_claim flight_run [OF assms] flight_end [OF assms])

interpretation resolver_flights: simulation resolver_step resolver_inv flights_of flight_step
  by unfold_locales (simp_all add: resolver_step_inv flight_simulates)

section \<open>Correctness\<close>

text \<open>
  C15: the resolver implements the cache with single flights. From the configured names on, every
  interleaving of triggers, discoveries, their ends and the stop moves the known names, the tables
  under discovery and the stop only by steps of the specification.
\<close>

theorem resolver_refines_flights:
  "flights_of (new_with_timeout pk_info timeout) = \<lparr>known = pk_info, flying = {}, shut = False\<rparr>
   \<and> rtranclp flight_step (flights_of (foldl resolver_step (new_with_timeout pk_info timeout) es))
       (flights_of (foldl resolver_step (new_with_timeout pk_info timeout) (es @ fs)))"
proof -
  have "resolver_inv (foldl resolver_step (new_with_timeout pk_info timeout) es)"
    by (rule resolver_flights.inv_run [OF resolver_inv_new])
  from resolver_flights.refines [OF this, of fs] show ?thesis
    by (simp add: flights_of_def new_with_timeout_def new_tasks_def is_stopped_def)
qed

text \<open>
  what a stop means to the resolver. Once the client is stopped no table comes under discovery,
  and a name that is learned afterwards answers a question that was under way at the stop; names
  known before stay as they are.
\<close>

theorem stopped_resolver_quiet:
  assumes "r = foldl resolver_step (new_with_timeout pk_info timeout) es"
    and "r' = foldl resolver_step (resolver_step r StopResolver) fs"
  shows "in_progress r' \<subseteq> in_progress r \<and> cache r \<subseteq>\<^sub>m cache r'
    \<and> dom (cache r') \<subseteq> dom (cache r) \<union> in_progress r"
proof -
  have "resolver_inv (resolver_step r StopResolver)"
    using resolver_flights.inv_run [OF resolver_inv_new, of pk_info timeout es] resolver_step_inv assms(1) by blast
  from flight_history [OF resolver_flights.refines [OF this, of fs]] show ?thesis
    unfolding assms(2) by (auto simp: flights_of_def is_stopped_def stop_def dom_def)
qed

theorem stopped_resolver_quiet_witness:
  "let r = foldl resolver_step (new_with_timeout [''a'' \<mapsto> ''k''] None) [Trigger (Some 1) 0 ''t''];
       r' = foldl resolver_step (resolver_step r StopResolver) [Trigger (Some 1) 1 ''u'', EndTask 0]
   in in_progress r = {''t''} \<and> in_progress r' \<subseteq> {''t''} \<and> cache r' ''u'' = None"
proof -
  let ?r = "foldl resolver_step (new_with_timeout [''a'' \<mapsto> ''k''] None) [Trigger (Some 1) 0 ''t'']"
  have r: "in_progress ?r = {''t''}" "dom (cache ?r) = {''a''}"
    by (simp_all add: trigger_discovery_def claim_discovery_def new_with_timeout_def new_tasks_def spawn_def is_stopped_def)
  let ?r' = "foldl resolver_step (resolver_step ?r StopResolver) [Trigger (Some 1) 1 ''u'', EndTask 0]"
  from stopped_resolver_quiet [OF refl refl, of "[''a'' \<mapsto> ''k'']" None "[Trigger (Some 1) 0 ''t'']" "[Trigger (Some 1) 1 ''u'', EndTask 0]"]
  have s: "in_progress ?r' \<subseteq> {''t''}" "dom (cache ?r') \<subseteq> {''a''} \<union> {''t''}" unfolding r by blast+
  then have "''u'' \<notin> dom (cache ?r')" by auto
  then have "cache ?r' ''u'' = None" unfolding domIff by blast
  with r(1) s(1) show ?thesis unfolding Let_def by blast
qed

end
