(* ===== verification/Spec2Isabelle.thy ===== *)
theory Spec2Isabelle
  imports Affinity_Agreement Response_Integrity Body_Polls Discovery_Lease Discovery_Pacing Resolver_Flight
begin

text \<open>
  A model of the Alternator driver for Rust (crate \<^verbatim>\<open>alternator_driver\<close>), a load balancing layer
  over the AWS DynamoDB SDK for ScyllaDB's DynamoDB-compatible API.

  \<^bold>\<open>The program.\<close> A client (\<^verbatim>\<open>src/client.rs\<close>) is built from a configuration (\<^verbatim>\<open>src/config.rs\<close>)
  that holds the SDK's own settings and the driver's. Construction validates it, sets up the live
  nodes (\<^verbatim>\<open>src/live_nodes.rs\<close>) from the seed hosts, puts the driver's interceptors
  (\<^verbatim>\<open>src/interceptors.rs\<close>) into the SDK client, and starts discovery. A background loop asks nodes
  for \<^verbatim>\<open>/localnodes\<close> along the fallback chain of the routing scope (\<^verbatim>\<open>src/routing_scope.rs\<close>) and
  publishes the membership. Every request gets a query plan (\<^verbatim>\<open>src/query_plan.rs\<close>): round robin over
  the membership, or, with key route affinity (\<^verbatim>\<open>src/keyrouting\<close>), an order that only depends on
  the hash of its partition key; each attempt takes the next node and rewrites the URI before the
  request is signed. Further hooks compress the body, strip headers, set the user agent and decode
  the response. The task registries (\<^verbatim>\<open>src/discovery.rs\<close>) make shutdown final.

  \<^bold>\<open>Theories and code.\<close>
  \<^item> \<^verbatim>\<open>Prelude\<close>: machine types, byte strings, the string and vector functions of the Rust standard
    library that the code calls, and lemmas that the components share.
  \<^item> \<^verbatim>\<open>Routing_Scope\<close> (\<^verbatim>\<open>routing_scope.rs\<close>): scopes as chains; the loop of \<^verbatim>\<open>without_rack\<close> against
    its specification on the list of queries.
  \<^item> \<^verbatim>\<open>Deterministic_Rng\<close> (\<^verbatim>\<open>keyrouting/deterministic_rng.rs\<close>): 64-bit words with wrap-around.
  \<^item> \<^verbatim>\<open>Node_Url\<close> (\<^verbatim>\<open>live_nodes.rs\<close>): \<^verbatim>\<open>build_node_url\<close> and \<^verbatim>\<open>build_seed_url\<close> over an interface to
    the URL parser, with the IPv6 grammar of \<^verbatim>\<open>Ipv6Addr::from_str\<close> written out.
  \<^item> \<^verbatim>\<open>Discovery_Tasks\<close> (\<^verbatim>\<open>discovery.rs\<close>), \<^verbatim>\<open>Discovery_Runtime\<close> (the liveness probe of
    \<^verbatim>\<open>live_nodes.rs\<close>), \<^verbatim>\<open>Node_View\<close> and \<^verbatim>\<open>Node_Refresh\<close> (membership, publication, refresh),
    \<^verbatim>\<open>Live_Nodes\<close> and \<^verbatim>\<open>Discovery_Manager\<close> (ownership of the discovery loop, its invariant),
    \<^verbatim>\<open>Discovery_Http\<close> and \<^verbatim>\<open>Live_Nodes_Build\<close> (the HTTP client of discovery, \<^verbatim>\<open>try_new\<close>).
  \<^item> \<^verbatim>\<open>Query_Plan\<close> (\<^verbatim>\<open>query_plan.rs\<close>).
  \<^item> \<^verbatim>\<open>Affinity_Config\<close>, \<^verbatim>\<open>Hasher\<close>, \<^verbatim>\<open>Classifier\<close>, \<^verbatim>\<open>Resolver\<close> (the files of those names under
    \<^verbatim>\<open>keyrouting\<close>).
  \<^item> \<^verbatim>\<open>Http_Message\<close> (the interface to the SDK's requests and headers), \<^verbatim>\<open>Optimize_Headers\<close>,
    \<^verbatim>\<open>User_Agent\<close>, \<^verbatim>\<open>Compression\<close>, \<^verbatim>\<open>Decompression\<close> (the files of those names);
    \<^verbatim>\<open>Body_Polls\<close> has the readers of \<^verbatim>\<open>decompression.rs\<close> on top of each other, poll by poll.
  \<^item> \<^verbatim>\<open>Interceptors\<close> (\<^verbatim>\<open>interceptors.rs\<close>), with \<^verbatim>\<open>Request_Routing\<close> for the plan of a request and
    \<^verbatim>\<open>Request_Transport\<close> for its attempts and its response.
  \<^item> \<^verbatim>\<open>Sdk\<close> (the interface to the SDK's configuration), \<^verbatim>\<open>Config\<close> (\<^verbatim>\<open>config.rs\<close>,
    \<^verbatim>\<open>customize.rs\<close>), \<^verbatim>\<open>Config_Calls\<close> (sequences of builder calls), \<^verbatim>\<open>Sdk_Validation\<close>, \<^verbatim>\<open>Client\<close>,
    \<^verbatim>\<open>Client_Construction\<close>, \<^verbatim>\<open>Client_Lifecycle\<close> and \<^verbatim>\<open>Client_Operations\<close> (\<^verbatim>\<open>client.rs\<close>).
  \<^item> Whole operations, from the configuration to the wire: \<^verbatim>\<open>Client_Requests\<close> (the hooks in the order
    of the SDK, the attempts and where they go), \<^verbatim>\<open>Request_Integrity\<close> (the body a server gets),
    \<^verbatim>\<open>Response_Integrity\<close> (the body the SDK gets back), \<^verbatim>\<open>Affinity_Learning\<close> (from a table with an
    unknown key to routing by it), \<^verbatim>\<open>Discovered_Requests\<close> (construction, and requests after a round) and
    \<^verbatim>\<open>Client_History\<close> (any history of discovery and requests, and the requests after it);
    \<^verbatim>\<open>Affinity_Agreement\<close> shows that clients agree on where a key goes.
  \<^item> Abstract specifications: \<^verbatim>\<open>Simulation\<close> is the contract between a component whose operations are
    events and a step relation. \<^verbatim>\<open>Discovery_Lease\<close> instantiates it for the discovery manager (a
    lease), \<^verbatim>\<open>Resolver_Flight\<close> for the partition key resolver (a cache with single flights).
    \<^verbatim>\<open>Discovery_Pacing\<close> has the timing of the discovery loop, \<^verbatim>\<open>Affinity_Refresh\<close> one round of it
    for a client with key route affinity: both views against the same policy. \<^verbatim>\<open>Agreed_Refresh\<close> says
    what an agreeing cluster is and shows that a refresh then finds the nodes of the first scope of
    the chain that has any, also when that is the whole cluster, whose nodes only know their own
    datacenter.

  \<^bold>\<open>Correspondence.\<close> A Rust struct is a record, an enum a datatype, a \<^verbatim>\<open>Result\<close> a sum with the error
  on the left, a \<^verbatim>\<open>Vec\<close> a list, a \<^verbatim>\<open>HashMap\<close> whose iteration order is visible an association list
  and otherwise a map. Strings are lists of bytes. Counters and hashes are words of their width.
  Durations and instants are natural numbers of nanoseconds. An \<^verbatim>\<open>Arc\<close> whose identity matters is a
  reference. A panic is \<open>None\<close>, or the flag \<open>unwrap_failed\<close> of the discovery manager. A method with
  \<open>&mut self\<close> returns the new state.

  \<^bold>\<open>Concurrency.\<close> Every critical section of the code is one step. A component with concurrent callers
  has an event type (\<open>task_event\<close>, \<open>runtime_event\<close>, \<open>mgr_event\<close>, \<open>resolver_event\<close>,
  \<open>client_event\<close>, \<open>live_event\<close>), and its theorems hold for every list of events, that is, for every interleaving of
  these steps. Where a call consists of several critical sections
  (\<^verbatim>\<open>ensure_discovery_started\<close>, \<^verbatim>\<open>trigger_discovery\<close>) the later ones are also events of their own, so
  that other threads may run between its checks and its effects. A task remembers the Tokio runtime
  it was spawned on, and acts there.

  \<^bold>\<open>Parameters.\<close> What the driver calls and does not define is an argument: the URL parser
  (\<open>url_api\<close>), header maps (\<open>headers_api\<close>), the SDK configuration (\<open>sdk_api\<close>), encoders and
  decoders, the hash function, the network, the clock, random numbers, the shuffle, the host's
  certificates. Where a theorem needs their documented behaviour it says so (\<open>url_eq_law\<close>,
  \<open>url_set_law\<close>, \<open>sign_law\<close>, \<open>sign_headers_law\<close>, \<open>codec_law\<close>, \<open>headers_law\<close>, \<open>sdk_law\<close>, \<open>decoder_law\<close>, \<open>validation_law\<close>, \<open>shuffle_law\<close>, \<open>rand_law\<close>), and a
  concrete instance shows that the law can hold. Interceptors that a user puts into the SDK
  configuration may change requests in any way at every hook; they are kept in the configuration, and
  the theorems on whole operations are about clients without them, as each of them says.

  \<^bold>\<open>What the lemmas show.\<close> For the life of a client: discovery is started once, moves away from a
  stalled owner, never runs twice, is a lease that is never given back, refreshes a client in use,
  and nothing starts after shutdown. For routing: the refresh implements the fallback policy and
  never empties the membership, so that after any history an attempt finds a node; every attempt
  goes to a node of the plan; a round-robin pass tries each node once; equal keys get equal plans,
  whatever the iteration order of the maps; the key of an unknown table is learned by the first
  request for it. For messages: every attempt delivers the body that was serialized, header
  stripping keeps what a signature covers (the user agent apart), every answer that a request asked for is decoded, and a
  decoded body is complete or fails and stays within its limits, however it is polled. For
  configuration: authentication options, rebuilding, per-operation overrides, and the order in
  which a configuration is refused.

  \<^bold>\<open>Bounds and termination.\<close> The loops of the driver recurse on a list or on a decreasing measure
  (the retries of \<^verbatim>\<open>discover_with_retry\<close>, at most four requests; the chain of a scope; the drain of
  the hash plan). The one fuel is that of \<open>boxed_read\<close>, the number of readers on top of each other;
  the theorem on polled bodies gives it exactly that number. The endless discovery loop is modelled by its
  iterations as events. Readers are observed over any finite list of polls.

  \<^bold>\<open>Not modelled.\<close> The SDK behind the fluent operation builders and the waiters; derived \<^verbatim>\<open>Debug\<close>
  output; logging; TLS and the async runtime themselves; tests and scripts.
\<close>

end
